(* ===== verification/Prelude.thy ===== *)
theory Prelude
  imports Main "HOL-Library.Word"
begin

text \<open>
  What every component shares: the C types and their widths, the result type of a C
  function whose execution may go wrong, C loops and arrays, pointers into a heap of
  objects, C strings, and reachability for the state machines.

  A C function of the repository becomes a HOL function into \<open>fault + 'a\<close>: \<open>Inr\<close> is a
  run that returns, \<open>Inl\<close> a run that hits undefined behaviour (the faults below) or that
  ends the process. A theorem that a call returns \<open>Inr\<close> therefore says that the call is
  free of use after free, double free, NULL dereference, out-of-bounds access, reads of
  uninitialised memory and division by zero.

  The model is that of an LP64 little-endian machine: \<open>size_t\<close> is 64 bits wide.
\<close>

named_theorems c_simps "evaluation of the C primitives whose side conditions hold"

subsection \<open>C types\<close>

type_synonym u8 = "8 word"
type_synonym u16 = "16 word"
type_synonym u32 = "32 word"
type_synonym u64 = "64 word"

text \<open>
  Addresses of heap objects; a pointer is an address or NULL (\<open>None\<close>). A byte in memory
  or on the wire is a \<open>char\<close>, so that C's byte buffers and C's strings have one type.
\<close>

type_synonym addr = nat
type_synonym ptr = "addr option"
type_synonym byte = char

datatype fault =
    NullDeref
  | UseAfterFree addr
  | DoubleFree addr
  | OutOfBounds nat
  | UninitRead nat
  | DivByZero
  | ProcessExit nat

text \<open>
  \<open>size_t\<close> values are natural numbers below \<open>2 ^ 64\<close>; the arithmetic on them wraps.
\<close>

abbreviation size_mod :: nat where
  "size_mod \<equiv> 2 ^ 64"

definition sz_add :: "nat \<Rightarrow> nat \<Rightarrow> nat" where
  "sz_add a b = (a + b) mod size_mod"

definition sz_sub :: "nat \<Rightarrow> nat \<Rightarrow> nat" where
  "sz_sub a b = (a + (size_mod - b mod size_mod)) mod size_mod"

definition sz_mul :: "nat \<Rightarrow> nat \<Rightarrow> nat" where
  "sz_mul a b = (a * b) mod size_mod"

lemma sz_add_small [c_simps]: "a + b < size_mod \<Longrightarrow> sz_add a b = a + b"
  by (simp add: sz_add_def)

lemma sz_mul_small [c_simps]: "a * b < size_mod \<Longrightarrow> sz_mul a b = a * b"
  by (simp add: sz_mul_def)

lemma sz_sub_small [c_simps]:
  assumes "b \<le> a" and "a < size_mod"
  shows "sz_sub a b = a - b"
proof -
  have "sz_sub a b = ((a - b) + size_mod) mod size_mod" using assms by (simp add: sz_sub_def)
  also have "\<dots> = a - b" using assms by (subst mod_add_self2) simp
  finally show ?thesis .
qed

subsection \<open>Results of C functions\<close>

fun ebind :: "'e + 'a \<Rightarrow> ('a \<Rightarrow> 'e + 'b) \<Rightarrow> 'e + 'b" where
  "ebind (Inl e) f = Inl e"
| "ebind (Inr x) f = f x"

lemma ebind_Inr_iff [simp]: "ebind r f = Inr y \<longleftrightarrow> (\<exists>x. r = Inr x \<and> f x = Inr y)"
  by (cases r) auto

lemma ebind_Inl_iff: "ebind r f = Inl e \<longleftrightarrow> r = Inl e \<or> (\<exists>x. r = Inr x \<and> f x = Inl e)"
  by (cases r) auto

lemma ebind_right [simp]: "ebind r Inr = r"
  by (cases r) auto

lemma ebind_assoc: "ebind (ebind r f) g = ebind r (\<lambda>x. ebind (f x) g)"
  by (cases r) auto

lemma ebind_cong [fundef_cong]:
  "r = r' \<Longrightarrow> (\<And>x. r' = Inr x \<Longrightarrow> f x = f' x) \<Longrightarrow> ebind r f = ebind r' f'"
  by (cases r') auto

text \<open>What holds of the result of a run that returns.\<close>

definition returns :: "'e + 'a \<Rightarrow> ('a \<Rightarrow> bool) \<Rightarrow> bool" where
  "returns r P \<longleftrightarrow> (\<forall>x. r = Inr x \<longrightarrow> P x)"

lemma returns_simps [simp]:
  "returns (Inl e) P" "returns (Inr x) P = P x"
  "returns (ebind r f) P = returns r (\<lambda>x. returns (f x) P)"
  by (auto simp: returns_def)

lemma returnsD: "returns r P \<Longrightarrow> r = Inr x \<Longrightarrow> P x"
  by (simp add: returns_def)

lemma returnsI: "(\<And>x. r = Inr x \<Longrightarrow> P x) \<Longrightarrow> returns r P"
  by (simp add: returns_def)

text \<open>What holds of the result of a run that returns, and of the fault of one that does not.\<close>

definition settles :: "'e + 'a \<Rightarrow> ('a \<Rightarrow> bool) \<Rightarrow> ('e \<Rightarrow> bool) \<Rightarrow> bool" where
  "settles r P E \<longleftrightarrow> (case r of Inl e \<Rightarrow> E e | Inr x \<Rightarrow> P x)"

lemma settles_simps [simp]:
  "settles (Inl e) P E = E e" "settles (Inr x) P E = P x"
  "settles (ebind r f) P E = settles r (\<lambda>x. settles (f x) P E) E"
  by (cases r; simp add: settles_def)+

lemma settlesD: "settles r P E \<Longrightarrow> r = Inr x \<Longrightarrow> P x" "settles r P E \<Longrightarrow> r = Inl e \<Longrightarrow> E e"
  by simp_all

lemma settles_mono:
  "settles r P E \<Longrightarrow> (\<And>x. P x \<Longrightarrow> P' x) \<Longrightarrow> (\<And>e. E e \<Longrightarrow> E' e) \<Longrightarrow> settles r P' E'"
  by (auto simp: settles_def split: sum.splits)

lemma settles_bind:
  "settles r P E \<Longrightarrow> (\<And>x. P x \<Longrightarrow> settles (f x) Q E) \<Longrightarrow> settles (ebind r f) Q E"
  by (cases r) simp_all

text \<open>\<open>a % b\<close> on \<open>size_t\<close>, which traps when \<open>b\<close> is zero.\<close>

definition c_mod :: "nat \<Rightarrow> nat \<Rightarrow> fault + nat" where
  "c_mod a b = (if b = 0 then Inl DivByZero else Inr (a mod b))"

lemma c_mod_pos [c_simps]: "0 < b \<Longrightarrow> c_mod a b = Inr (a mod b)"
  by (simp add: c_mod_def)

subsection \<open>Loops\<close>

text \<open>
  A \<open>for\<close> loop runs its body over the list of values its variable takes; the loop
  state is what the body assigns.
\<close>

fun for_loop :: "('i \<Rightarrow> 's \<Rightarrow> 'e + 's) \<Rightarrow> 'i list \<Rightarrow> 's \<Rightarrow> 'e + 's" where
  "for_loop body [] s = Inr s"
| "for_loop body (i # is) s = ebind (body i s) (for_loop body is)"

lemma for_loop_append:
  "for_loop body (is @ js) s = ebind (for_loop body is s) (for_loop body js)"
proof (induction "is" arbitrary: s)
  case (Cons i "is")
  have "for_loop body (is @ js) = (\<lambda>s. ebind (for_loop body is s) (for_loop body js))"
    using Cons.IH by (rule ext)
  then show ?case by (simp add: ebind_assoc)
qed simp

text \<open>Total rule: the body keeps the invariant and never faults.\<close>

lemma for_loop_total:
  assumes "P s"
    and "\<And>i s. i \<in> set is \<Longrightarrow> P s \<Longrightarrow> \<exists>s'. body i s = Inr s' \<and> P s'"
  shows "\<exists>s'. for_loop body is s = Inr s' \<and> P s'"
  using assms
proof (induction "is" arbitrary: s)
  case (Cons i "is")
  then obtain s1 where "body i s = Inr s1" and "P s1" by force
  with Cons show ?case by auto
qed simp

text \<open>Partial rule: what holds at the start and is kept by the body holds at the end.\<close>

lemma for_loop_partial:
  assumes "for_loop body is s = Inr s'" and "P s"
    and "\<And>i s s'. i \<in> set is \<Longrightarrow> P s \<Longrightarrow> body i s = Inr s' \<Longrightarrow> P s'"
  shows "P s'"
  using assms
proof (induction "is" arbitrary: s)
  case (Cons i "is")
  then obtain s1 where "body i s = Inr s1" and "for_loop body is s1 = Inr s'" by auto
  with Cons show ?case by (metis list.set_intros(1,2))
qed simp

text \<open>The loop whose body never changes the state.\<close>

lemma for_loop_skip:
  "(\<And>i. i \<in> set is \<Longrightarrow> body i s = Inr s) \<Longrightarrow> for_loop body is s = Inr s"
  by (induction "is") auto

text \<open>A search loop: the body's first \<open>Some\<close> result leaves the loop.\<close>

fun for_find :: "('i \<Rightarrow> 'e + 'r option) \<Rightarrow> 'i list \<Rightarrow> 'e + 'r option" where
  "for_find f [] = Inr None"
| "for_find f (i # is) =
     ebind (f i) (\<lambda>r. case r of None \<Rightarrow> for_find f is | Some x \<Rightarrow> Inr (Some x))"

lemma for_find_append:
  "for_find f (is @ js) =
   ebind (for_find f is) (\<lambda>r. case r of None \<Rightarrow> for_find f js | Some x \<Rightarrow> Inr (Some x))"
proof (induction "is")
  case (Cons i "is")
  show ?case
  proof (cases "f i")
    case (Inr r)
    then show ?thesis using Cons by (cases r) simp_all
  qed simp
qed simp

lemma for_find_None:
  "(\<And>i. i \<in> set is \<Longrightarrow> f i = Inr None) \<Longrightarrow> for_find f is = Inr None"
  by (induction "is") simp_all

text \<open>The first index, below \<open>n\<close>, whose body finds something.\<close>

lemma for_find_first:
  assumes "k < n" and "f k = Inr (Some x)" and "\<And>i. i < k \<Longrightarrow> f i = Inr None"
  shows "for_find f [0..<n] = Inr (Some x)"
proof -
  have "[0..<n] = [0..<k] @ k # [Suc k..<n]"
    using assms(1) by (metis le_add_same_cancel1 less_imp_add_positive upt_add_eq_append upt_conv_Cons zero_le)
  moreover have "for_find f [0..<k] = Inr None" using assms(3) by (intro for_find_None) simp
  ultimately show ?thesis using assms(2) by (simp add: for_find_append)
qed

lemma find_append:
  "find P (xs @ ys) = (case find P xs of None \<Rightarrow> find P ys | Some x \<Rightarrow> Some x)"
  by (induction xs) simp_all

subsection \<open>Heap objects and arrays\<close>

text \<open>Reading an object through a pointer. A freed object is no longer in the map.\<close>

definition deref :: "(addr \<rightharpoonup> 'a) \<Rightarrow> ptr \<Rightarrow> fault + 'a" where
  "deref h p =
     (case p of
        None \<Rightarrow> Inl NullDeref
      | Some a \<Rightarrow> (case h a of None \<Rightarrow> Inl (UseAfterFree a) | Some x \<Rightarrow> Inr x))"

lemma deref_simps [simp]:
  "deref h None = Inl NullDeref"
  "h a = Some x \<Longrightarrow> deref h (Some a) = Inr x"
  "h a = None \<Longrightarrow> deref h (Some a) = Inl (UseAfterFree a)"
  by (simp_all add: deref_def)

lemma deref_Inr_iff: "deref h p = Inr x \<longleftrightarrow> (\<exists>a. p = Some a \<and> h a = Some x)"
  by (auto simp: deref_def split: option.splits)

text \<open>
  A C array: one slot per element really allocated, \<open>None\<close> while uninitialised (or
  NULL, for an array of pointers set to zero).
\<close>

type_synonym 'a slots = "'a option list"

definition slot_get :: "'a slots \<Rightarrow> nat \<Rightarrow> fault + 'a" where
  "slot_get arr i =
     (if i < length arr
      then (case arr ! i of None \<Rightarrow> Inl (UninitRead i) | Some x \<Rightarrow> Inr x)
      else Inl (OutOfBounds i))"

definition slot_put :: "'a slots \<Rightarrow> nat \<Rightarrow> 'a \<Rightarrow> fault + 'a slots" where
  "slot_put arr i x = (if i < length arr then Inr (arr[i := Some x]) else Inl (OutOfBounds i))"

lemma slot_get_Some [c_simps]: "i < length arr \<Longrightarrow> arr ! i = Some x \<Longrightarrow> slot_get arr i = Inr x"
  by (simp add: slot_get_def)

lemma slot_put_Inr [c_simps]: "i < length arr \<Longrightarrow> slot_put arr i x = Inr (arr[i := Some x])"
  by (simp add: slot_put_def)

text \<open>
  Arrays that are initialised as a whole (static ones, or set to zero): only the bounds
  matter.
\<close>

definition arr_get :: "'a list \<Rightarrow> nat \<Rightarrow> fault + 'a" where
  "arr_get arr i = (if i < length arr then Inr (arr ! i) else Inl (OutOfBounds i))"

definition arr_put :: "'a list \<Rightarrow> nat \<Rightarrow> 'a \<Rightarrow> fault + 'a list" where
  "arr_put arr i x = (if i < length arr then Inr (arr[i := x]) else Inl (OutOfBounds i))"

lemma arr_get_Inr [c_simps]: "i < length arr \<Longrightarrow> arr_get arr i = Inr (arr ! i)"
  by (simp add: arr_get_def)

lemma arr_put_Inr [c_simps]: "i < length arr \<Longrightarrow> arr_put arr i x = Inr (arr[i := x])"
  by (simp add: arr_put_def)

text \<open>The first \<open>n\<close> slots of an array are initialised, and what they hold.\<close>

definition filled :: "nat \<Rightarrow> 'a slots \<Rightarrow> bool" where
  "filled n arr \<longleftrightarrow> n \<le> length arr \<and> None \<notin> set (take n arr)"

definition prefix :: "nat \<Rightarrow> 'a slots \<Rightarrow> 'a list" where
  "prefix n arr = map the (take n arr)"

lemma filled_nth: "filled n arr \<Longrightarrow> i < n \<Longrightarrow> \<exists>x. arr ! i = Some x"
  by (force simp: filled_def in_set_conv_nth)

lemma filledI: "n \<le> length arr \<Longrightarrow> (\<And>i. i < n \<Longrightarrow> arr ! i \<noteq> None) \<Longrightarrow> filled n arr"
  by (auto simp: filled_def in_set_conv_nth)

lemma length_prefix [simp]: "n \<le> length arr \<Longrightarrow> length (prefix n arr) = n"
  by (simp add: prefix_def)

lemma prefix_nth: "n \<le> length arr \<Longrightarrow> i < n \<Longrightarrow> prefix n arr ! i = the (arr ! i)"
  by (simp add: prefix_def)

lemma slot_get_filled:
  assumes "filled n arr" and "i < n"
  shows "slot_get arr i = Inr (prefix n arr ! i)"
proof -
  obtain x where x: "arr ! i = Some x" using filled_nth [OF assms] by blast
  moreover have "i < length arr" using assms by (simp add: filled_def)
  ultimately show ?thesis using assms by (simp add: slot_get_def prefix_nth filled_def)
qed

lemma prefix_0 [simp]: "prefix 0 arr = []"
  by (simp add: prefix_def)

lemma filled_0 [simp]: "filled 0 arr"
  by (simp add: filled_def)

lemma filled_Suc_put:
  "filled n arr \<Longrightarrow> n < length arr \<Longrightarrow> filled (Suc n) (arr[n := Some x])"
  by (auto simp: filled_def take_Suc_conv_app_nth)

lemma prefix_Suc_put:
  "n < length arr \<Longrightarrow> prefix (Suc n) (arr[n := Some x]) = prefix n arr @ [x]"
  by (simp add: prefix_def take_Suc_conv_app_nth)

lemma prefix_Suc: "n < length arr \<Longrightarrow> prefix (Suc n) arr = prefix n arr @ [the (arr ! n)]"
  by (simp add: prefix_def take_Suc_conv_app_nth)

lemma filled_mono: "filled n arr \<Longrightarrow> m \<le> n \<Longrightarrow> filled m arr"
  using set_take_subset_set_take [of m n arr] by (auto simp: filled_def)

lemma prefix_update: "i < n \<Longrightarrow> n \<le> length arr \<Longrightarrow> prefix n (arr[i := Some x]) = (prefix n arr)[i := x]"
  by (simp add: prefix_def take_update_swap map_update)

lemma filled_update: "filled n arr \<Longrightarrow> filled n (arr[i := Some x])"
proof -
  assume f: "filled n arr"
  have "set (take n (arr[i := Some x])) \<subseteq> insert (Some x) (set (take n arr))"
    by (metis set_update_subset_insert take_update_swap)
  with f show ?thesis by (auto simp: filled_def)
qed

subsection \<open>C strings\<close>

definition NUL :: char where
  "NUL = CHR 0x00"

text \<open>The string a NUL-terminated buffer holds, and the test of a string without NUL.\<close>

definition cstr :: "byte list \<Rightarrow> string" where
  "cstr s = takeWhile (\<lambda>c. c \<noteq> NUL) s"

definition no_nul :: "string \<Rightarrow> bool" where
  "no_nul s \<longleftrightarrow> NUL \<notin> set s"

lemma cstr_no_nul [simp]: "no_nul s \<Longrightarrow> cstr s = s"
  by (auto simp: cstr_def no_nul_def takeWhile_eq_all_conv)

lemma no_nul_cstr [simp]: "no_nul (cstr s)"
  by (auto simp: cstr_def no_nul_def dest: set_takeWhileD)

text \<open>
  \<open>strcmp(a, b) == 0\<close> on two string pointers; a NULL argument is undefined behaviour.
\<close>

definition str_eq :: "string option \<Rightarrow> string option \<Rightarrow> fault + bool" where
  "str_eq a b =
     (case (a, b) of (Some x, Some y) \<Rightarrow> Inr (x = y) | _ \<Rightarrow> Inl NullDeref)"

lemma str_eq_Some [simp]: "str_eq (Some x) (Some y) = Inr (x = y)"
  by (simp add: str_eq_def)

text \<open>
  \<open>strncpy(buf, s, sizeof(buf) - 1); buf[sizeof(buf) - 1] = 0\<close> on a buffer of \<open>n\<close>
  bytes: the string the buffer holds afterwards.
\<close>

definition strncpy_z :: "nat \<Rightarrow> string \<Rightarrow> string" where
  "strncpy_z n s = take (n - 1) (cstr s)"

lemma strncpy_z_id: "no_nul s \<Longrightarrow> length s < n \<Longrightarrow> strncpy_z n s = s"
  by (simp add: strncpy_z_def)

lemma length_strncpy_z: "0 < n \<Longrightarrow> length (strncpy_z n s) < n"
  by (simp add: strncpy_z_def)

subsection \<open>Reachable states\<close>

inductive reach :: "('s \<Rightarrow> bool) \<Rightarrow> ('s \<Rightarrow> 's \<Rightarrow> bool) \<Rightarrow> 's \<Rightarrow> bool" for init step where
  reach_init: "init s \<Longrightarrow> reach init step s"
| reach_step: "reach init step s \<Longrightarrow> step s t \<Longrightarrow> reach init step t"

text \<open>
  The contract of an inductive invariant; every state machine of the development
  interprets it on its own step relation.
\<close>

locale invariant_system =
  fixes init :: "'s \<Rightarrow> bool"
    and step :: "'s \<Rightarrow> 's \<Rightarrow> bool"
    and inv :: "'s \<Rightarrow> bool"
  assumes inv_init: "init s \<Longrightarrow> inv s"
    and inv_step: "inv s \<Longrightarrow> step s t \<Longrightarrow> inv t"
begin

lemma reach_inv: "reach init step s \<Longrightarrow> inv s"
  by (induction rule: reach.induct) (auto intro: inv_init inv_step)

lemma steps_inv: "step\<^sup>*\<^sup>* s t \<Longrightarrow> inv s \<Longrightarrow> inv t"
  by (induction rule: rtranclp_induct) (auto intro: inv_step)

lemma reach_closed: "reach init step s \<Longrightarrow> step\<^sup>*\<^sup>* s t \<Longrightarrow> reach init step t \<and> inv t"
  by (rotate_tac, induction rule: rtranclp_induct) (auto intro: reach_step reach_inv)

end

end
