(* ===== verification/Log.thy ===== *)
theory Log
  imports Prelude
begin

text \<open>
  The logging module, \<open>src/core/log.c\<close>: the module's static variables as a record, its
  functions as state transformers. The output of \<open>fprintf\<close> is the list of lines written,
  each with the file it went to; a line's text is the formatted message, and the time stamp
  and thread identifier of the header are left out. A fatal line ends the process.
\<close>

datatype LogLevel =
    LOG_LEVEL_DEBUG
  | LOG_LEVEL_INFO
  | LOG_LEVEL_WARNING
  | LOG_LEVEL_ERROR
  | LOG_LEVEL_FATAL

text \<open>The enumeration's integer values, and the order of C's comparison on them.\<close>

fun level_num :: "LogLevel \<Rightarrow> nat" where
  "level_num LOG_LEVEL_DEBUG = 0"
| "level_num LOG_LEVEL_INFO = 1"
| "level_num LOG_LEVEL_WARNING = 2"
| "level_num LOG_LEVEL_ERROR = 3"
| "level_num LOG_LEVEL_FATAL = 4"

lemma level_num_inj: "level_num l = level_num m \<longleftrightarrow> l = m"
  by (cases l; cases m) simp_all

lemma level_num_le: "level_num l \<le> 4"
  by (cases l) simp_all

instantiation LogLevel :: linorder
begin

definition less_eq_LogLevel :: "LogLevel \<Rightarrow> LogLevel \<Rightarrow> bool" where
  "less_eq_LogLevel l m \<longleftrightarrow> level_num l \<le> level_num m"

definition less_LogLevel :: "LogLevel \<Rightarrow> LogLevel \<Rightarrow> bool" where
  "less_LogLevel l m \<longleftrightarrow> level_num l < level_num m"

instance
  by standard (auto simp: less_eq_LogLevel_def less_LogLevel_def level_num_inj)

end

lemmas level_order = less_eq_LogLevel_def less_LogLevel_def

lemma level_le_fatal [simp]: "(l :: LogLevel) \<le> LOG_LEVEL_FATAL"
  by (cases l) (simp_all add: level_order)

definition level_of_num :: "nat \<Rightarrow> LogLevel" where
  "level_of_num n =
     [LOG_LEVEL_DEBUG, LOG_LEVEL_INFO, LOG_LEVEL_WARNING, LOG_LEVEL_ERROR, LOG_LEVEL_FATAL] ! n"

lemma level_of_num_num [simp]: "level_of_num (level_num l) = l"
  by (cases l) (simp_all add: level_of_num_def numeral_eq_Suc)

definition level_names :: "string list" where
  "level_names = [''DEBUG'', ''INFO'', ''WARNING'', ''ERROR'', ''FATAL'']"

text \<open>A line written: the file, the level's name in the header, the message.\<close>

type_synonym log_line = "addr \<times> string \<times> string"

record log_state =
  current_level :: LogLevel
  log_output :: ptr
  log_lines :: "log_line list"

definition stdout_file :: addr where
  "stdout_file = 1"

definition log_initial :: log_state where
  "log_initial = \<lparr>current_level = LOG_LEVEL_INFO, log_output = None, log_lines = []\<rparr>"

definition init_log_output :: "log_state \<Rightarrow> log_state" where
  "init_log_output st =
     (if log_output st = None then st\<lparr>log_output := Some stdout_file\<rparr> else st)"

text \<open>The argument of \<open>log_set_level\<close> is any value of the enumeration's integer type.\<close>

definition log_set_level :: "u32 \<Rightarrow> log_state \<Rightarrow> log_state" where
  "log_set_level level st =
     (if level_num LOG_LEVEL_DEBUG \<le> unat level \<and> unat level \<le> level_num LOG_LEVEL_FATAL
      then st\<lparr>current_level := level_of_num (unat level)\<rparr>
      else st)"

definition log_set_output :: "ptr \<Rightarrow> log_state \<Rightarrow> log_state" where
  "log_set_output output st =
     st\<lparr>log_output := (if output \<noteq> None then output else Some stdout_file)\<rparr>"

definition log_internal :: "LogLevel \<Rightarrow> string \<Rightarrow> log_state \<Rightarrow> fault + log_state" where
  "log_internal level message st =
     (if level < current_level st then Inr st
      else
        let st = init_log_output st in
        ebind (deref (\<lambda>f. Some f) (log_output st)) (\<lambda>file.
          let st = st\<lparr>log_lines :=
                log_lines st @ [(file, level_names ! level_num level, message)]\<rparr> in
          if level = LOG_LEVEL_FATAL then Inl (ProcessExit 1) else Inr st))"

definition log_debug :: "string \<Rightarrow> log_state \<Rightarrow> fault + log_state" where
  "log_debug = log_internal LOG_LEVEL_DEBUG"

definition log_info :: "string \<Rightarrow> log_state \<Rightarrow> fault + log_state" where
  "log_info = log_internal LOG_LEVEL_INFO"

definition log_warning :: "string \<Rightarrow> log_state \<Rightarrow> fault + log_state" where
  "log_warning = log_internal LOG_LEVEL_WARNING"

definition log_error :: "string \<Rightarrow> log_state \<Rightarrow> fault + log_state" where
  "log_error = log_internal LOG_LEVEL_ERROR"

definition log_fatal :: "string \<Rightarrow> log_state \<Rightarrow> fault + log_state" where
  "log_fatal = log_internal LOG_LEVEL_FATAL"

subsection \<open>What a log call does\<close>

lemma log_output_init: "log_output (init_log_output st) \<noteq> None"
  by (simp add: init_log_output_def)

text \<open>
  A call below the fatal level never ends the process and changes nothing but the lines
  written and the default output file. The other components leave their log calls out of
  the model on the strength of this.
\<close>

lemma log_internal_nonfatal:
  assumes "level \<noteq> LOG_LEVEL_FATAL"
  shows "\<exists>st'. log_internal level message st = Inr st' \<and> current_level st' = current_level st \<and>
           (\<exists>lines. log_lines st' = log_lines st @ lines)"
proof (cases "level < current_level st")
  case True
  then show ?thesis by (auto simp: log_internal_def)
next
  case False
  obtain f where "log_output (init_log_output st) = Some f"
    using log_output_init by blast
  with False assms show ?thesis
    by (auto simp: log_internal_def Let_def init_log_output_def split: if_splits)
qed

text \<open>
  The level filter: below the fatal level, a message is written exactly when its level
  is at least the current one, as one line with its level's name, to the file set as output
  or to standard output when none is set; the level never changes. A fatal message always
  ends the process with the failure status.
\<close>

theorem log_level_filter:
  "log_internal level message st =
     (if level = LOG_LEVEL_FATAL then Inl (ProcessExit 1)
      else if level_num level < level_num (current_level st) then Inr st
      else
        let file = (case log_output st of None \<Rightarrow> stdout_file | Some f \<Rightarrow> f)
        in Inr (st\<lparr>log_output := Some file,
             log_lines := log_lines st @ [(file, level_names ! level_num level, message)]\<rparr>))"
  by (cases level; cases "current_level st")
    (auto simp: log_internal_def init_log_output_def level_order Let_def split: option.splits)

text \<open>
  After \<open>log_set_level\<close> with a value of the enumeration, exactly the messages of that
  level and above pass the filter; any other integer leaves the filter as it was.
\<close>

theorem log_set_level_filters:
  "level_num (current_level (log_set_level n st)) =
     (if unat n \<le> 4 then unat n else level_num (current_level st))"
proof (cases "unat n \<le> 4")
  case True
  then have "unat n \<in> {0, 1, 2, 3, 4}" by auto
  then show ?thesis
    by (auto simp: log_set_level_def level_of_num_def numeral_eq_Suc)
qed (simp add: log_set_level_def)

end
