(* ===== verification/Message.thy ===== *)
theory Message
  imports Prelude
begin

text \<open>
  Messages, \<open>src/core/message.c\<close> and \<open>include/core/message.h\<close>.

  The messages live in a heap, a map from addresses to the message stored there; freeing a
  message removes it. Addresses are never used twice, so a use after free or a double free
  of the code is a fault of the model. Calls into the system that may fail (\<open>malloc\<close>,
  \<open>strdup\<close>, the initialisation of a mutex, the creation of a thread) ask an oracle: the
  \<open>n\<close>-th such call of a run succeeds when \<open>sys_ok\<close> holds of \<open>n\<close>, and the oracle is
  arbitrary. An allocation of \<open>2 ^ 63\<close> bytes or more always fails, as in glibc.
\<close>

record Message =
  exchange :: "string option"
  routing_key :: "string option"
  body :: "byte list option"
  body_size :: nat
  priority :: u32
  expiration :: u64
  persistent :: u8

record mem =
  msgs :: "addr \<rightharpoonup> Message"
  brk :: addr
  sys_ok :: "nat \<Rightarrow> bool"
  sys_calls :: nat

subsection \<open>System calls that may fail\<close>

definition sys_try :: "'z mem_scheme \<Rightarrow> bool \<times> 'z mem_scheme" where
  "sys_try s = (sys_ok s (sys_calls s), s\<lparr>sys_calls := Suc (sys_calls s)\<rparr>)"

definition sys_malloc :: "nat \<Rightarrow> 'z mem_scheme \<Rightarrow> bool \<times> 'z mem_scheme" where
  "sys_malloc n s = (sys_ok s (sys_calls s) \<and> n < 2 ^ 63, s\<lparr>sys_calls := Suc (sys_calls s)\<rparr>)"

definition strdup :: "byte list \<Rightarrow> 'z mem_scheme \<Rightarrow> string option \<times> 'z mem_scheme" where
  "strdup str s =
     (let (ok, s) = sys_try s in (if ok then Some (cstr str) else None, s))"

text \<open>The assumption that no system call fails.\<close>

definition sys_fine :: "'z mem_scheme \<Rightarrow> bool" where
  "sys_fine s \<longleftrightarrow> (\<forall>n. sys_ok s n)"

subsection \<open>The operations\<close>

definition new_message :: "Message \<Rightarrow> 'z mem_scheme \<Rightarrow> ptr \<times> 'z mem_scheme" where
  "new_message m s = (Some (brk s), s\<lparr>msgs := (msgs s)(brk s \<mapsto> m), brk := Suc (brk s)\<rparr>)"

definition message_create ::
    "byte list option \<Rightarrow> byte list option \<Rightarrow> byte list option \<Rightarrow> nat \<Rightarrow> 'z mem_scheme
      \<Rightarrow> fault + ptr \<times> 'z mem_scheme" where
  "message_create exchange_arg routing_key_arg body_arg size_arg s =
     (case (exchange_arg, routing_key_arg) of
        (Some ex, Some rk) \<Rightarrow>
          if body_arg = None \<and> size_arg > 0 then Inr (None, s)
          else
            let (ok, s) = sys_malloc 56 s in
            if \<not> ok then Inr (None, s)
            else
              let (ex_dup, s) = strdup ex s;
                  (rk_dup, s) = strdup rk s;
                  m = \<lparr>exchange = ex_dup, routing_key = rk_dup, body = None, body_size = 0,
                       priority = 0, expiration = 0, persistent = 0\<rparr> in
              (if size_arg > 0
               then
                 let (ok, s) = sys_malloc size_arg s in
                 if \<not> ok then Inr (None, s)
                 else
                   (case body_arg of
                      None \<Rightarrow> Inl NullDeref
                    | Some bytes \<Rightarrow>
                        if length bytes < size_arg then Inl (OutOfBounds (length bytes))
                        else Inr (new_message
                          (m\<lparr>body := Some (take size_arg bytes), body_size := size_arg\<rparr>) s))
               else Inr (new_message m s))
      | _ \<Rightarrow> Inr (None, s))"

definition message_free :: "ptr \<Rightarrow> 'z mem_scheme \<Rightarrow> fault + 'z mem_scheme" where
  "message_free message s =
     (case message of
        None \<Rightarrow> Inr s
      | Some a \<Rightarrow>
          (case msgs s a of
             None \<Rightarrow> Inl (DoubleFree a)
           | Some _ \<Rightarrow> Inr (s\<lparr>msgs := (msgs s)(a := None)\<rparr>)))"

text \<open>Assigning to a field of the message behind a pointer.\<close>

definition write_message ::
    "ptr \<Rightarrow> (Message \<Rightarrow> Message) \<Rightarrow> 'z mem_scheme \<Rightarrow> fault + 'z mem_scheme" where
  "write_message p f s =
     ebind (deref (msgs s) p) (\<lambda>m. Inr (s\<lparr>msgs := (msgs s)(the p \<mapsto> f m)\<rparr>))"

definition message_clone :: "ptr \<Rightarrow> 'z mem_scheme \<Rightarrow> fault + ptr \<times> 'z mem_scheme" where
  "message_clone message s =
     (if message = None then Inr (None, s)
      else
        ebind (deref (msgs s) message) (\<lambda>m.
        ebind (message_create (exchange m) (routing_key m) (body m) (body_size m) s) (\<lambda>(clone, s).
          if clone = None then Inr (None, s)
          else
            ebind (write_message clone (\<lambda>c. c\<lparr>priority := priority m,
                expiration := expiration m, persistent := persistent m\<rparr>) s) (\<lambda>s.
            Inr (clone, s)))))"

definition message_set_priority :: "ptr \<Rightarrow> u32 \<Rightarrow> 'z mem_scheme \<Rightarrow> fault + 'z mem_scheme" where
  "message_set_priority message p s =
     (if message = None then Inr s
      else write_message message (\<lambda>m. m\<lparr>priority := (if p > 9 then 9 else p)\<rparr>) s)"

definition message_set_expiration :: "ptr \<Rightarrow> u64 \<Rightarrow> 'z mem_scheme \<Rightarrow> fault + 'z mem_scheme" where
  "message_set_expiration message e s =
     (if message = None then Inr s
      else write_message message (\<lambda>m. m\<lparr>expiration := e\<rparr>) s)"

definition message_set_persistent :: "ptr \<Rightarrow> u8 \<Rightarrow> 'z mem_scheme \<Rightarrow> fault + 'z mem_scheme" where
  "message_set_persistent message p s =
     (if message = None then Inr s
      else write_message message (\<lambda>m. m\<lparr>persistent := (if p \<noteq> 0 then 1 else 0)\<rparr>) s)"

subsection \<open>Well-formed messages and heaps\<close>

text \<open>
  The strings hold no NUL, and the body is a buffer of exactly \<open>body_size\<close> bytes, NULL when
  empty. A complete message also has both its strings, which is what \<open>message_create\<close> gives
  unless a \<open>strdup\<close> failed.
\<close>

definition msg_ok :: "Message \<Rightarrow> bool" where
  "msg_ok m \<longleftrightarrow>
     (case exchange m of None \<Rightarrow> True | Some e \<Rightarrow> no_nul e) \<and>
     (case routing_key m of None \<Rightarrow> True | Some r \<Rightarrow> no_nul r) \<and>
     (case body m of
        None \<Rightarrow> body_size m = 0
      | Some b \<Rightarrow> b \<noteq> [] \<and> length b = body_size m \<and> body_size m < 2 ^ 63)"

definition msg_complete :: "Message \<Rightarrow> bool" where
  "msg_complete m \<longleftrightarrow> msg_ok m \<and> exchange m \<noteq> None \<and> routing_key m \<noteq> None"

definition heap_ok :: "'z mem_scheme \<Rightarrow> bool" where
  "heap_ok s \<longleftrightarrow> (\<forall>a m. msgs s a = Some m \<longrightarrow> a < brk s \<and> msg_ok m)"

lemma heap_okD: "heap_ok s \<Longrightarrow> msgs s a = Some m \<Longrightarrow> a < brk s \<and> msg_ok m"
  by (simp add: heap_ok_def)

lemma brk_fresh: "heap_ok s \<Longrightarrow> msgs s (brk s) = None"
  using heap_okD [of s "brk s"] by (cases "msgs s (brk s)") auto

lemma heap_ok_calls [simp]: "heap_ok (s\<lparr>sys_calls := k\<rparr>) = heap_ok s"
  by (simp add: heap_ok_def)

lemma sys_fine_calls [simp]: "sys_fine (s\<lparr>sys_calls := k\<rparr>) = sys_fine s"
  by (simp add: sys_fine_def)

lemma heap_ok_new:
  "heap_ok s \<Longrightarrow> msg_ok m \<Longrightarrow>
   heap_ok (s\<lparr>sys_calls := k, msgs := (msgs s)(brk s \<mapsto> m), brk := Suc (brk s)\<rparr>)"
  by (auto simp: heap_ok_def less_Suc_eq dest: heap_okD split: if_splits)

lemma heap_ok_free: "heap_ok s \<Longrightarrow> heap_ok (s\<lparr>msgs := (msgs s)(a := None)\<rparr>)"
  by (auto simp: heap_ok_def split: if_splits)

lemma message_free_live: "msgs s a = Some m \<Longrightarrow>
    message_free (Some a) s = Inr (s\<lparr>msgs := (msgs s)(a := None)\<rparr>)"
  by (simp add: message_free_def)

lemma message_free_dead: "msgs s a = None \<Longrightarrow> message_free (Some a) s = Inl (DoubleFree a)"
  by (simp add: message_free_def)

lemma message_free_None [simp]: "message_free None s = Inr s"
  by (simp add: message_free_def)

subsection \<open>Creating\<close>

text \<open>
  What a creation with valid arguments does under any behaviour of the allocator: it fails
  with nothing allocated, or stores one well-formed message at a fresh address.
\<close>

lemma message_create_outcome:
  assumes "case b of None \<Rightarrow> n = 0 | Some bytes \<Rightarrow> n \<le> length bytes"
  shows "\<exists>k. message_create (Some ex) (Some rk) b n s = Inr (None, s\<lparr>sys_calls := k\<rparr>) \<or>
    (\<exists>ex_dup rk_dup. ex_dup \<in> {None, Some (cstr ex)} \<and> rk_dup \<in> {None, Some (cstr rk)} \<and>
       message_create (Some ex) (Some rk) b n s =
       Inr (Some (brk s), s\<lparr>sys_calls := k,
         msgs := (msgs s)(brk s \<mapsto>
           \<lparr>exchange = ex_dup, routing_key = rk_dup,
            body = (if n = 0 then None else Some (take n (the b))), body_size = n,
            priority = 0, expiration = 0, persistent = 0\<rparr>),
         brk := Suc (brk s)\<rparr>) \<and> n < 2 ^ 63)"
proof (cases b)
  case None
  with assms show ?thesis
    by (auto simp: message_create_def sys_malloc_def strdup_def sys_try_def new_message_def Let_def)
next
  case (Some bytes)
  with assms show ?thesis
    by (auto simp: message_create_def sys_malloc_def strdup_def sys_try_def new_message_def Let_def)
qed

lemma message_create_fine:
  assumes "sys_fine s" and "case b of None \<Rightarrow> n = 0 | Some bytes \<Rightarrow> n \<le> length bytes" and "n < 2 ^ 63"
  shows "message_create (Some ex) (Some rk) b n s =
    Inr (Some (brk s), s\<lparr>sys_calls := sys_calls s + (if n = 0 then 3 else 4),
      msgs := (msgs s)(brk s \<mapsto>
        \<lparr>exchange = Some (cstr ex), routing_key = Some (cstr rk),
         body = (if n = 0 then None else Some (take n (the b))), body_size = n,
         priority = 0, expiration = 0, persistent = 0\<rparr>),
      brk := Suc (brk s)\<rparr>)"
  using assms
  by (cases b) (simp_all add: message_create_def sys_malloc_def strdup_def sys_try_def sys_fine_def
      new_message_def Let_def)

subsection \<open>Cloning\<close>

lemma message_clone_fine:
  assumes "sys_fine s" and "msgs s a = Some m" and "msg_complete m"
  shows "message_clone (Some a) s =
    Inr (Some (brk s), s\<lparr>sys_calls := sys_calls s + (if body_size m = 0 then 3 else 4),
      msgs := (msgs s)(brk s \<mapsto> m), brk := Suc (brk s)\<rparr>)"
proof -
  obtain ex rk where s: "exchange m = Some ex" "routing_key m = Some rk"
    using assms(3) by (auto simp: msg_complete_def)
  have n: "no_nul ex" "no_nul rk" and b: "case body m of None \<Rightarrow> body_size m = 0
      | Some bytes \<Rightarrow> bytes \<noteq> [] \<and> length bytes = body_size m \<and> body_size m < 2 ^ 63"
    using assms(3) s by (simp_all add: msg_complete_def msg_ok_def split: option.splits)
  show ?thesis
    using assms(1,2) s n b
    by (cases "body m"; cases m)
      (auto simp: message_clone_def write_message_def message_create_fine)
qed

end
