(* ===== verification/Wire.thy ===== *)
theory Wire
  imports Message
begin

text \<open>
  The wire format: \<open>send_message_data\<close> and \<open>receive_message_data\<close> of
  \<open>src/core/connection.c\<close>, over sockets.

  The kernel is a parameter. Each call of \<open>send\<close> or \<open>recv\<close> asks it how many bytes it
  handles: \<open>send_limit n\<close> is \<open>None\<close> when the \<open>n\<close>-th \<open>send\<close> fails and \<open>Some k\<close> when it
  accepts at most \<open>k\<close> bytes, and \<open>recv_limit\<close> likewise. \<open>inp fd\<close> is what still arrives on
  a descriptor before the peer closes it, \<open>out fd\<close> what has been accepted for sending.
  Integers go over the wire as they are in memory: little-endian.
\<close>

record sockets =
  inp :: "int \<Rightarrow> byte list"
  out :: "int \<Rightarrow> byte list"
  send_limit :: "nat \<Rightarrow> nat option"
  send_calls :: nat
  recv_limit :: "nat \<Rightarrow> nat option"
  recv_calls :: nat

definition c_send :: "int \<Rightarrow> byte list \<Rightarrow> sockets \<Rightarrow> int \<times> sockets" where
  "c_send fd buf net =
     (let net' = net\<lparr>send_calls := Suc (send_calls net)\<rparr> in
      case send_limit net (send_calls net) of
        None \<Rightarrow> (-1, net')
      | Some k \<Rightarrow>
          let r = min k (length buf)
          in (int r, net'\<lparr>out := (out net)(fd := out net fd @ take r buf)\<rparr>))"

definition c_recv :: "int \<Rightarrow> nat \<Rightarrow> sockets \<Rightarrow> int \<times> byte list \<times> sockets" where
  "c_recv fd len net =
     (let net' = net\<lparr>recv_calls := Suc (recv_calls net)\<rparr> in
      case recv_limit net (recv_calls net) of
        None \<Rightarrow> (-1, [], net')
      | Some k \<Rightarrow>
          let bs = take (min k len) (inp net fd)
          in (int (length bs), bs, net'\<lparr>inp := (inp net)(fd := drop (min k len) (inp net fd))\<rparr>))"

subsection \<open>Integers as bytes\<close>

primrec le_bytes :: "nat \<Rightarrow> nat \<Rightarrow> byte list" where
  "le_bytes 0 v = []"
| "le_bytes (Suc k) v = char_of v # le_bytes k (v div 256)"

primrec le_value :: "byte list \<Rightarrow> nat" where
  "le_value [] = 0"
| "le_value (b # bs) = of_char b + 256 * le_value bs"

lemma length_le_bytes [simp]: "length (le_bytes k v) = k"
  by (induction k arbitrary: v) simp_all

lemma le_value_bytes: "le_value (le_bytes k v) = v mod 256 ^ k"
proof (induction k arbitrary: v)
  case (Suc k)
  have "v mod 256 + 256 * (v div 256 mod 256 ^ k) = v mod (256 * 256 ^ k)"
    using mod_mult2_eq [of v 256 "256 ^ k"] by simp
  then show ?case by (simp add: Suc)
qed simp

lemma le_bytes_value: "le_bytes (length bs) (le_value bs) = bs"
proof (induction bs)
  case (Cons b bs)
  have "(char_of (of_char b + 256 * le_value bs) :: char) = char_of ((of_char b + 256 * le_value bs) mod 256)"
    by (rule char_of_mod_256 [symmetric])
  also have "\<dots> = b" by simp
  finally have "char_of (of_char b + 256 * le_value bs) = b" .
  moreover have "(of_char b + 256 * le_value bs) div 256 = le_value bs" by simp
  ultimately show ?case using Cons by simp
qed simp

lemma le_value_less: "le_value bs < 256 ^ length bs"
proof (induction bs)
  case (Cons b bs)
  have "of_char b < (256 :: nat)" by simp
  with Cons show ?case unfolding le_value.simps list.size power_add power_one_right add_Suc_right add_0_right power_Suc by linarith
qed simp

definition u32_bytes :: "u32 \<Rightarrow> byte list" where
  "u32_bytes w = le_bytes 4 (unat w)"

definition u64_bytes :: "u64 \<Rightarrow> byte list" where
  "u64_bytes w = le_bytes 8 (unat w)"

definition u8_bytes :: "u8 \<Rightarrow> byte list" where
  "u8_bytes w = le_bytes 1 (unat w)"

definition bytes_word :: "byte list \<Rightarrow> 'a::len word" where
  "bytes_word bs = word_of_nat (le_value bs)"

lemma length_word_bytes [simp]:
  "length (u32_bytes w) = 4" "length (u64_bytes v) = 8" "length (u8_bytes b) = 1"
  by (simp_all add: u32_bytes_def u64_bytes_def u8_bytes_def)

lemma unat_bounds: "unat (w :: u32) < 2 ^ 32" "unat (v :: u64) < 2 ^ 64" "unat (b :: u8) < 2 ^ 8"
  by (rule order_less_le_trans [OF unsigned_less], simp)+

lemma bytes_word_u32 [simp]: "bytes_word (u32_bytes w) = w"
  using unat_bounds(1) [of w] by (simp add: bytes_word_def u32_bytes_def le_value_bytes)

lemma bytes_word_u64 [simp]: "bytes_word (u64_bytes w) = w"
  using unat_bounds(2) [of w] by (simp add: bytes_word_def u64_bytes_def le_value_bytes)

lemma bytes_word_u8 [simp]: "bytes_word (u8_bytes w) = w"
  using unat_bounds(3) [of w] by (simp add: bytes_word_def u8_bytes_def le_value_bytes)

lemma u32_bytes_word: "length bs = 4 \<Longrightarrow> u32_bytes (bytes_word bs) = bs"
  using le_value_less [of bs] le_bytes_value [of bs]
  by (simp add: u32_bytes_def bytes_word_def unat_of_nat)

subsection \<open>Sending\<close>

definition MESSAGE_MAGIC :: u32 where
  "MESSAGE_MAGIC = 0x52414D51"

text \<open>\<open>if (send(...) != len) return 0;\<close> for each buffer in turn.\<close>

fun send_fields :: "int \<Rightarrow> byte list list \<Rightarrow> sockets \<Rightarrow> bool \<times> sockets" where
  "send_fields fd [] net = (True, net)"
| "send_fields fd (buf # bufs) net =
     (let (r, net) = c_send fd buf net in
      if r \<noteq> int (length buf) then (False, net) else send_fields fd bufs net)"

text \<open>
  The buffers, in the order they are sent. The lengths are \<open>uint32_t\<close> variables, so each
  is taken modulo \<open>2 ^ 32\<close>, and that many bytes are sent.
\<close>

definition send_message_data :: "int \<Rightarrow> ptr \<Rightarrow> 'z mem_scheme \<Rightarrow> sockets \<Rightarrow> fault + bool \<times> sockets" where
  "send_message_data socket_fd message s net =
     (if socket_fd < 0 \<or> message = None then Inr (False, net)
      else
        ebind (deref (msgs s) message) (\<lambda>m.
        case (exchange m, routing_key m) of
          (Some ex, Some rk) \<Rightarrow>
            let exchange_len = (word_of_nat (length ex) :: u32);
                routing_key_len = (word_of_nat (length rk) :: u32);
                bsize = (word_of_nat (body_size m) :: u32);
                body_bufs = (if bsize > 0
                  then (case body m of None \<Rightarrow> [] | Some b \<Rightarrow> [take (unat bsize) b]) else []) in
            Inr (send_fields socket_fd
              ([u32_bytes MESSAGE_MAGIC,
                u32_bytes exchange_len, take (unat exchange_len) ex,
                u32_bytes routing_key_len, take (unat routing_key_len) rk,
                u32_bytes bsize] @ body_bufs @
               [u32_bytes (priority m), u64_bytes (expiration m), u8_bytes (persistent m)]) net)
        | _ \<Rightarrow> Inl NullDeref))"

subsection \<open>Receiving\<close>

text \<open>
  \<open>recv\<close> of \<open>len\<close> bytes into a buffer of \<open>room\<close> bytes, followed by the test
  \<open>!= len\<close>: the bytes when the test passes, \<open>None\<close> when it fails.
\<close>

definition recv_into :: "nat \<Rightarrow> int \<Rightarrow> nat \<Rightarrow> sockets \<Rightarrow> fault + byte list option \<times> sockets" where
  "recv_into room fd len net =
     (let (r, bs, net) = c_recv fd len net in
      if length bs > room then Inl (OutOfBounds room)
      else Inr (if r = int len then Some bs else None, net))"

text \<open>
  A length, then a string of that length into a buffer of \<open>len + 1\<close> bytes. The sum is a
  \<open>uint32_t\<close>: it wraps around to 0 for the largest length.
\<close>

definition receive_string ::
    "int \<Rightarrow> 'z mem_scheme \<Rightarrow> sockets \<Rightarrow> fault + byte list option \<times> 'z mem_scheme \<times> sockets" where
  "receive_string fd s net =
     ebind (recv_into 4 fd 4 net) (\<lambda>(len_bytes, net).
     case len_bytes of
       None \<Rightarrow> Inr (None, s, net)
     | Some lb \<Rightarrow>
         let len = (bytes_word lb :: u32);
             room = unat (len + 1);
             (ok, s) = sys_malloc room s in
         if \<not> ok then Inr (None, s, net)
         else
           ebind (recv_into room fd (unat len) net) (\<lambda>(str, net).
           case str of
             None \<Rightarrow> Inr (None, s, net)
           | Some bs \<Rightarrow>
               if unat len < room then Inr (Some (bs @ [NUL]), s, net)
               else Inl (OutOfBounds (unat len))))"

definition receive_body ::
    "int \<Rightarrow> u32 \<Rightarrow> 'z mem_scheme \<Rightarrow> sockets \<Rightarrow> fault + byte list option option \<times> 'z mem_scheme \<times> sockets" where
  "receive_body fd bsize s net =
     (if bsize > 0
      then
        let (ok, s) = sys_malloc (unat bsize) s in
        if \<not> ok then Inr (None, s, net)
        else
          ebind (recv_into (unat bsize) fd (unat bsize) net) (\<lambda>(bs, net).
          Inr (case bs of None \<Rightarrow> None | Some b \<Rightarrow> Some (Some b), s, net))
      else Inr (Some None, s, net))"

text \<open>A property read straight into the message; the message is freed when that fails.\<close>

definition receive_property ::
    "int \<Rightarrow> nat \<Rightarrow> (byte list \<Rightarrow> Message \<Rightarrow> Message) \<Rightarrow> addr \<Rightarrow> 'z mem_scheme \<Rightarrow> sockets
      \<Rightarrow> fault + ptr \<times> 'z mem_scheme \<times> sockets" where
  "receive_property fd len f a s net =
     ebind (recv_into len fd len net) (\<lambda>(bs, net).
     case bs of
       None \<Rightarrow> ebind (message_free (Some a) s) (\<lambda>s. Inr (None, s, net))
     | Some b \<Rightarrow> ebind (write_message (Some a) (f b) s) (\<lambda>s. Inr (Some a, s, net)))"

definition receive_properties ::
    "int \<Rightarrow> addr \<Rightarrow> 'z mem_scheme \<Rightarrow> sockets \<Rightarrow> fault + ptr \<times> 'z mem_scheme \<times> sockets" where
  "receive_properties fd a s net =
     ebind (receive_property fd 4 (\<lambda>b m. m\<lparr>priority := bytes_word b\<rparr>) a s net) (\<lambda>(p, s, net).
     if p = None then Inr (None, s, net)
     else
       ebind (receive_property fd 8 (\<lambda>b m. m\<lparr>expiration := bytes_word b\<rparr>) a s net) (\<lambda>(p, s, net).
       if p = None then Inr (None, s, net)
       else receive_property fd 1 (\<lambda>b m. m\<lparr>persistent := bytes_word b\<rparr>) a s net))"

definition receive_message_data ::
    "int \<Rightarrow> 'z mem_scheme \<Rightarrow> sockets \<Rightarrow> fault + ptr \<times> 'z mem_scheme \<times> sockets" where
  "receive_message_data socket_fd s net =
     (if socket_fd < 0 then Inr (None, s, net)
      else
        ebind (recv_into 4 socket_fd 4 net) (\<lambda>(magic, net).
        if magic = None \<or> bytes_word (the magic) \<noteq> MESSAGE_MAGIC then Inr (None, s, net)
        else
          ebind (receive_string socket_fd s net) (\<lambda>(ex, s, net).
          if ex = None then Inr (None, s, net)
          else
            ebind (receive_string socket_fd s net) (\<lambda>(rk, s, net).
            if rk = None then Inr (None, s, net)
            else
              ebind (recv_into 4 socket_fd 4 net) (\<lambda>(size_bytes, net).
              case size_bytes of
                None \<Rightarrow> Inr (None, s, net)
              | Some sb \<Rightarrow>
                  ebind (receive_body socket_fd (bytes_word sb) s net) (\<lambda>(bdy, s, net).
                  case bdy of
                    None \<Rightarrow> Inr (None, s, net)
                  | Some b \<Rightarrow>
                      ebind (message_create ex rk b (unat (bytes_word sb :: u32)) s) (\<lambda>(message, s).
                      case message of
                        None \<Rightarrow> Inr (None, s, net)
                      | Some a \<Rightarrow> receive_properties socket_fd a s net)))))))"

end
