(* ===== verification/Wire_Roundtrip.thy ===== *)
theory Wire_Roundtrip
  imports Wire "HOL-Library.Monad_Syntax"
begin

text \<open>
  The format that \<open>send_message_data\<close> and \<open>receive_message_data\<close> of
  \<open>src/core/connection.c\<close> agree on: the bytes of a message, a parser for them, the codec
  contract between the two, and the proofs that the sending code writes those bytes and the
  receiving code parses them when the kernel handles every request in full.
\<close>

subsection \<open>The format\<close>

definition string_image :: "string \<Rightarrow> byte list" where
  "string_image str = u32_bytes (word_of_nat (length str)) @ str"

definition properties_image :: "Message \<Rightarrow> byte list" where
  "properties_image m = u32_bytes (priority m) @ u64_bytes (expiration m) @ u8_bytes (persistent m)"

definition body_bytes :: "Message \<Rightarrow> byte list" where
  "body_bytes m = (case body m of None \<Rightarrow> [] | Some b \<Rightarrow> b)"

definition wire_image :: "Message \<Rightarrow> byte list" where
  "wire_image m =
     u32_bytes MESSAGE_MAGIC @ string_image (the (exchange m)) @ string_image (the (routing_key m)) @
     u32_bytes (word_of_nat (body_size m)) @ body_bytes m @ properties_image m"

lemma body_shape:
  assumes "msg_ok m"
  shows "length (body_bytes m) = body_size m"
    and "body m = (if body_size m = 0 then None else Some (body_bytes m))"
  using assms
  by (cases "body m"; simp add: msg_ok_def body_bytes_def flip: length_greater_0_conv)+

text \<open>The messages whose lengths the \<open>uint32_t\<close> fields can hold.\<close>

definition wire_ok :: "Message \<Rightarrow> bool" where
  "wire_ok m \<longleftrightarrow> msg_complete m \<and> length (the (exchange m)) < 2 ^ 32 - 1 \<and>
     length (the (routing_key m)) < 2 ^ 32 - 1 \<and> body_size m < 2 ^ 32"

definition split_at :: "nat \<Rightarrow> byte list \<Rightarrow> (byte list \<times> byte list) option" where
  "split_at n bs = (if n \<le> length bs then Some (take n bs, drop n bs) else None)"

lemma split_at_append [simp]: "length bs = n \<Longrightarrow> split_at n (bs @ rest) = Some (bs, rest)"
  by (simp add: split_at_def)

lemma split_at_Some: "split_at n bs = Some (x, rest) \<longleftrightarrow> bs = x @ rest \<and> length x = n"
  by (auto simp: split_at_def)

definition parse_string :: "byte list \<Rightarrow> (byte list \<times> byte list) option" where
  "parse_string bs = do {
     (lb, bs) \<leftarrow> split_at 4 bs;
     let len = (bytes_word lb :: u32);
     if len = - 1 then None else split_at (unat len) bs
   }"

definition parse_message :: "byte list \<Rightarrow> (Message \<times> byte list) option" where
  "parse_message bs = do {
     (magic, bs) \<leftarrow> split_at 4 bs;
     if bytes_word magic \<noteq> MESSAGE_MAGIC then None
     else do {
       (ex, bs) \<leftarrow> parse_string bs;
       (rk, bs) \<leftarrow> parse_string bs;
       (sb, bs) \<leftarrow> split_at 4 bs;
       let n = unat (bytes_word sb :: u32);
       (b, bs) \<leftarrow> split_at n bs;
       (p, bs) \<leftarrow> split_at 4 bs;
       (e, bs) \<leftarrow> split_at 8 bs;
       (f, bs) \<leftarrow> split_at 1 bs;
       Some (\<lparr>exchange = Some (cstr ex), routing_key = Some (cstr rk),
              body = (if n = 0 then None else Some b), body_size = n,
              priority = bytes_word p, expiration = bytes_word e, persistent = bytes_word f\<rparr>, bs)
     }
   }"

lemma parse_messageD:
  assumes "parse_message bs = Some (m, rest)"
  shows "\<exists>mg b1 ex b2 rk b3 sb b4 b b5 p b6 e b7 f.
    split_at 4 bs = Some (mg, b1) \<and> bytes_word mg = MESSAGE_MAGIC \<and>
    parse_string b1 = Some (ex, b2) \<and> parse_string b2 = Some (rk, b3) \<and>
    split_at 4 b3 = Some (sb, b4) \<and> split_at (unat (bytes_word sb :: u32)) b4 = Some (b, b5) \<and>
    split_at 4 b5 = Some (p, b6) \<and> split_at 8 b6 = Some (e, b7) \<and> split_at 1 b7 = Some (f, rest) \<and>
    m = \<lparr>exchange = Some (cstr ex), routing_key = Some (cstr rk),
         body = (if unat (bytes_word sb :: u32) = 0 then None else Some b),
         body_size = unat (bytes_word sb :: u32),
         priority = bytes_word p, expiration = bytes_word e, persistent = bytes_word f\<rparr>"
  using assms by (auto simp: parse_message_def Let_def split: bind_splits if_splits)

subsection \<open>The codec contract\<close>

text \<open>What a stream of encoded values gives back, one after the other.\<close>

fun parse_many :: "(byte list \<Rightarrow> ('a \<times> byte list) option) \<Rightarrow> nat \<Rightarrow> byte list \<Rightarrow> ('a list \<times> byte list) option" where
  "parse_many parse 0 bs = Some ([], bs)"
| "parse_many parse (Suc n) bs = do {
     (x, bs) \<leftarrow> parse bs;
     (xs, bs) \<leftarrow> parse_many parse n bs;
     Some (x # xs, bs)
   }"

locale codec =
  fixes image :: "'a \<Rightarrow> byte list"
    and parse :: "byte list \<Rightarrow> ('a \<times> byte list) option"
    and valid :: "'a \<Rightarrow> bool"
  assumes parse_image: "valid x \<Longrightarrow> parse (image x @ rest) = Some (x, rest)"
begin

lemma image_inject:
  assumes "valid x" and "valid y" and "image x @ rest = image y @ rest'"
  shows "x = y \<and> rest = rest'"
proof -
  have "Some (x, rest) = parse (image y @ rest')"
    unfolding assms(3) [symmetric] by (rule parse_image [OF assms(1), symmetric])
  also have "\<dots> = Some (y, rest')" by (rule parse_image [OF assms(2)])
  finally show ?thesis by simp
qed

text \<open>A sequence of values is recovered in order, whatever follows it.\<close>

lemma parse_stream:
  "list_all valid xs \<Longrightarrow>
   parse_many parse (length xs) (concat (map image xs) @ rest) = Some (xs, rest)"
  by (induction xs) (simp_all add: parse_image)

end

interpretation u32_codec: codec u32_bytes "\<lambda>bs. map_option (map_prod bytes_word id) (split_at 4 bs)" "\<lambda>_. True"
  by unfold_locales simp

interpretation u64_codec: codec u64_bytes "\<lambda>bs. map_option (map_prod bytes_word id) (split_at 8 bs)" "\<lambda>_. True"
  by unfold_locales simp

lemma unat_length: "n < 2 ^ 32 \<Longrightarrow> unat (word_of_nat n :: u32) = n"
  by (simp add: unat_of_nat)

lemma length_not_max:
  assumes "n < 2 ^ 32 - 1"
  shows "(word_of_nat n :: u32) \<noteq> - 1"
proof
  assume "(word_of_nat n :: u32) = - 1"
  then have "unat (word_of_nat n :: u32) = unat (- 1 :: u32)" by simp
  also have "\<dots> = 2 ^ 32 - 1" by (simp add: unsigned_minus_1_eq_mask mask_eq_exp_minus_1)
  finally show False using assms by (simp add: unat_length)
qed

interpretation string_codec: codec string_image parse_string "\<lambda>str. length str < 2 ^ 32 - 1"
proof
  fix str rest :: "byte list"
  assume len: "length str < 2 ^ 32 - 1"
  then have "unat (word_of_nat (length str) :: u32) = length str" by (intro unat_length) simp
  then show "parse_string (string_image str @ rest) = Some (str, rest)"
    using length_not_max [OF len] by (simp add: parse_string_def string_image_def Let_def)
qed

interpretation message_codec: codec wire_image parse_message wire_ok
proof
  fix m :: Message and rest :: "byte list"
  assume ok: "wire_ok m"
  then obtain ex rk where e: "exchange m = Some ex" "routing_key m = Some rk"
    by (auto simp: wire_ok_def msg_complete_def)
  have len: "length ex < 2 ^ 32 - 1" "length rk < 2 ^ 32 - 1" "body_size m < 2 ^ 32"
    and nn: "no_nul ex" "no_nul rk"
    using ok e by (simp_all add: wire_ok_def msg_complete_def msg_ok_def)
  have b: "length (body_bytes m) = body_size m"
    "body m = (if body_size m = 0 then None else Some (body_bytes m))"
    using ok body_shape [of m] by (simp_all add: wire_ok_def msg_complete_def)
  show "parse_message (wire_image m @ rest) = Some (m, rest)"
    using e len(3) nn b string_codec.parse_image [OF len(1)] string_codec.parse_image [OF len(2)]
    by (simp add: parse_message_def wire_image_def properties_image_def unat_length Let_def)
qed

subsection \<open>The sending code\<close>

text \<open>The kernel accepts every request in full.\<close>

definition full_sends :: "sockets \<Rightarrow> bool" where
  "full_sends net \<longleftrightarrow> (\<forall>n. \<exists>k\<ge>2 ^ 32. send_limit net n = Some k)"

definition full_recvs :: "sockets \<Rightarrow> bool" where
  "full_recvs net \<longleftrightarrow> (\<forall>n. \<exists>k\<ge>2 ^ 32. recv_limit net n = Some k)"

definition sent :: "int \<Rightarrow> byte list \<Rightarrow> nat \<Rightarrow> sockets \<Rightarrow> sockets" where
  "sent fd bs n net = net\<lparr>send_calls := send_calls net + n, out := (out net)(fd := out net fd @ bs)\<rparr>"

lemma sent_simps [simp]:
  "full_sends (sent fd bs n net) = full_sends net" "inp (sent fd bs n net) = inp net"
  "out (sent fd bs n net) = (out net)(fd := out net fd @ bs)"
  "sent fd bs' n' (sent fd bs n net) = sent fd (bs @ bs') (n + n') net"
  "sent fd [] 0 net = net"
  by (simp_all add: sent_def full_sends_def)

lemma c_send_full:
  assumes "full_sends net" and "length buf \<le> 2 ^ 32"
  shows "c_send fd buf net = (int (length buf), sent fd buf 1 net)"
proof -
  obtain k where "send_limit net (send_calls net) = Some k" "2 ^ 32 \<le> k"
    using assms(1) by (auto simp: full_sends_def)
  with assms(2) show ?thesis by (simp add: c_send_def sent_def Let_def)
qed

lemma send_fields_full:
  "full_sends net \<Longrightarrow> \<forall>buf\<in>set bufs. length buf \<le> 2 ^ 32 \<Longrightarrow>
   send_fields fd bufs net = (True, sent fd (concat bufs) (length bufs) net)"
  by (induction bufs arbitrary: net) (simp_all add: c_send_full)

text \<open>
  The message as its 32-bit lengths let it through: a body of \<open>2 ^ 32\<close> bytes or more is
  cut to its size modulo \<open>2 ^ 32\<close>.
\<close>

definition cut_body :: "Message \<Rightarrow> Message" where
  "cut_body m =
     (let n = body_size m mod 2 ^ 32
      in m\<lparr>body := (if n = 0 then None else map_option (take n) (body m)), body_size := n\<rparr>)"

lemma cut_body_id:
  assumes "wire_ok m"
  shows "cut_body m = m"
proof -
  have n: "body_size m mod 2 ^ 32 = body_size m" using assms by (simp add: wire_ok_def)
  have b: "(if body_size m = 0 then None else map_option (take (body_size m)) (body m)) = body m"
    using assms body_shape [of m] by (cases "body m") (auto simp: wire_ok_def msg_complete_def)
  show ?thesis unfolding cut_body_def n Let_def b by simp
qed

lemma cut_body_wire_ok:
  assumes "msg_complete m" and "length (the (exchange m)) < 2 ^ 32 - 1"
    and "length (the (routing_key m)) < 2 ^ 32 - 1"
  shows "wire_ok (cut_body m)"
proof -
  define n where "n = body_size m mod 2 ^ 32"
  have n: "n < 2 ^ 32" "n \<le> body_size m" by (simp_all add: n_def)
  have c: "cut_body m = m\<lparr>body := (if n = 0 then None else map_option (take n) (body m)), body_size := n\<rparr>"
    by (simp add: cut_body_def n_def Let_def)
  show ?thesis
  proof (cases "n = 0")
    case True
    then show ?thesis
      using assms unfolding c by (simp add: wire_ok_def msg_complete_def msg_ok_def)
  next
    case False
    then have "body m = Some (body_bytes m)" and "length (take n (body_bytes m)) = n"
      and "take n (body_bytes m) \<noteq> []"
      using n body_shape [of m] assms(1) by (auto simp: msg_complete_def)
    with False n assms show ?thesis
      unfolding c by (simp add: wire_ok_def msg_complete_def msg_ok_def)
  qed
qed

lemma send_message_buffers:
  assumes "0 \<le> fd" and "msgs s a = Some m" and "msg_complete m"
    and "length (the (exchange m)) < 2 ^ 32 - 1" and "length (the (routing_key m)) < 2 ^ 32 - 1"
  shows "\<exists>bufs. (\<forall>net. send_message_data fd (Some a) s net = Inr (send_fields fd bufs net)) \<and>
    concat bufs = wire_image (cut_body m) \<and> (\<forall>buf\<in>set bufs. length buf \<le> 2 ^ 32) \<and>
    bufs \<noteq> [] \<and> last bufs \<noteq> []"
proof -
  obtain ex rk where e: "exchange m = Some ex" "routing_key m = Some rk"
    using assms(3) by (auto simp: msg_complete_def)
  have len: "unat (word_of_nat (length ex) :: u32) = length ex"
    "unat (word_of_nat (length rk) :: u32) = length rk"
    using assms(4,5) e by (simp_all add: unat_length)
  have b: "length (body_bytes m) = body_size m" "body m = (if body_size m = 0 then None else Some (body_bytes m))"
    using assms(3) body_shape [of m] by (simp_all add: msg_complete_def)
  let ?w = "word_of_nat (body_size m) :: u32"
  have u: "unat ?w = body_size m mod 2 ^ 32" by (simp add: unat_of_nat)
  have w0: "0 < ?w \<longleftrightarrow> body_size m mod 2 ^ 32 \<noteq> 0"
    unfolding u [symmetric] by (simp add: word_gt_0 unat_eq_0)
  define n where "n = body_size m mod 2 ^ 32"
  have c: "cut_body m = m\<lparr>body := (if n = 0 then None else map_option (take n) (body m)), body_size := n\<rparr>"
    by (simp add: cut_body_def n_def Let_def)
  note un = u [folded n_def] and wn = w0 [folded n_def]
  have cut: "body_size (cut_body m) = n" "exchange (cut_body m) = exchange m"
    "routing_key (cut_body m) = routing_key m" "priority (cut_body m) = priority m"
    "expiration (cut_body m) = expiration m" "persistent (cut_body m) = persistent m"
    unfolding c by simp_all
  have cb: "body_bytes (cut_body m) = (if 0 < ?w then take n (body_bytes m) else [])"
    unfolding c wn by (cases "body m") (simp_all add: body_bytes_def)
  have same: "(word_of_nat n :: u32) = ?w"
    unfolding un [symmetric] by simp
  let ?bufs = "[u32_bytes MESSAGE_MAGIC, u32_bytes (word_of_nat (length ex)), ex,
     u32_bytes (word_of_nat (length rk)), rk, u32_bytes ?w] @
     (if ?w > 0 then (case body m of None \<Rightarrow> [] | Some b \<Rightarrow> [take (unat ?w) b]) else []) @
     [u32_bytes (priority m), u64_bytes (expiration m), u8_bytes (persistent m)]"
  have n32: "n \<le> 2 ^ 32" unfolding n_def by (rule order_less_imp_le) simp
  have body_buf: "(if 0 < ?w then (case body m of None \<Rightarrow> [] | Some b \<Rightarrow> [take (unat ?w) b]) else [])
      = (if 0 < ?w then [take n (body_bytes m)] else [])"
    using b(2) wn n32 unfolding un by (auto simp: n_def)
  have small: "\<forall>buf\<in>set ?bufs. length buf \<le> 2 ^ 32"
    unfolding body_buf using assms(4,5) e n32 by (auto simp: min_le_iff_disj)
  have img: "concat ?bufs = wire_image (cut_body m)"
    unfolding body_buf wire_image_def properties_image_def cut cb same e string_image_def by simp
  have "send_message_data fd (Some a) s net = Inr (send_fields fd ?bufs net)" for net
    using assms(1,2) e len by (simp add: send_message_data_def Let_def del: send_fields.simps)
  moreover have "last ?bufs \<noteq> []"
    by (simp add: u8_bytes_def)
  ultimately show ?thesis using img small by (intro exI [of _ ?bufs]) blast
qed

lemma send_message_full:
  assumes "full_sends net" and "0 \<le> fd" and "msgs s a = Some m" and "msg_complete m"
    and "length (the (exchange m)) < 2 ^ 32 - 1" and "length (the (routing_key m)) < 2 ^ 32 - 1"
  shows "\<exists>n. send_message_data fd (Some a) s net = Inr (True, sent fd (wire_image (cut_body m)) n net)"
proof -
  from send_message_buffers [OF assms(2-6)] obtain bufs where
    "send_message_data fd (Some a) s net = Inr (send_fields fd bufs net)"
    "concat bufs = wire_image (cut_body m)" "\<forall>buf\<in>set bufs. length buf \<le> 2 ^ 32" by blast
  with send_fields_full [OF assms(1)] show ?thesis by metis
qed

text \<open>
  Whatever the kernel does, what has been accepted is a prefix of the buffers, the whole of
  them exactly when the result is 1.
\<close>

lemma send_fields_prefix:
  assumes "bufs \<noteq> []" and "last bufs \<noteq> []"
  shows "\<exists>ok net' k. send_fields fd bufs net = (ok, net') \<and> k \<le> length (concat bufs) \<and>
    out net' = (out net)(fd := out net fd @ take k (concat bufs)) \<and> inp net' = inp net \<and>
    (ok \<longleftrightarrow> k = length (concat bufs))"
  using assms
proof (induction bufs arbitrary: net)
  case (Cons buf bufs)
  have pos: "0 < length (concat (buf # bufs))"
    using Cons.prems by (metis concat_append append_butlast_last_id concat.simps length_greater_0_conv append_is_Nil_conv)
  have rest: "bufs \<noteq> [] \<Longrightarrow> 0 < length (concat bufs)"
    using Cons.prems by (metis concat_append append_butlast_last_id concat.simps length_greater_0_conv append_is_Nil_conv last_ConsR)
  show ?case
  proof (cases "send_limit net (send_calls net)")
    case None
    then show ?thesis
      using pos by (intro exI [of _ False] exI [of _ "net\<lparr>send_calls := Suc (send_calls net)\<rparr>"] exI [of _ 0])
        (simp add: c_send_def Let_def)
  next
    case (Some j)
    define net1 where "net1 = net\<lparr>send_calls := Suc (send_calls net),
        out := (out net)(fd := out net fd @ take (min j (length buf)) buf)\<rparr>"
    have snd: "c_send fd buf net = (int (min j (length buf)), net1)"
      using Some by (simp add: c_send_def Let_def net1_def)
    show ?thesis
    proof (cases "length buf \<le> j")
      case False
      then show ?thesis
        using snd by (intro exI [of _ False] exI [of _ net1] exI [of _ j]) (simp add: net1_def)
    next
      case True
      then have full: "send_fields fd (buf # bufs) net = send_fields fd bufs net1" using snd by simp
      have o: "out net1 = (out net)(fd := out net fd @ buf)" "inp net1 = inp net"
        using True by (simp_all add: net1_def)
      show ?thesis
      proof (cases "bufs = []")
        case True
        then show ?thesis using full o by (intro exI [of _ True] exI [of _ net1] exI [of _ "length buf"]) simp
      next
        case False
        have "last bufs \<noteq> []" using Cons.prems False by simp
        from Cons.IH [OF False this, of net1] obtain ok net' k where
          "send_fields fd bufs net1 = (ok, net')" "k \<le> length (concat bufs)"
          "out net' = (out net1)(fd := out net1 fd @ take k (concat bufs))" "inp net' = inp net1"
          "ok \<longleftrightarrow> k = length (concat bufs)" by blast
        then show ?thesis
          using full o by (intro exI [of _ ok] exI [of _ net'] exI [of _ "length buf + k"]) simp
      qed
    qed
  qed
qed simp

subsection \<open>The receiving code\<close>

definition consumed :: "int \<Rightarrow> byte list \<Rightarrow> nat \<Rightarrow> sockets \<Rightarrow> sockets" where
  "consumed fd rest n net = net\<lparr>recv_calls := recv_calls net + n, inp := (inp net)(fd := rest)\<rparr>"

lemma consumed_simps [simp]:
  "full_recvs (consumed fd rest n net) = full_recvs net" "out (consumed fd rest n net) = out net"
  "inp (consumed fd rest n net) = (inp net)(fd := rest)"
  "consumed fd rest' n' (consumed fd rest n net) = consumed fd rest' (n + n') net"
  by (simp_all add: consumed_def full_recvs_def)

lemma recv_into_full:
  assumes "full_recvs net" and "split_at n (inp net fd) = Some (bs, rest)" and "n \<le> room" and "n \<le> 2 ^ 32"
  shows "recv_into room fd n net = Inr (Some bs, consumed fd rest 1 net)"
proof -
  obtain k where "recv_limit net (recv_calls net) = Some k" "2 ^ 32 \<le> k"
    using assms(1) by (auto simp: full_recvs_def)
  with assms(2-4) show ?thesis
    by (auto simp: recv_into_def c_recv_def consumed_def split_at_Some Let_def min_absorb2)
qed

lemma unat_plus_one: "(w :: u32) \<noteq> - 1 \<Longrightarrow> unat (w + 1) = Suc (unat w)"
  using unatSuc [of w] by (simp add: add.commute eq_neg_iff_add_eq_0)

lemma receive_string_full:
  assumes "full_recvs net" and "sys_fine s" and "parse_string (inp net fd) = Some (str, rest)"
  shows "receive_string fd s net =
    Inr (Some (str @ [NUL]), s\<lparr>sys_calls := Suc (sys_calls s)\<rparr>, consumed fd rest (Suc (Suc 0)) net)"
proof -
  obtain lb bs where l: "split_at 4 (inp net fd) = Some (lb, bs)"
    and m: "(bytes_word lb :: u32) \<noteq> - 1" "split_at (unat (bytes_word lb :: u32)) bs = Some (str, rest)"
    using assms(3) by (auto simp: parse_string_def Let_def split: bind_splits if_splits)
  let ?len = "bytes_word lb :: u32"
  have r: "unat (?len + 1) = Suc (unat ?len)" by (rule unat_plus_one [OF m(1)])
  have small: "Suc (unat ?len) < 2 ^ 63" "unat ?len \<le> 2 ^ 32"
    using unat_bounds(1) [of ?len] by simp_all
  have "recv_into (Suc (unat ?len)) fd (unat ?len) (consumed fd bs 1 net) =
      Inr (Some str, consumed fd rest (Suc (Suc 0)) net)"
    using recv_into_full [of "consumed fd bs 1 net" "unat ?len" fd str rest "Suc (unat ?len)"]
      assms(1) m(2) small by simp
  then show ?thesis
    using recv_into_full [OF assms(1) l, of 4] small assms(2) r
    by (simp add: receive_string_def sys_malloc_def sys_fine_def Let_def)
qed

text \<open>
  The receiving code parses what arrives: it allocates one message, stores there what the
  parser reads, and leaves the rest in the socket.
\<close>

lemma cstr_NUL [simp]: "cstr (str @ [NUL]) = cstr str"
  by (simp add: cstr_def takeWhile_tail)

lemma sys_fine_calls_brk [simp]: "sys_fine (s\<lparr>msgs := h, brk := b\<rparr>) = sys_fine s"
  "sys_fine (s\<lparr>msgs := h\<rparr>) = sys_fine s"
  by (simp_all add: sys_fine_def)

lemma receive_property_full:
  assumes "full_recvs net" and "split_at n (inp net fd) = Some (bs, rest)" and "n \<le> 2 ^ 32"
    and "msgs s a = Some m"
  shows "receive_property fd n f a s net =
    Inr (Some a, s\<lparr>msgs := (msgs s)(a \<mapsto> f bs m)\<rparr>, consumed fd rest 1 net)"
  using assms(4) recv_into_full [OF assms(1,2) order_refl assms(3)]
  by (simp add: receive_property_def write_message_def)

lemma receive_properties_full:
  assumes "full_recvs net" and "msgs s a = Some m"
    and "split_at 4 (inp net fd) = Some (p, r1)" and "split_at 8 r1 = Some (e, r2)"
    and "split_at 1 r2 = Some (f, r3)"
  shows "\<exists>n. receive_properties fd a s net =
    Inr (Some a, s\<lparr>msgs := (msgs s)(a \<mapsto>
        m\<lparr>priority := bytes_word p, expiration := bytes_word e, persistent := bytes_word f\<rparr>)\<rparr>,
      consumed fd r3 n net)"
  using assms
  by (auto simp: receive_properties_def receive_property_full)

lemma receive_body_full:
  fixes w :: u32
  assumes "full_recvs net" and "sys_fine s" and "split_at (unat w) (inp net fd) = Some (b, rest)"
  shows "\<exists>k n. receive_body fd w s net =
    Inr (Some (if unat w = 0 then None else Some b), s\<lparr>sys_calls := k\<rparr>, consumed fd rest n net)"
proof (cases "w = 0")
  case True
  then have "rest = inp net fd" using assms(3) by (simp add: split_at_def)
  then have "consumed fd rest 0 net = net" by (simp add: consumed_def)
  then have "receive_body fd w s net =
      Inr (Some (if unat w = 0 then None else Some b), s\<lparr>sys_calls := sys_calls s\<rparr>, consumed fd rest 0 net)"
    using True by (simp add: receive_body_def)
  then show ?thesis by blast
next
  case False
  then have w: "0 < w" "unat w \<noteq> 0" by (simp_all add: word_gt_0 unat_eq_0)
  have small: "unat w < 2 ^ 63" "unat w \<le> 2 ^ 32" using unat_bounds(1) [of w] by simp_all
  have "receive_body fd w s net =
      Inr (Some (if unat w = 0 then None else Some b), s\<lparr>sys_calls := Suc (sys_calls s)\<rparr>, consumed fd rest 1 net)"
    using recv_into_full [OF assms(1,3) order_refl small(2)] assms(2) w small(1)
    unfolding receive_body_def sys_malloc_def sys_fine_def by simp
  then show ?thesis by blast
qed

lemma receive_message_full:
  assumes "full_recvs net" and "sys_fine s" and "0 \<le> fd" and "parse_message (inp net fd) = Some (m, rest)"
  shows "\<exists>k n. receive_message_data fd s net =
    Inr (Some (brk s), s\<lparr>sys_calls := k, msgs := (msgs s)(brk s \<mapsto> m), brk := Suc (brk s)\<rparr>,
      consumed fd rest n net)"
proof -
  obtain mg b1 ex b2 rk b3 sb b4 b b5 p b6 e b7 f where
    1: "split_at 4 (inp net fd) = Some (mg, b1)" "bytes_word mg = MESSAGE_MAGIC"
      "parse_string b1 = Some (ex, b2)" "parse_string b2 = Some (rk, b3)"
      "split_at 4 b3 = Some (sb, b4)" "split_at (unat (bytes_word sb :: u32)) b4 = Some (b, b5)"
      "split_at 4 b5 = Some (p, b6)" "split_at 8 b6 = Some (e, b7)" "split_at 1 b7 = Some (f, rest)"
    and m: "m = \<lparr>exchange = Some (cstr ex), routing_key = Some (cstr rk),
              body = (if unat (bytes_word sb :: u32) = 0 then None else Some b),
              body_size = unat (bytes_word sb :: u32),
              priority = bytes_word p, expiration = bytes_word e, persistent = bytes_word f\<rparr>"
    using parse_messageD [OF assms(4)] by blast
  let ?w = "bytes_word sb :: u32"
  define n2 n3 where "n2 = consumed fd b1 1 net" and "n3 = consumed fd b2 (Suc (Suc (Suc 0))) net"
  define s1 s2 where "s1 = s\<lparr>sys_calls := Suc (sys_calls s)\<rparr>" and "s2 = s\<lparr>sys_calls := Suc (Suc (sys_calls s))\<rparr>"
  define n4 n5 where "n4 = consumed fd b3 5 net" and "n5 = consumed fd b4 6 net"
  have r1: "recv_into 4 fd 4 net = Inr (Some mg, n2)"
    unfolding n2_def using recv_into_full [OF assms(1) 1(1)] by simp
  have r2: "receive_string fd s n2 = Inr (Some (ex @ [NUL]), s1, n3)"
    unfolding n2_def n3_def s1_def using assms(1,2) 1(3) by (subst receive_string_full) simp_all
  have r3: "receive_string fd s1 n3 = Inr (Some (rk @ [NUL]), s2, n4)"
    unfolding s1_def s2_def n3_def n4_def using assms(1,2) 1(4)
    by (subst receive_string_full) (simp_all add: numeral_eq_Suc)
  have r4: "recv_into 4 fd 4 n4 = Inr (Some sb, n5)"
    unfolding n4_def n5_def using assms(1) 1(5) by (subst recv_into_full) simp_all
  obtain k5 n6 where r5: "receive_body fd ?w s2 n5 =
      Inr (Some (if unat ?w = 0 then None else Some b), s\<lparr>sys_calls := k5\<rparr>, consumed fd b5 n6 net)"
    using receive_body_full [of n5 s2 ?w fd b b5] assms(1,2) 1(6) unfolding n5_def s2_def by auto
  let ?m0 = "\<lparr>exchange = Some (cstr ex), routing_key = Some (cstr rk),
              body = (if unat ?w = 0 then None else Some b), body_size = unat ?w,
              priority = 0, expiration = 0, persistent = 0\<rparr>"
  define k6 where "k6 = k5 + (if unat ?w = 0 then 3 else 4)"
  define s6 where "s6 = s\<lparr>sys_calls := k6, msgs := (msgs s)(brk s \<mapsto> ?m0), brk := Suc (brk s)\<rparr>"
  have lb: "length b = unat ?w" using 1(6) by (simp add: split_at_Some)
  have small: "unat ?w < 2 ^ 63" using unat_bounds(1) [of ?w] by simp
  have r6: "message_create (Some (ex @ [NUL])) (Some (rk @ [NUL]))
      (if unat ?w = 0 then None else Some b) (unat ?w) (s\<lparr>sys_calls := k5\<rparr>) = Inr (Some (brk s), s6)"
    unfolding s6_def k6_def using assms(2) lb small by (subst message_create_fine) auto
  obtain n7 where r7: "receive_properties fd (brk s) s6 (consumed fd b5 n6 net) =
      Inr (Some (brk s), s6\<lparr>msgs := (msgs s6)(brk s \<mapsto> m)\<rparr>, consumed fd rest n7 net)"
    using receive_properties_full [of "consumed fd b5 n6 net" s6 "brk s" ?m0 fd p b6 e b7 f rest]
      assms(1) 1(7-9) by (auto simp: s6_def m)
  have "receive_message_data fd s net =
      Inr (Some (brk s), s6\<lparr>msgs := (msgs s6)(brk s \<mapsto> m)\<rparr>, consumed fd rest n7 net)"
    using assms(3) r1 1(2) r2 r3 r4 r5 r6 r7 by (simp add: receive_message_data_def)
  moreover have "s6\<lparr>msgs := (msgs s6)(brk s \<mapsto> m)\<rparr> =
      s\<lparr>sys_calls := k6, msgs := (msgs s)(brk s \<mapsto> m), brk := Suc (brk s)\<rparr>"
    by (simp add: s6_def)
  ultimately show ?thesis by metis
qed

text \<open>What is parsed is complete.\<close>

lemma parse_message_complete:
  assumes "parse_message bs = Some (m, rest)"
  shows "msg_complete m"
proof -
  have "\<exists>ex rk n b p e f. m = \<lparr>exchange = Some (cstr ex), routing_key = Some (cstr rk),
      body = (if n = 0 then None else Some b), body_size = n, priority = p, expiration = e, persistent = f\<rparr> \<and>
      length b = n \<and> n < 2 ^ 63"
  proof -
    have small: "unat (w :: u32) < 2 ^ 63" for w using unat_bounds(1) [of w] by simp
    from parse_messageD [OF assms] obtain mg b1 ex b2 rk b3 sb b4 b b5 p b6 e b7 f where
      "split_at (unat (bytes_word sb :: u32)) b4 = Some (b, b5)"
      "m = \<lparr>exchange = Some (cstr ex), routing_key = Some (cstr rk),
              body = (if unat (bytes_word sb :: u32) = 0 then None else Some b),
              body_size = unat (bytes_word sb :: u32),
              priority = bytes_word p, expiration = bytes_word e, persistent = bytes_word f\<rparr>"
      by blast
    with small [of "bytes_word sb"] show ?thesis
      unfolding split_at_Some by blast
  qed
  then obtain ex rk n b p e f where m: "m = \<lparr>exchange = Some (cstr ex), routing_key = Some (cstr rk),
      body = (if n = 0 then None else Some b), body_size = n, priority = p, expiration = e, persistent = f\<rparr>"
    and n: "length b = n" "n < 2 ^ 63" by blast
  show ?thesis
    using n by (auto simp: m msg_complete_def msg_ok_def)
qed

end
