(* ===== verification/Queue.thy ===== *)
theory Queue
  imports Message
begin

text \<open>
  The message queue, \<open>src/core/queue.c\<close> and \<open>include/core/queue.h\<close>: its record, the
  helpers on the ring buffer and on the array of unacknowledged deliveries, and every
  operation of the interface. The lemmas are in the theories \<open>Queue_Ring\<close>,
  \<open>Queue_Unacked\<close>, \<open>Queue_Safety\<close> and \<open>Queue_Threads\<close>.

  Queues are heap objects too: \<open>queues\<close> maps an address to the queue stored there. All
  operations but the waiting ones run under the queue's mutex from beginning to end, so
  each is one state transformer; \<open>queue_enqueue\<close> and \<open>queue_dequeue\<close> are the part of the
  code up to the return or up to \<open>pthread_cond_wait\<close>, which is the result \<open>Blocks\<close>.
  C's \<open>int\<close> results 1 and 0 are \<open>True\<close> and \<open>False\<close>.
\<close>

datatype MessageStatus =
    MESSAGE_STATUS_READY
  | MESSAGE_STATUS_DELIVERED
  | MESSAGE_STATUS_ACKNOWLEDGED

record DeliveryInfo =
  di_message :: addr
  delivery_tag :: u64
  delivery_time :: int
  status :: MessageStatus

text \<open>
  A condition variable: how many threads wait on it, and how many have been woken by a
  signal and have yet to take the mutex again.
\<close>

record cond =
  waiters :: nat
  woken :: nat

record Queue =
  q_name :: "string option"
  messages :: "addr slots"
  capacity :: nat
  q_size :: nat
  head :: nat
  tail :: nat
  not_empty :: cond
  not_full :: cond
  durable :: u8
  unacked_messages :: "DeliveryInfo slots"
  unacked_capacity :: nat
  unacked_count :: nat
  next_delivery_tag :: u64

record qmem = mem +
  queues :: "addr \<rightharpoonup> Queue"
  clock :: int

definition put_queue :: "addr \<Rightarrow> Queue \<Rightarrow> 'z qmem_scheme \<Rightarrow> 'z qmem_scheme" where
  "put_queue a q s = s\<lparr>queues := (queues s)(a \<mapsto> q)\<rparr>"

subsection \<open>Condition variables\<close>

definition cond_init :: cond where
  "cond_init = \<lparr>waiters = 0, woken = 0\<rparr>"

text \<open>\<open>pthread_cond_signal\<close> wakes one waiting thread, if there is one.\<close>

definition cond_signal :: "cond \<Rightarrow> cond" where
  "cond_signal c = (if waiters c = 0 then c else \<lparr>waiters = waiters c - 1, woken = Suc (woken c)\<rparr>)"

definition cond_wait :: "cond \<Rightarrow> cond" where
  "cond_wait c = c\<lparr>waiters := Suc (waiters c)\<rparr>"

subsection \<open>The ring buffer\<close>

text \<open>
  The assignments to \<open>messages\<close>, \<open>head\<close>, \<open>tail\<close> and \<open>size\<close> that the operations share:
  adding at the tail, taking from the head, undoing a take, and putting back at the head.
\<close>

definition ring_put :: "addr \<Rightarrow> Queue \<Rightarrow> fault + Queue" where
  "ring_put m q =
     ebind (slot_put (messages q) (tail q) m) (\<lambda>arr.
     ebind (c_mod (sz_add (tail q) 1) (capacity q)) (\<lambda>t.
     Inr (q\<lparr>messages := arr, tail := t, q_size := sz_add (q_size q) 1\<rparr>)))"

definition ring_take :: "Queue \<Rightarrow> fault + addr \<times> Queue" where
  "ring_take q =
     ebind (slot_get (messages q) (head q)) (\<lambda>m.
     ebind (c_mod (sz_add (head q) 1) (capacity q)) (\<lambda>h.
     Inr (m, q\<lparr>head := h, q_size := sz_sub (q_size q) 1\<rparr>)))"

definition ring_untake :: "Queue \<Rightarrow> fault + Queue" where
  "ring_untake q =
     ebind (c_mod (sz_sub (sz_add (head q) (capacity q)) 1) (capacity q)) (\<lambda>h.
     Inr (q\<lparr>head := h, q_size := sz_add (q_size q) 1\<rparr>))"

definition ring_put_front :: "addr \<Rightarrow> Queue \<Rightarrow> fault + Queue" where
  "ring_put_front m q =
     ebind (c_mod (sz_sub (sz_add (head q) (capacity q)) 1) (capacity q)) (\<lambda>h.
     ebind (slot_put (messages q) h m) (\<lambda>arr.
     Inr (q\<lparr>head := h, messages := arr, q_size := sz_add (q_size q) 1\<rparr>)))"

subsection \<open>Creation and destruction\<close>

definition DEFAULT_UNACKED_CAPACITY :: nat where
  "DEFAULT_UNACKED_CAPACITY = 100"

definition sizeof_ptr :: nat where
  "sizeof_ptr = 8"

definition sizeof_DeliveryInfo :: nat where
  "sizeof_DeliveryInfo = 32"

text \<open>An array of \<open>n\<close> elements asked for as \<open>n * sizeof\<close> bytes: the slots it really has.\<close>

definition alloc_slots :: "nat \<Rightarrow> nat \<Rightarrow> 'a slots" where
  "alloc_slots n elem = replicate (sz_mul n elem div elem) None"

definition queue_create :: "byte list option \<Rightarrow> nat \<Rightarrow> 'z qmem_scheme \<Rightarrow> fault + ptr \<times> 'z qmem_scheme" where
  "queue_create name cap s =
     (case name of
        None \<Rightarrow> Inr (None, s)
      | Some nm \<Rightarrow>
          if cap = 0 then Inr (None, s)
          else
            let (ok, s) = sys_malloc 224 s in
            if \<not> ok then Inr (None, s)
            else
              let (nm_dup, s) = strdup nm s;
                  (ok, s) = sys_malloc (sz_mul cap sizeof_ptr) s in
              if \<not> ok then Inr (None, s)
              else
                let (ok, s) = sys_malloc (sz_mul DEFAULT_UNACKED_CAPACITY sizeof_DeliveryInfo) s in
                if \<not> ok then Inr (None, s)
                else
                  let (ok, s) = sys_try s in
                  if \<not> ok then Inr (None, s)
                  else
                    let (ok, s) = sys_try s in
                    if \<not> ok then Inr (None, s)
                    else
                      let (ok, s) = sys_try s in
                      if \<not> ok then Inr (None, s)
                      else
                        let q = \<lparr>q_name = nm_dup,
                              messages = alloc_slots cap sizeof_ptr,
                              capacity = cap, q_size = 0, head = 0, tail = 0,
                              not_empty = cond_init, not_full = cond_init, durable = 0,
                              unacked_messages =
                                alloc_slots DEFAULT_UNACKED_CAPACITY sizeof_DeliveryInfo,
                              unacked_capacity = DEFAULT_UNACKED_CAPACITY,
                              unacked_count = 0, next_delivery_tag = 1\<rparr> in
                        Inr (Some (brk s), put_queue (brk s) q (s\<lparr>brk := Suc (brk s)\<rparr>)))"

text \<open>The two loops of \<open>queue_free\<close>: the ready messages, then the unacknowledged ones.\<close>

definition free_ready :: "Queue \<Rightarrow> nat \<Rightarrow> 'z mem_scheme \<Rightarrow> fault + 'z mem_scheme" where
  "free_ready q i s =
     ebind (c_mod (sz_add (head q) i) (capacity q)) (\<lambda>index.
     ebind (slot_get (messages q) index) (\<lambda>m. message_free (Some m) s))"

definition free_unacked :: "Queue \<Rightarrow> nat \<Rightarrow> 'z mem_scheme \<Rightarrow> fault + 'z mem_scheme" where
  "free_unacked q i s =
     ebind (slot_get (unacked_messages q) i) (\<lambda>d.
     if status d \<noteq> MESSAGE_STATUS_ACKNOWLEDGED then message_free (Some (di_message d)) s
     else Inr s)"

definition queue_free :: "ptr \<Rightarrow> 'z qmem_scheme \<Rightarrow> fault + 'z qmem_scheme" where
  "queue_free queue s =
     (case queue of
        None \<Rightarrow> Inr s
      | Some qa \<Rightarrow>
          ebind (deref (queues s) queue) (\<lambda>q.
          ebind (for_loop (free_ready q) [0..<q_size q] s) (\<lambda>s.
          ebind (for_loop (free_unacked q) [0..<unacked_count q] s) (\<lambda>s.
          Inr (s\<lparr>queues := (queues s)(qa := None)\<rparr>)))))"

subsection \<open>Enqueueing\<close>

datatype 'a blocking = Returns 'a | Blocks

definition queue_enqueue :: "ptr \<Rightarrow> ptr \<Rightarrow> 'z qmem_scheme \<Rightarrow> fault + bool blocking \<times> 'z qmem_scheme" where
  "queue_enqueue queue message s =
     (case (queue, message) of
        (Some qa, Some m) \<Rightarrow>
          ebind (deref (queues s) queue) (\<lambda>q.
          if q_size q = capacity q
          then Inr (Blocks, put_queue qa (q\<lparr>not_full := cond_wait (not_full q)\<rparr>) s)
          else
            ebind (ring_put m q) (\<lambda>q.
            Inr (Returns True, put_queue qa (q\<lparr>not_empty := cond_signal (not_empty q)\<rparr>) s)))
      | _ \<Rightarrow> Inr (Returns False, s))"

definition queue_try_enqueue :: "ptr \<Rightarrow> ptr \<Rightarrow> 'z qmem_scheme \<Rightarrow> fault + bool \<times> 'z qmem_scheme" where
  "queue_try_enqueue queue message s =
     (case (queue, message) of
        (Some qa, Some m) \<Rightarrow>
          ebind (deref (queues s) queue) (\<lambda>q.
          if q_size q = capacity q then Inr (False, s)
          else
            ebind (ring_put m q) (\<lambda>q.
            Inr (True, put_queue qa (q\<lparr>not_empty := cond_signal (not_empty q)\<rparr>) s)))
      | _ \<Rightarrow> Inr (False, s))"

subsection \<open>Dequeueing\<close>

text \<open>
  \<open>realloc\<close> to \<open>bytes\<close> bytes: the elements that fit are kept, new ones are uninitialised.
\<close>

definition realloc_slots :: "'a slots \<Rightarrow> nat \<Rightarrow> nat \<Rightarrow> 'a slots" where
  "realloc_slots arr bytes elem =
     (let n = bytes div elem in take n arr @ replicate (n - length arr) None)"

text \<open>
  \<open>add_to_unacked\<close> returns the delivery tag it assigned, \<open>None\<close> when the array could not
  grow. The caller's \<open>delivery_tag\<close> argument is written with that tag.
\<close>

definition add_to_unacked :: "addr \<Rightarrow> Queue \<Rightarrow> 'z qmem_scheme \<Rightarrow> fault + u64 option \<times> Queue \<times> 'z qmem_scheme" where
  "add_to_unacked m q s =
     (let (grown, q, s) =
        (if unacked_count q \<ge> unacked_capacity q
         then
           let new_capacity = sz_mul (unacked_capacity q) 2;
               bytes = sz_mul new_capacity sizeof_DeliveryInfo;
               (ok, s) = sys_malloc bytes s in
           if \<not> ok then (False, q, s)
           else (True, q\<lparr>unacked_messages := realloc_slots (unacked_messages q) bytes sizeof_DeliveryInfo,
                   unacked_capacity := new_capacity\<rparr>, s)
         else (True, q, s)) in
      if \<not> grown then Inr (None, q, s)
      else
        let tag = next_delivery_tag q;
            info = \<lparr>di_message = m, delivery_tag = tag, delivery_time = clock s,
                    status = MESSAGE_STATUS_DELIVERED\<rparr> in
        ebind (slot_put (unacked_messages q) (unacked_count q) info) (\<lambda>arr.
        Inr (Some tag,
          q\<lparr>unacked_messages := arr, unacked_count := sz_add (unacked_count q) 1,
            next_delivery_tag := tag + 1\<rparr>, s)))"

text \<open>
  What \<open>queue_dequeue\<close> and \<open>queue_try_dequeue\<close> do once the queue is known not to be empty;
  the result is the message and its delivery tag, or \<open>None\<close> for NULL.
\<close>

definition take_delivery :: "addr \<Rightarrow> Queue \<Rightarrow> 'z qmem_scheme \<Rightarrow> fault + (addr \<times> u64) option \<times> 'z qmem_scheme" where
  "take_delivery qa q s =
     ebind (ring_take q) (\<lambda>(m, q).
     ebind (add_to_unacked m q s) (\<lambda>(added, q, s).
     case added of
       None \<Rightarrow> ebind (ring_untake q) (\<lambda>q. Inr (None, put_queue qa q s))
     | Some tag \<Rightarrow>
         Inr (Some (m, tag), put_queue qa (q\<lparr>not_full := cond_signal (not_full q)\<rparr>) s)))"

definition queue_dequeue :: "ptr \<Rightarrow> 'z qmem_scheme \<Rightarrow> fault + (addr \<times> u64) option blocking \<times> 'z qmem_scheme" where
  "queue_dequeue queue s =
     (case queue of
        None \<Rightarrow> Inr (Returns None, s)
      | Some qa \<Rightarrow>
          ebind (deref (queues s) queue) (\<lambda>q.
          if q_size q = 0
          then Inr (Blocks, put_queue qa (q\<lparr>not_empty := cond_wait (not_empty q)\<rparr>) s)
          else ebind (take_delivery qa q s) (\<lambda>(r, s). Inr (Returns r, s))))"

definition queue_try_dequeue :: "ptr \<Rightarrow> 'z qmem_scheme \<Rightarrow> fault + (addr \<times> u64) option \<times> 'z qmem_scheme" where
  "queue_try_dequeue queue s =
     (case queue of
        None \<Rightarrow> Inr (None, s)
      | Some qa \<Rightarrow>
          ebind (deref (queues s) queue) (\<lambda>q.
          if q_size q = 0 then Inr (None, s) else take_delivery qa q s))"

subsection \<open>Acknowledging and rejecting\<close>

text \<open>The search for a delivery tag, from index \<open>i\<close> on.\<close>

function find_tag :: "DeliveryInfo slots \<Rightarrow> nat \<Rightarrow> u64 \<Rightarrow> nat \<Rightarrow> fault + nat option" where
  "find_tag arr count tag i =
     (if i < count
      then ebind (slot_get arr i) (\<lambda>d.
        if delivery_tag d = tag then Inr (Some i) else find_tag arr count tag (Suc i))
      else Inr None)"
  by pat_completeness auto
termination
  by (relation "measure (\<lambda>(arr, count, tag, i). count - i)") auto

declare find_tag.simps [simp del]

text \<open>
  The clean-up loop, which moves the entries not marked as acknowledged to the front of the
  array and counts them.
\<close>

function compact :: "nat \<Rightarrow> nat \<Rightarrow> DeliveryInfo slots \<Rightarrow> nat \<Rightarrow> fault + DeliveryInfo slots \<times> nat" where
  "compact count i arr new_count =
     (if i < count
      then ebind (slot_get arr i) (\<lambda>d.
        if status d \<noteq> MESSAGE_STATUS_ACKNOWLEDGED
        then
          ebind (if i \<noteq> new_count then slot_put arr new_count d else Inr arr) (\<lambda>arr.
          compact count (Suc i) arr (Suc new_count))
        else compact count (Suc i) arr new_count)
      else Inr (arr, new_count))"
  by pat_completeness auto
termination
  by (relation "measure (\<lambda>(count, i, arr, new_count). count - i)") auto

declare compact.simps [simp del]

definition cleanup :: "Queue \<Rightarrow> fault + Queue" where
  "cleanup q =
     ebind (compact (unacked_count q) 0 (unacked_messages q) 0) (\<lambda>(arr, n).
     Inr (q\<lparr>unacked_messages := arr, unacked_count := n\<rparr>))"

definition mark_acknowledged :: "nat \<Rightarrow> Queue \<Rightarrow> fault + Queue" where
  "mark_acknowledged i q =
     ebind (slot_get (unacked_messages q) i) (\<lambda>d.
     ebind (slot_put (unacked_messages q) i (d\<lparr>status := MESSAGE_STATUS_ACKNOWLEDGED\<rparr>)) (\<lambda>arr.
     Inr (q\<lparr>unacked_messages := arr\<rparr>)))"

definition queue_ack :: "ptr \<Rightarrow> u64 \<Rightarrow> 'z qmem_scheme \<Rightarrow> fault + bool \<times> 'z qmem_scheme" where
  "queue_ack queue tag s =
     (case queue of
        None \<Rightarrow> Inr (False, s)
      | Some qa \<Rightarrow>
          ebind (deref (queues s) queue) (\<lambda>q.
          ebind (find_tag (unacked_messages q) (unacked_count q) tag 0) (\<lambda>found.
          case found of
            None \<Rightarrow> Inr (False, s)
          | Some i \<Rightarrow>
              ebind (slot_get (unacked_messages q) i) (\<lambda>d.
              ebind (mark_acknowledged i q) (\<lambda>q.
              ebind (message_free (Some (di_message d)) s) (\<lambda>s.
              ebind (cleanup q) (\<lambda>q.
              Inr (True, put_queue qa q s))))))))"

definition queue_reject :: "ptr \<Rightarrow> u64 \<Rightarrow> bool \<Rightarrow> 'z qmem_scheme \<Rightarrow> fault + bool \<times> 'z qmem_scheme" where
  "queue_reject queue tag requeue s =
     (case queue of
        None \<Rightarrow> Inr (False, s)
      | Some qa \<Rightarrow>
          ebind (deref (queues s) queue) (\<lambda>q.
          ebind (find_tag (unacked_messages q) (unacked_count q) tag 0) (\<lambda>found.
          case found of
            None \<Rightarrow> Inr (False, s)
          | Some i \<Rightarrow>
              ebind (slot_get (unacked_messages q) i) (\<lambda>d.
              let message = (if requeue then Some (di_message d) else None) in
              ebind (if requeue then Inr s else message_free (Some (di_message d)) s) (\<lambda>s.
              ebind (mark_acknowledged i q) (\<lambda>q.
              ebind (cleanup q) (\<lambda>q.
              case message of
                None \<Rightarrow> Inr (True, put_queue qa q s)
              | Some m \<Rightarrow>
                  if q_size q = capacity q
                  then ebind (message_free message s) (\<lambda>s. Inr (True, put_queue qa q s))
                  else ebind (ring_put_front m q) (\<lambda>q. Inr (True, put_queue qa q s)))))))))"

subsection \<open>Timeouts\<close>

text \<open>
  The loop of \<open>queue_process_timeouts\<close>; its state is the queue, the heap and
  \<open>requeued_count\<close>.
\<close>

definition timeout_body ::
    "int \<Rightarrow> int \<Rightarrow> nat \<Rightarrow> Queue \<times> 'z qmem_scheme \<times> nat \<Rightarrow> fault + Queue \<times> 'z qmem_scheme \<times> nat" where
  "timeout_body current_time timeout_seconds i st =
     (case st of (q, s, requeued_count) \<Rightarrow>
        ebind (slot_get (unacked_messages q) i) (\<lambda>d.
        if status d = MESSAGE_STATUS_DELIVERED \<and> current_time - delivery_time d > timeout_seconds
        then
          ebind (mark_acknowledged i q) (\<lambda>q.
          if q_size q < capacity q
          then ebind (ring_put_front (di_message d) q) (\<lambda>q. Inr (q, s, Suc requeued_count))
          else ebind (message_free (Some (di_message d)) s) (\<lambda>s. Inr (q, s, requeued_count)))
        else Inr (q, s, requeued_count)))"

definition queue_process_timeouts :: "ptr \<Rightarrow> int \<Rightarrow> 'z qmem_scheme \<Rightarrow> fault + 'z qmem_scheme" where
  "queue_process_timeouts queue timeout_seconds s =
     (case queue of
        None \<Rightarrow> Inr s
      | Some qa \<Rightarrow>
          if timeout_seconds \<le> 0 then Inr s
          else
            ebind (deref (queues s) queue) (\<lambda>q.
            ebind (for_loop (timeout_body (clock s) timeout_seconds) [0..<unacked_count q] (q, s, 0))
              (\<lambda>(q, s, requeued_count).
            if requeued_count > 0
            then ebind (cleanup q) (\<lambda>q. Inr (put_queue qa q s))
            else Inr (put_queue qa q s))))"

subsection \<open>Size and durability\<close>

definition queue_size :: "ptr \<Rightarrow> 'z qmem_scheme \<Rightarrow> fault + nat" where
  "queue_size queue s =
     (if queue = None then Inr 0 else ebind (deref (queues s) queue) (\<lambda>q. Inr (q_size q)))"

definition queue_set_durable :: "ptr \<Rightarrow> u8 \<Rightarrow> 'z qmem_scheme \<Rightarrow> fault + 'z qmem_scheme" where
  "queue_set_durable queue d s =
     (case queue of
        None \<Rightarrow> Inr s
      | Some qa \<Rightarrow>
          ebind (deref (queues s) queue) (\<lambda>q.
          Inr (put_queue qa (q\<lparr>durable := (if d \<noteq> 0 then 1 else 0)\<rparr>) s)))"

end
