(* ===== verification/Connection.thy ===== *)
theory Connection
  imports Wire_Roundtrip Queue
begin

text \<open>
  Client connections, \<open>src/core/connection.c\<close> and \<open>include/core/connection.h\<close>: the record,
  every function of the interface and the passes of the receiver thread, over a memory with
  the connections, the open descriptors, the receiver threads not yet joined and the
  callbacks made so far. (The wire functions of the same file are in \<open>Wire\<close>.)

  What the kernel answers to \<open>socket\<close>, \<open>gethostbyname\<close>, \<open>connect\<close>, \<open>select\<close> and
  \<open>getsockopt\<close> is the argument \<open>env\<close> of \<open>connection_connect\<close>, and the \<open>errno\<close> of a failed
  \<open>recv\<close> an argument of the receiver's pass. A callback is a function pointer, named by an
  address; calling it adds to \<open>callbacks\<close>, and a message passed to it is then the
  callback's to free.
\<close>

datatype ConnectionStatus =
    CONNECTION_STATUS_DISCONNECTED
  | CONNECTION_STATUS_CONNECTING
  | CONNECTION_STATUS_CONNECTED
  | CONNECTION_STATUS_FAILED

record Connection =
  socket_fd :: int
  host :: "string option"
  port :: u16
  conn_status :: ConnectionStatus
  receiver_thread :: bool
  conn_running :: u8
  on_connect :: ptr
  on_disconnect :: ptr
  on_message :: ptr
  callback_context :: ptr

datatype callback =
    Connect_Callback addr ptr
  | Disconnect_Callback addr ptr
  | Message_Callback addr ptr addr

datatype errno_value = ECONNRESET | ENOTCONN | EPIPE | OTHER_ERRNO

record cmem = qmem +
  connections :: "addr \<rightharpoonup> Connection"
  socks :: sockets
  open_fds :: "int list"
  receivers :: "addr list"
  callbacks :: "callback list"
  errno :: errno_value

record connect_env =
  env_socket :: int
  env_resolved :: bool
  env_connect :: bool
  env_select :: int
  env_so_error :: bool

definition put_conn :: "addr \<Rightarrow> Connection \<Rightarrow> 'z cmem_scheme \<Rightarrow> 'z cmem_scheme" where
  "put_conn a c s = s\<lparr>connections := (connections s)(a \<mapsto> c)\<rparr>"

definition close_sock :: "int \<Rightarrow> 'z cmem_scheme \<Rightarrow> 'z cmem_scheme" where
  "close_sock fd s = s\<lparr>open_fds := remove1 fd (open_fds s)\<rparr>"

definition call_back :: "(addr \<Rightarrow> callback) \<Rightarrow> ptr \<Rightarrow> 'z cmem_scheme \<Rightarrow> 'z cmem_scheme" where
  "call_back mk f s = (case f of None \<Rightarrow> s | Some cb \<Rightarrow> s\<lparr>callbacks := callbacks s @ [mk cb]\<rparr>)"

subsection \<open>The interface\<close>

definition connection_create :: "byte list option \<Rightarrow> u16 \<Rightarrow> 'z cmem_scheme \<Rightarrow> fault + ptr \<times> 'z cmem_scheme" where
  "connection_create host_arg port_arg s =
     (case host_arg of
        None \<Rightarrow> Inr (None, s)
      | Some h \<Rightarrow>
          let (ok, s) = sys_malloc 112 s in
          if \<not> ok then Inr (None, s)
          else
            let (h_dup, s) = strdup h s;
                c = \<lparr>socket_fd = -1, host = h_dup, port = port_arg,
                     conn_status = CONNECTION_STATUS_DISCONNECTED, receiver_thread = False,
                     conn_running = 0, on_connect = None, on_disconnect = None, on_message = None,
                     callback_context = None\<rparr>;
                (ok, s) = sys_try s in
            if \<not> ok then Inr (None, s)
            else Inr (Some (brk s), put_conn (brk s) c (s\<lparr>brk := Suc (brk s)\<rparr>)))"

text \<open>The failure paths after the socket exists: close it and record the failure.\<close>

definition connect_failed :: "addr \<Rightarrow> Connection \<Rightarrow> 'z cmem_scheme \<Rightarrow> 'z cmem_scheme" where
  "connect_failed a c s =
     put_conn a (c\<lparr>socket_fd := -1, conn_status := CONNECTION_STATUS_FAILED\<rparr>) (close_sock (socket_fd c) s)"

definition connection_connect :: "connect_env \<Rightarrow> ptr \<Rightarrow> 'z cmem_scheme \<Rightarrow> fault + bool \<times> 'z cmem_scheme" where
  "connection_connect env conn s =
     (case conn of
        None \<Rightarrow> Inr (False, s)
      | Some a \<Rightarrow>
          ebind (deref (connections s) conn) (\<lambda>c.
          if conn_status c = CONNECTION_STATUS_CONNECTED \<or> conn_status c = CONNECTION_STATUS_CONNECTING
          then Inr (True, s)
          else
            let c = c\<lparr>conn_status := CONNECTION_STATUS_CONNECTING, socket_fd := env_socket env\<rparr> in
            if env_socket env < 0
            then Inr (False, put_conn a (c\<lparr>conn_status := CONNECTION_STATUS_FAILED\<rparr>) s)
            else
              let s = s\<lparr>open_fds := open_fds s @ [env_socket env]\<rparr> in
              if host c = None then Inl NullDeref
              else if \<not> env_resolved env then Inr (False, connect_failed a c s)
              else if \<not> env_connect env then Inr (False, connect_failed a c s)
              else if env_select env \<le> 0 then Inr (False, connect_failed a c s)
              else if env_so_error env then Inr (False, connect_failed a c s)
              else
                let c = c\<lparr>conn_status := CONNECTION_STATUS_CONNECTED, conn_running := 1\<rparr>;
                    (ok, s) = sys_try s in
                if \<not> ok then Inr (False, connect_failed a (c\<lparr>conn_running := 0\<rparr>) s)
                else
                  let c = c\<lparr>receiver_thread := True\<rparr>;
                      s = (put_conn a c s)\<lparr>receivers := receivers s @ [a]\<rparr> in
                  Inr (True, call_back (\<lambda>f. Connect_Callback f (callback_context c)) (on_connect c) s)))"

text \<open>
  What follows \<open>pthread_join\<close>. The call itself is taken to return; when it does is the
  matter of \<open>Connection_Threads\<close>.
\<close>

definition disconnect_finish :: "addr \<Rightarrow> 'z cmem_scheme \<Rightarrow> fault + 'z cmem_scheme" where
  "disconnect_finish a s =
     ebind (deref (connections s) (Some a)) (\<lambda>c.
     let s = s\<lparr>receivers := remove1 a (receivers s)\<rparr>;
         s = (if socket_fd c \<ge> 0 then close_sock (socket_fd c) s else s);
         c = c\<lparr>socket_fd := -1, conn_status := CONNECTION_STATUS_DISCONNECTED\<rparr>;
         s = put_conn a c s in
     Inr (call_back (\<lambda>f. Disconnect_Callback f (callback_context c)) (on_disconnect c) s))"

definition connection_disconnect :: "ptr \<Rightarrow> 'z cmem_scheme \<Rightarrow> fault + bool \<times> 'z cmem_scheme" where
  "connection_disconnect conn s =
     (case conn of
        None \<Rightarrow> Inr (False, s)
      | Some a \<Rightarrow>
          ebind (deref (connections s) conn) (\<lambda>c.
          if conn_status c \<noteq> CONNECTION_STATUS_CONNECTED then Inr (True, s)
          else if \<not> receiver_thread c then Inl (UninitRead a)
          else
            ebind (disconnect_finish a (put_conn a (c\<lparr>conn_running := 0\<rparr>) s)) (\<lambda>s. Inr (True, s))))"

definition connection_free :: "ptr \<Rightarrow> 'z cmem_scheme \<Rightarrow> fault + 'z cmem_scheme" where
  "connection_free conn s =
     (case conn of
        None \<Rightarrow> Inr s
      | Some a \<Rightarrow>
          ebind (deref (connections s) conn) (\<lambda>c.
          ebind (if conn_status c = CONNECTION_STATUS_CONNECTED then connection_disconnect conn s
                 else Inr (True, s)) (\<lambda>(r, s).
          Inr (s\<lparr>connections := (connections s)(a := None)\<rparr>))))"

definition connection_send :: "ptr \<Rightarrow> ptr \<Rightarrow> 'z cmem_scheme \<Rightarrow> fault + bool \<times> 'z cmem_scheme" where
  "connection_send conn message s =
     (if conn = None \<or> message = None then Inr (False, s)
      else
        ebind (deref (connections s) conn) (\<lambda>c.
        if conn_status c \<noteq> CONNECTION_STATUS_CONNECTED then Inr (False, s)
        else
          ebind (send_message_data (socket_fd c) message s (socks s)) (\<lambda>(ok, n).
          Inr (ok, s\<lparr>socks := n\<rparr>))))"

definition set_callback ::
    "(Connection \<Rightarrow> Connection) \<Rightarrow> ptr \<Rightarrow> ptr \<Rightarrow> 'z cmem_scheme \<Rightarrow> fault + 'z cmem_scheme" where
  "set_callback f context conn s =
     (case conn of
        None \<Rightarrow> Inr s
      | Some a \<Rightarrow>
          ebind (deref (connections s) conn) (\<lambda>c.
          Inr (put_conn a ((f c)\<lparr>callback_context := context\<rparr>) s)))"

definition connection_set_on_connect :: "ptr \<Rightarrow> ptr \<Rightarrow> ptr \<Rightarrow> 'z cmem_scheme \<Rightarrow> fault + 'z cmem_scheme" where
  "connection_set_on_connect conn callback_fn context s =
     set_callback (\<lambda>c. c\<lparr>on_connect := callback_fn\<rparr>) context conn s"

definition connection_set_on_disconnect :: "ptr \<Rightarrow> ptr \<Rightarrow> ptr \<Rightarrow> 'z cmem_scheme \<Rightarrow> fault + 'z cmem_scheme" where
  "connection_set_on_disconnect conn callback_fn context s =
     set_callback (\<lambda>c. c\<lparr>on_disconnect := callback_fn\<rparr>) context conn s"

definition connection_set_on_message :: "ptr \<Rightarrow> ptr \<Rightarrow> ptr \<Rightarrow> 'z cmem_scheme \<Rightarrow> fault + 'z cmem_scheme" where
  "connection_set_on_message conn callback_fn context s =
     set_callback (\<lambda>c. c\<lparr>on_message := callback_fn\<rparr>) context conn s"

definition connection_get_status :: "ptr \<Rightarrow> 'z cmem_scheme \<Rightarrow> fault + ConnectionStatus" where
  "connection_get_status conn s =
     (if conn = None then Inr CONNECTION_STATUS_DISCONNECTED
      else ebind (deref (connections s) conn) (\<lambda>c. Inr (conn_status c)))"

subsection \<open>The receiver thread\<close>

text \<open>
  The value of \<open>errno\<close> after \<open>receive_message_data\<close>: a failed \<open>recv\<close> sets it to \<open>err\<close>, a
  failed allocation to something else, and nothing else touches it; in particular \<open>recv\<close>
  returning 0 at the end of the stream does not.
\<close>

definition errno_after :: "errno_value \<Rightarrow> 'z cmem_scheme \<Rightarrow> 'z cmem_scheme \<Rightarrow> sockets \<Rightarrow> errno_value" where
  "errno_after err s s' n =
     (if list_ex (\<lambda>i. recv_limit n i = None) [recv_calls (socks s)..<recv_calls n] then err
      else if list_ex (\<lambda>i. \<not> sys_ok s i) [sys_calls s..<sys_calls s'] then OTHER_ERRNO
      else errno s)"

text \<open>
  One pass of the receiver's loop; \<open>False\<close> when the thread ends. \<open>receiver_pass\<close> is what follows
  the test of \<open>running\<close>, on the descriptor that was read together with it.
\<close>

definition receiver_pass :: "errno_value \<Rightarrow> addr \<Rightarrow> int \<Rightarrow> 'z cmem_scheme \<Rightarrow> fault + bool \<times> 'z cmem_scheme" where
  "receiver_pass err a fd s =
     ebind (receive_message_data fd s (socks s)) (\<lambda>(message, s', n).
     let s' = s'\<lparr>socks := n, errno := errno_after err s s' n\<rparr> in
     ebind (deref (connections s') (Some a)) (\<lambda>c.
     case message of
       Some m \<Rightarrow>
         (if on_message c \<noteq> None
          then Inr (True, call_back (\<lambda>f. Message_Callback f (callback_context c) m) (on_message c) s')
          else ebind (message_free message s') (\<lambda>s'. Inr (True, s')))
     | None \<Rightarrow>
         if errno s' \<in> {ECONNRESET, ENOTCONN, EPIPE}
         then
           let c = c\<lparr>conn_running := 0, conn_status := CONNECTION_STATUS_DISCONNECTED\<rparr>;
               s' = put_conn a c s' in
           Inr (False, call_back (\<lambda>f. Disconnect_Callback f (callback_context c)) (on_disconnect c) s')
         else Inr (True, s')))"

definition connection_receiver_thread :: "errno_value \<Rightarrow> addr \<Rightarrow> 'z cmem_scheme \<Rightarrow> fault + bool \<times> 'z cmem_scheme" where
  "connection_receiver_thread err a s =
     ebind (deref (connections s) (Some a)) (\<lambda>c.
     if conn_running c = 0 then Inr (False, s) else receiver_pass err a (socket_fd c) s)"

end
