(* ===== verification/Client.thy ===== *)
theory Client
  imports Connection
begin

text \<open>
  The C++ wrapper, \<open>src/wrapper/client.cpp\<close> and \<open>include/wrapper/client.hpp\<close>: the class
  \<open>Message\<close> (here \<open>CppMessage\<close>, a value of its three fields), the class \<open>Client\<close> and the
  \<open>ClientContext\<close> behind it.

  A C++ exception is a value: \<open>Throw what\<close> beside \<open>Value x\<close>. What unwinding runs (the
  destructors of the objects already constructed) is written out. A move leaves its source
  behind in the state the code gives it, and every object is destroyed where its scope ends.
  The virtual function \<open>Consumer::onMessage\<close> is user code: a parameter of the functions that
  reach it. It gets the wrapper by value and yields what is left in that parameter, which is
  destroyed when the call ends, and its outcome. Exceptions that are not a
  \<open>std::exception\<close> are left out.
\<close>

datatype 'a outcome = Value 'a | Throw string

record CppMessage =
  m_msg :: ptr
  m_owned :: bool
  m_deliveryTag :: u64

record ConnectionOptions =
  opt_host :: string
  opt_port :: u16
  opt_username :: string
  opt_password :: string
  opt_vhost :: string
  opt_timeout :: int
  opt_autoAck :: bool

definition default_options :: ConnectionOptions where
  "default_options = \<lparr>opt_host = ''localhost'', opt_port = 5672, opt_username = ''guest'', opt_password = ''guest'',
     opt_vhost = ''/'', opt_timeout = 30, opt_autoAck = False\<rparr>"

record ClientContext =
  ctx_consumer :: ptr
  messagePromise :: ptr
  currentQueue :: string
  lastDeliveryTag :: u64

record Client =
  m_conn :: ptr
  m_consumer :: ptr
  m_context :: ptr
  m_autoAck :: bool
  m_queues :: "string \<rightharpoonup> addr"

text \<open>
  The memory of a client process. A promise is the state it shares with its future: the
  message once it has been set.
\<close>

record clmem = cmem +
  clients :: "addr \<rightharpoonup> Client"
  contexts :: "addr \<rightharpoonup> ClientContext"
  promises :: "addr \<rightharpoonup> CppMessage option"

definition put_client :: "addr \<Rightarrow> Client \<Rightarrow> 'z clmem_scheme \<Rightarrow> 'z clmem_scheme" where
  "put_client a c s = s\<lparr>clients := (clients s)(a \<mapsto> c)\<rparr>"

definition put_context :: "addr \<Rightarrow> ClientContext \<Rightarrow> 'z clmem_scheme \<Rightarrow> 'z clmem_scheme" where
  "put_context a c s = s\<lparr>contexts := (contexts s)(a \<mapsto> c)\<rparr>"

subsection \<open>Messages\<close>

definition message_new ::
    "byte list \<Rightarrow> byte list \<Rightarrow> byte list option \<Rightarrow> nat \<Rightarrow> 'z mem_scheme \<Rightarrow> fault + CppMessage outcome \<times> 'z mem_scheme" where
  "message_new ex rk data n s =
     ebind (message_create (Some ex) (Some rk) data n s) (\<lambda>(p, s).
     if p = None then Inr (Throw ''Failed to create message'', s)
     else Inr (Value \<lparr>m_msg = p, m_owned = True, m_deliveryTag = 0\<rparr>, s))"

definition message_wrap :: "ptr \<Rightarrow> bool \<Rightarrow> u64 \<Rightarrow> CppMessage outcome" where
  "message_wrap msg owned tag =
     (if msg = None then Throw ''Cannot wrap NULL message''
      else Value \<lparr>m_msg = msg, m_owned = owned, m_deliveryTag = tag\<rparr>)"

definition message_destroy :: "CppMessage \<Rightarrow> 'z mem_scheme \<Rightarrow> fault + 'z mem_scheme" where
  "message_destroy w s = (if m_owned w \<and> m_msg w \<noteq> None then message_free (m_msg w) s else Inr s)"

definition moved_from :: CppMessage where
  "moved_from = \<lparr>m_msg = None, m_owned = False, m_deliveryTag = 0\<rparr>"

text \<open>The new object and what is left in \<open>other\<close>.\<close>

definition message_move :: "CppMessage \<Rightarrow> CppMessage \<times> CppMessage" where
  "message_move other = (\<lparr>m_msg = m_msg other, m_owned = m_owned other, m_deliveryTag = m_deliveryTag other\<rparr>, moved_from)"

text \<open>\<open>same\<close> says that both sides of the assignment are one object.\<close>

definition message_move_assign ::
    "bool \<Rightarrow> CppMessage \<Rightarrow> CppMessage \<Rightarrow> 'z mem_scheme \<Rightarrow> fault + (CppMessage \<times> CppMessage) \<times> 'z mem_scheme" where
  "message_move_assign same this other s =
     (if same then Inr ((this, other), s)
      else
        ebind (if m_owned this \<and> m_msg this \<noteq> None then message_free (m_msg this) s else Inr s) (\<lambda>s.
        Inr ((this\<lparr>m_msg := m_msg other, m_owned := m_owned other, m_deliveryTag := m_deliveryTag other\<rparr>, moved_from), s)))"

definition getExchange :: "CppMessage \<Rightarrow> 'z mem_scheme \<Rightarrow> fault + string" where
  "getExchange w s =
     ebind (deref (msgs s) (m_msg w)) (\<lambda>m. Inr (case exchange m of None \<Rightarrow> '''' | Some e \<Rightarrow> e))"

definition getRoutingKey :: "CppMessage \<Rightarrow> 'z mem_scheme \<Rightarrow> fault + string" where
  "getRoutingKey w s =
     ebind (deref (msgs s) (m_msg w)) (\<lambda>m. Inr (case routing_key m of None \<Rightarrow> '''' | Some k \<Rightarrow> k))"

definition getBody :: "CppMessage \<Rightarrow> 'z mem_scheme \<Rightarrow> fault + byte list option" where
  "getBody w s = ebind (deref (msgs s) (m_msg w)) (\<lambda>m. Inr (body m))"

definition getBodySize :: "CppMessage \<Rightarrow> 'z mem_scheme \<Rightarrow> fault + nat" where
  "getBodySize w s = ebind (deref (msgs s) (m_msg w)) (\<lambda>m. Inr (body_size m))"

definition getPriority :: "CppMessage \<Rightarrow> 'z mem_scheme \<Rightarrow> fault + u32" where
  "getPriority w s = ebind (deref (msgs s) (m_msg w)) (\<lambda>m. Inr (priority m))"

definition getExpiration :: "CppMessage \<Rightarrow> 'z mem_scheme \<Rightarrow> fault + u64" where
  "getExpiration w s = ebind (deref (msgs s) (m_msg w)) (\<lambda>m. Inr (expiration m))"

definition isPersistent :: "CppMessage \<Rightarrow> 'z mem_scheme \<Rightarrow> fault + bool" where
  "isPersistent w s = ebind (deref (msgs s) (m_msg w)) (\<lambda>m. Inr (persistent m \<noteq> 0))"

definition getDeliveryTag :: "CppMessage \<Rightarrow> u64" where
  "getDeliveryTag w = m_deliveryTag w"

definition setPriority :: "CppMessage \<Rightarrow> u32 \<Rightarrow> 'z mem_scheme \<Rightarrow> fault + 'z mem_scheme" where
  "setPriority w p s = message_set_priority (m_msg w) p s"

definition setExpiration :: "CppMessage \<Rightarrow> u64 \<Rightarrow> 'z mem_scheme \<Rightarrow> fault + 'z mem_scheme" where
  "setExpiration w e s = message_set_expiration (m_msg w) e s"

definition setPersistent :: "CppMessage \<Rightarrow> bool \<Rightarrow> 'z mem_scheme \<Rightarrow> fault + 'z mem_scheme" where
  "setPersistent w f s = message_set_persistent (m_msg w) (if f then 1 else 0) s"

definition getHandle :: "CppMessage \<Rightarrow> ptr" where
  "getHandle w = m_msg w"

subsection \<open>The callbacks\<close>

text \<open>The addresses of the three static functions.\<close>

definition onConnectCallback_fn :: addr where "onConnectCallback_fn = 1"

definition onDisconnectCallback_fn :: addr where "onDisconnectCallback_fn = 2"

definition onMessageCallback_fn :: addr where "onMessageCallback_fn = 3"

text \<open>
  \<open>promise.set_value\<close> on the message moved into it; a promise that has its value already
  throws, and the argument keeps the message. The result is what is left in the argument.
\<close>

definition set_value :: "addr \<Rightarrow> CppMessage \<Rightarrow> 'z clmem_scheme \<Rightarrow> fault + unit outcome \<times> CppMessage \<times> 'z clmem_scheme" where
  "set_value p w s =
     (case promises s p of
        None \<Rightarrow> Inl (UseAfterFree p)
      | Some (Some _) \<Rightarrow> Inr (Throw ''Promise already satisfied'', w, s)
      | Some None \<Rightarrow>
          (case message_move w of (stored, left) \<Rightarrow>
             Inr (Value (), left, s\<lparr>promises := (promises s)(p \<mapsto> Some stored)\<rparr>)))"

text \<open>
  In both branches of the \<open>try\<close> block the wrapper is a temporary that is destroyed before
  the \<open>catch\<close> block runs.
\<close>

type_synonym 's consumer_code = "addr \<Rightarrow> CppMessage \<Rightarrow> 's \<Rightarrow> fault + unit outcome \<times> CppMessage \<times> 's"

definition onMessageCallback ::
    "('z clmem_scheme) consumer_code \<Rightarrow> ptr \<Rightarrow> ptr \<Rightarrow> 'z clmem_scheme \<Rightarrow> fault + 'z clmem_scheme" where
  "onMessageCallback code ctx message s =
     (case ctx of
        None \<Rightarrow> message_free message s
      | Some ca \<Rightarrow>
          ebind (deref (contexts s) ctx) (\<lambda>c.
          ebind
            (case messagePromise c of
               Some p \<Rightarrow>
                 (case message_wrap message True (lastDeliveryTag c) of
                    Throw e \<Rightarrow> Inr (Throw e, s)
                  | Value w \<Rightarrow>
                      ebind (set_value p w s) (\<lambda>(r, left, s).
                      ebind (message_destroy left s) (\<lambda>s.
                      case r of
                        Throw e \<Rightarrow> Inr (Throw e, s)
                      | Value _ \<Rightarrow> Inr (Value (), put_context ca (c\<lparr>messagePromise := None\<rparr>) s))))
             | None \<Rightarrow>
                 (case ctx_consumer c of
                    Some k \<Rightarrow>
                      (case message_wrap message True (lastDeliveryTag c) of
                         Throw e \<Rightarrow> Inr (Throw e, s)
                       | Value w \<Rightarrow>
                           ebind (code k w s) (\<lambda>(r, left, s).
                           ebind (message_destroy left s) (\<lambda>s. Inr (r, s))))
                  | None \<Rightarrow> ebind (message_free message s) (\<lambda>s. Inr (Value (), s))))
            (\<lambda>(r, s).
             case r of
               Value _ \<Rightarrow> Inr s
             | Throw e \<Rightarrow> message_free message s)))"

text \<open>The callbacks a connection has made, in order; the other two only log.\<close>

definition run_callback :: "('z clmem_scheme) consumer_code \<Rightarrow> callback \<Rightarrow> 'z clmem_scheme \<Rightarrow> fault + 'z clmem_scheme" where
  "run_callback code cb s =
     (case cb of
        Message_Callback f ctx m \<Rightarrow>
          (if f = onMessageCallback_fn then onMessageCallback code ctx (Some m) s else Inr s)
      | _ \<Rightarrow> Inr s)"

text \<open>A pass of the receiver thread with the callback it makes.\<close>

definition client_receive ::
    "('z clmem_scheme) consumer_code \<Rightarrow> errno_value \<Rightarrow> addr \<Rightarrow> 'z clmem_scheme \<Rightarrow> fault + bool \<times> 'z clmem_scheme" where
  "client_receive code err conn s =
     ebind (connection_receiver_thread err conn s) (\<lambda>(goes_on, s').
     ebind (for_loop (run_callback code) (drop (length (callbacks s)) (callbacks s')) s') (\<lambda>s'.
     Inr (goes_on, s')))"

subsection \<open>Construction, destruction and moves\<close>

text \<open>
  The constructor. When \<open>new\<close> throws, the object has not been constructed and its destructor
  does not run. (The test of \<open>m_context\<close> that follows \<open>new\<close> never finds NULL.)
\<close>

definition client_new :: "addr \<Rightarrow> ConnectionOptions \<Rightarrow> 'z clmem_scheme \<Rightarrow> fault + unit outcome \<times> 'z clmem_scheme" where
  "client_new this options s =
     ebind (connection_create (Some (opt_host options)) (opt_port options) s) (\<lambda>(conn, s).
     if conn = None then Inr (Throw ''Failed to create connection'', s)
     else
       let (ok, s) = sys_malloc 64 s in
       if \<not> ok then Inr (Throw ''std::bad_alloc'', s)
       else
         let ca = brk s;
             s = put_context ca \<lparr>ctx_consumer = None, messagePromise = None, currentQueue = [], lastDeliveryTag = 0\<rparr>
                   (s\<lparr>brk := Suc ca\<rparr>) in
         ebind (connection_set_on_connect conn (Some onConnectCallback_fn) (Some ca) s) (\<lambda>s.
         ebind (connection_set_on_disconnect conn (Some onDisconnectCallback_fn) (Some ca) s) (\<lambda>s.
         ebind (connection_set_on_message conn (Some onMessageCallback_fn) (Some ca) s) (\<lambda>s.
         Inr (Value (), put_client this \<lparr>m_conn = conn, m_consumer = None, m_context = Some ca,
           m_autoAck = opt_autoAck options, m_queues = Map.empty\<rparr> s)))))"

definition client_disconnect :: "addr \<Rightarrow> 'z clmem_scheme \<Rightarrow> fault + 'z clmem_scheme" where
  "client_disconnect this s =
     ebind (deref (clients s) (Some this)) (\<lambda>c.
     if m_conn c \<noteq> None then ebind (connection_disconnect (m_conn c) s) (\<lambda>(r, s). Inr s) else Inr s)"

definition delete_context :: "ptr \<Rightarrow> 'z clmem_scheme \<Rightarrow> fault + 'z clmem_scheme" where
  "delete_context ctx s =
     (case ctx of
        None \<Rightarrow> Inr s
      | Some ca \<Rightarrow>
          (case contexts s ca of
             None \<Rightarrow> Inl (DoubleFree ca)
           | Some _ \<Rightarrow> Inr (s\<lparr>contexts := (contexts s)(ca := None)\<rparr>)))"

definition client_destroy :: "addr \<Rightarrow> 'z clmem_scheme \<Rightarrow> fault + 'z clmem_scheme" where
  "client_destroy this s =
     ebind (client_disconnect this s) (\<lambda>s.
     ebind (deref (clients s) (Some this)) (\<lambda>c.
     ebind (if m_conn c \<noteq> None then connection_free (m_conn c) s else Inr s) (\<lambda>s.
     ebind (delete_context (m_context c) s) (\<lambda>s.
     Inr (s\<lparr>clients := (clients s)(this := None)\<rparr>)))))"

text \<open>
  The moves. Afterwards the source has no connection, context, consumer or queues; its
  \<open>m_autoAck\<close> is as it was.
\<close>

definition client_move :: "addr \<Rightarrow> addr \<Rightarrow> 'z clmem_scheme \<Rightarrow> fault + 'z clmem_scheme" where
  "client_move this other s =
     ebind (deref (clients s) (Some other)) (\<lambda>c.
     Inr (put_client this c
       (put_client other (c\<lparr>m_conn := None, m_consumer := None, m_context := None, m_queues := Map.empty\<rparr>) s)))"

definition client_move_assign :: "addr \<Rightarrow> addr \<Rightarrow> 'z clmem_scheme \<Rightarrow> fault + 'z clmem_scheme" where
  "client_move_assign this other s =
     (if this = other then Inr s
      else
        ebind (client_disconnect this s) (\<lambda>s.
        ebind (deref (clients s) (Some this)) (\<lambda>c.
        ebind (if m_conn c \<noteq> None then connection_free (m_conn c) s else Inr s) (\<lambda>s.
        ebind (delete_context (m_context c) s) (\<lambda>s.
        client_move this other s)))))"

subsection \<open>Operations\<close>

definition client_connect :: "connect_env \<Rightarrow> addr \<Rightarrow> 'z clmem_scheme \<Rightarrow> fault + bool \<times> 'z clmem_scheme" where
  "client_connect env this s =
     ebind (deref (clients s) (Some this)) (\<lambda>c.
     if m_conn c = None then Inr (False, s) else connection_connect env (m_conn c) s)"

definition isConnected :: "addr \<Rightarrow> 'z clmem_scheme \<Rightarrow> fault + bool" where
  "isConnected this s =
     ebind (deref (clients s) (Some this)) (\<lambda>c.
     if m_conn c = None then Inr False
     else
       ebind (connection_get_status (m_conn c) s) (\<lambda>st. Inr (st = CONNECTION_STATUS_CONNECTED)))"

text \<open>The bodies of these three are empty in the source.\<close>

definition declareQueue :: "addr \<Rightarrow> string \<Rightarrow> nat \<Rightarrow> bool \<Rightarrow> 'z clmem_scheme \<Rightarrow> fault + 'z clmem_scheme" where
  "declareQueue this name cap durable_flag s = Inr s"

definition bindQueue :: "addr \<Rightarrow> string \<Rightarrow> string \<Rightarrow> string \<Rightarrow> 'z clmem_scheme \<Rightarrow> fault + 'z clmem_scheme" where
  "bindQueue this queue_name exchange_name key s = Inr s"

definition declareExchange :: "addr \<Rightarrow> string \<Rightarrow> nat \<Rightarrow> 'z clmem_scheme \<Rightarrow> fault + 'z clmem_scheme" where
  "declareExchange this name type s = Inr s"

text \<open>The test with which the operations start: a connection, and it is connected.\<close>

definition if_connected ::
    "addr \<Rightarrow> (Client \<Rightarrow> 'z clmem_scheme \<Rightarrow> fault + 'a outcome \<times> 'z clmem_scheme) \<Rightarrow> 'z clmem_scheme
      \<Rightarrow> fault + 'a outcome \<times> 'z clmem_scheme" where
  "if_connected this f s =
     ebind (deref (clients s) (Some this)) (\<lambda>c.
     ebind (if m_conn c = None then Inr False else isConnected this s) (\<lambda>connected.
     if \<not> connected then Inr (Throw ''Not connected to broker'', s) else f c s))"

definition publish_message :: "addr \<Rightarrow> CppMessage \<Rightarrow> 'z clmem_scheme \<Rightarrow> fault + unit outcome \<times> 'z clmem_scheme" where
  "publish_message this w =
     if_connected this (\<lambda>c s.
       ebind (connection_send (m_conn c) (getHandle w) s) (\<lambda>(ok, s).
       Inr (if ok then Value () else Throw ''Failed to publish message'', s)))"

definition publish ::
    "addr \<Rightarrow> byte list \<Rightarrow> byte list \<Rightarrow> byte list option \<Rightarrow> nat \<Rightarrow> 'z clmem_scheme \<Rightarrow> fault + unit outcome \<times> 'z clmem_scheme" where
  "publish this ex rk data n =
     if_connected this (\<lambda>c s.
       ebind (message_new ex rk data n s) (\<lambda>(r, s).
       case r of
         Throw e \<Rightarrow> Inr (Throw e, s)
       | Value w \<Rightarrow>
           ebind (publish_message this w s) (\<lambda>(r, s).
           ebind (message_destroy w s) (\<lambda>s. Inr (r, s)))))"

definition consume :: "addr \<Rightarrow> string \<Rightarrow> ptr \<Rightarrow> 'z clmem_scheme \<Rightarrow> fault + unit outcome \<times> 'z clmem_scheme" where
  "consume this queue_name consumer_ptr =
     if_connected this (\<lambda>c s.
       ebind (deref (contexts s) (m_context c)) (\<lambda>ctx.
       Inr (Value (), put_context (the (m_context c))
         (ctx\<lparr>ctx_consumer := consumer_ptr, currentQueue := queue_name\<rparr>) s)))"

text \<open>
  \<open>get\<close> up to its wait, and what follows it, with the call's local variables \<open>context\<close> and
  \<open>promise\<close>. The promise is gone when the call ends; \<open>get_end\<close> gives the message that the
  returned future holds.
\<close>

definition get_begin :: "addr \<Rightarrow> string \<Rightarrow> 'z clmem_scheme \<Rightarrow> fault + (ptr \<times> addr) outcome \<times> 'z clmem_scheme" where
  "get_begin this queue_name =
     if_connected this (\<lambda>c s.
       ebind (deref (contexts s) (m_context c)) (\<lambda>ctx.
       let p = brk s;
           s = s\<lparr>brk := Suc p, promises := (promises s)(p \<mapsto> None)\<rparr> in
       Inr (Value (m_context c, p),
         put_context (the (m_context c)) (ctx\<lparr>currentQueue := queue_name, messagePromise := Some p\<rparr>) s)))"

definition get_end :: "ptr \<Rightarrow> addr \<Rightarrow> 'z clmem_scheme \<Rightarrow> fault + CppMessage outcome \<times> 'z clmem_scheme" where
  "get_end ctx p s =
     ebind (deref (promises s) (Some p)) (\<lambda>shared.
     let s' = s\<lparr>promises := (promises s)(p := None)\<rparr> in
     case shared of
       Some w \<Rightarrow> Inr (Value w, s')
     | None \<Rightarrow>
         ebind (deref (contexts s) ctx) (\<lambda>c.
         Inr (Throw ''Timeout waiting for message'', put_context (the ctx) (c\<lparr>messagePromise := None\<rparr>) s')))"

definition with_queue ::
    "string \<Rightarrow> string \<Rightarrow> (addr \<Rightarrow> 'z clmem_scheme \<Rightarrow> fault + unit outcome \<times> 'z clmem_scheme) \<Rightarrow> Client \<Rightarrow> 'z clmem_scheme
      \<Rightarrow> fault + unit outcome \<times> 'z clmem_scheme" where
  "with_queue no_queue not_found f c s =
     ebind (deref (contexts s) (m_context c)) (\<lambda>ctx.
     if currentQueue ctx = [] then Inr (Throw no_queue, s)
     else
       (case m_queues c (currentQueue ctx) of
          None \<Rightarrow> Inr (Throw not_found, s)
        | Some qa \<Rightarrow> f qa s))"

definition ack :: "addr \<Rightarrow> CppMessage \<Rightarrow> 'z clmem_scheme \<Rightarrow> fault + unit outcome \<times> 'z clmem_scheme" where
  "ack this w =
     if_connected this (with_queue ''No active queue for acknowledgment'' ''Queue not found for acknowledgment''
       (\<lambda>qa s. ebind (queue_ack (Some qa) (getDeliveryTag w) s) (\<lambda>(ok, s).
          Inr (if ok then Value () else Throw ''Failed to acknowledge message'', s))))"

definition reject :: "addr \<Rightarrow> CppMessage \<Rightarrow> bool \<Rightarrow> 'z clmem_scheme \<Rightarrow> fault + unit outcome \<times> 'z clmem_scheme" where
  "reject this w requeue =
     if_connected this (with_queue ''No active queue for rejection'' ''Queue not found for rejection''
       (\<lambda>qa s. ebind (queue_reject (Some qa) (getDeliveryTag w) requeue s) (\<lambda>(ok, s).
          Inr (if ok then Value () else Throw ''Failed to reject message'', s))))"

end
