(* ===== verification/Programs.thy ===== *)
theory Programs
  imports Client
begin

text \<open>
  The example programs: the producer of \<open>examples/producer/main.cpp\<close> and the acknowledging
  consumer of \<open>examples/consumer/ack_consumer.cpp\<close>.

  \<open>this\<close> is the address of the local \<open>client\<close> object. The consumer's main function is given
  up to the loop that waits for a signal and from there on. What \<open>rand\<close> decides is an
  argument. Log calls, sleeping and the signal handlers are left out.
\<close>

record AckConsumer =
  ac_client :: addr
  ac_autoAck :: bool

record exmem = clmem +
  ack_consumers :: "addr \<rightharpoonup> AckConsumer"

subsection \<open>The producer\<close>

text \<open>\<open>std::to_string\<close> on a number that is not negative.\<close>

fun to_string :: "nat \<Rightarrow> string" where
  "to_string n = (if n < 10 then [] else to_string (n div 10)) @ [char_of (48 + n mod 10)]"

declare to_string.simps [simp del]

definition producer_text :: "nat \<Rightarrow> string" where
  "producer_text i = ''Message #'' @ to_string i"

text \<open>A failed \<open>publish\<close> is logged and the loop goes on.\<close>

definition producer_send :: "addr \<Rightarrow> string \<Rightarrow> string \<Rightarrow> nat \<Rightarrow> 'z clmem_scheme \<Rightarrow> fault + 'z clmem_scheme" where
  "producer_send this ex rk i s =
     (let message = producer_text i in
      ebind (publish this ex rk (Some message) (length message) s) (\<lambda>(r, s). Inr s))"

definition producer_main :: "connect_env \<Rightarrow> addr \<Rightarrow> 'z clmem_scheme \<Rightarrow> fault + int \<times> 'z clmem_scheme" where
  "producer_main env this s =
     (let options = default_options\<lparr>opt_host := ''localhost'', opt_port := 5672\<rparr> in
      ebind (client_new this options s) (\<lambda>(r, s).
      case r of
        Throw e \<Rightarrow> Inr (1, s)
      | Value _ \<Rightarrow>
          ebind (client_connect env this s) (\<lambda>(connected, s).
          if \<not> connected then ebind (client_destroy this s) (\<lambda>s. Inr (1, s))
          else
            ebind (for_loop (producer_send this ''amq.direct'' ''test'') [0..<10] s) (\<lambda>s.
            ebind (client_disconnect this s) (\<lambda>s.
            ebind (client_destroy this s) (\<lambda>s. Inr (0, s)))))))"

subsection \<open>The consumer\<close>

text \<open>
  \<open>AckConsumer::onMessage\<close> of the object at \<open>k\<close>. It reads the whole message for its log
  lines; what \<open>ack\<close> or \<open>reject\<close> throws is caught.
\<close>

definition ack_onMessage ::
    "bool \<Rightarrow> addr \<Rightarrow> CppMessage \<Rightarrow> 'z exmem_scheme \<Rightarrow> fault + unit outcome \<times> CppMessage \<times> 'z exmem_scheme" where
  "ack_onMessage success k w s =
     ebind (deref (ack_consumers s) (Some k)) (\<lambda>ac.
     ebind (getBody w s) (\<lambda>data.
     ebind (getBodySize w s) (\<lambda>n.
     ebind (case data of None \<Rightarrow> if n = 0 then Inr [] else Inl NullDeref
            | Some bytes \<Rightarrow> if n \<le> length bytes then Inr (take n bytes) else Inl (OutOfBounds (length bytes))) (\<lambda>text.
     ebind (getExchange w s) (\<lambda>ex.
     ebind (getRoutingKey w s) (\<lambda>rk.
     ebind (getPriority w s) (\<lambda>p.
     ebind (isPersistent w s) (\<lambda>f.
     if \<not> ac_autoAck ac
     then
       (if success
        then ebind (ack (ac_client ac) w s) (\<lambda>(r, s). Inr (Value (), w, s))
        else ebind (reject (ac_client ac) w True s) (\<lambda>(r, s). Inr (Value (), w, s)))
     else Inr (Value (), w, s)))))))))"

text \<open>From the start to the loop; \<open>Value\<close> is the address of the consumer object.\<close>

definition consumer_start :: "connect_env \<Rightarrow> addr \<Rightarrow> 'z exmem_scheme \<Rightarrow> fault + (int + addr \<times> CppMessage) \<times> 'z exmem_scheme" where
  "consumer_start env this s =
     (let autoAck = False; queueName = ''test'';
          options = default_options\<lparr>opt_host := ''localhost'', opt_port := 5672, opt_autoAck := autoAck\<rparr>;
          leave = (\<lambda>w s. ebind (case w of None \<Rightarrow> Inr s | Some w \<Rightarrow> message_destroy w s) (\<lambda>s.
                     ebind (client_destroy this s) (\<lambda>s. Inr (Inl 1, s)))) in
      ebind (client_new this options s) (\<lambda>(r, s).
      case r of
        Throw e \<Rightarrow> Inr (Inl 1, s)
      | Value _ \<Rightarrow>
          ebind (client_connect env this s) (\<lambda>(connected, s).
          if \<not> connected then leave None s
          else
            ebind (message_new ''consumer'' ''register'' (Some queueName) (length queueName) s) (\<lambda>(r, s).
            case r of
              Throw e \<Rightarrow> leave None s
            | Value registerMsg \<Rightarrow>
                ebind (publish_message this registerMsg s) (\<lambda>(r, s).
                case r of
                  Throw e \<Rightarrow> leave (Some registerMsg) s
                | Value _ \<Rightarrow>
                    let k = brk s;
                        s = s\<lparr>brk := Suc k, ack_consumers := (ack_consumers s)
                              (k \<mapsto> \<lparr>ac_client = this, ac_autoAck = autoAck\<rparr>)\<rparr> in
                    ebind (consume this queueName (Some k) s) (\<lambda>(r, s).
                    case r of
                      Throw e \<Rightarrow> leave (Some registerMsg) (s\<lparr>ack_consumers := (ack_consumers s)(k := None)\<rparr>)
                    | Value _ \<Rightarrow> Inr (Inr (k, registerMsg), s)))))))"

definition consumer_finish :: "addr \<Rightarrow> addr \<times> CppMessage \<Rightarrow> 'z exmem_scheme \<Rightarrow> fault + int \<times> 'z exmem_scheme" where
  "consumer_finish this locals s =
     (case locals of (k, registerMsg) \<Rightarrow>
        ebind (client_disconnect this s) (\<lambda>s.
        ebind (message_destroy registerMsg s) (\<lambda>s.
        ebind (client_destroy this s) (\<lambda>s.
        Inr (0, s\<lparr>ack_consumers := (ack_consumers s)(k := None)\<rparr>)))))"

end
