(* ===== verification/Frames.thy ===== *)
theory Frames
  imports Wire
begin

text \<open>
  What the operations on messages and on the wire (\<open>src/core/message.c\<close> and the wire
  functions of \<open>src/core/connection.c\<close>) leave alone: they change the fields of \<open>mem\<close> only,
  whatever a component that builds on it adds to that record.
\<close>

text \<open>Only the fields of \<open>mem\<close> differ.\<close>

definition mem_step :: "'z mem_scheme \<Rightarrow> 'z mem_scheme \<Rightarrow> bool" where
  "mem_step s s' \<longleftrightarrow> mem.more s' = mem.more s"

named_theorems frames "which fields an operation leaves alone"

lemma mem_step_intros [simp]:
  "mem_step s s" "mem_step s (s'\<lparr>msgs := h\<rparr>) = mem_step s s'" "mem_step s (s'\<lparr>brk := b\<rparr>) = mem_step s s'"
  "mem_step s (s'\<lparr>sys_calls := k\<rparr>) = mem_step s s'"
  by (simp_all add: mem_step_def)

lemma mem_step_trans: "mem_step s t \<Longrightarrow> mem_step t u \<Longrightarrow> mem_step s u"
  by (simp add: mem_step_def)

lemma sys_malloc_frame [frames]: "sys_malloc n s = (ok, s') \<Longrightarrow> mem_step s s'"
  by (auto simp: sys_malloc_def)

lemma strdup_frame [frames]: "strdup str s = (r, s') \<Longrightarrow> mem_step s s'"
  by (auto simp: strdup_def sys_try_def Let_def)

lemma message_free_frame [frames]: "message_free p s = Inr s' \<Longrightarrow> mem_step s s'"
  by (auto simp: message_free_def split: option.splits)

lemma write_message_frame [frames]: "write_message p f s = Inr s' \<Longrightarrow> mem_step s s'"
  by (auto simp: write_message_def)

lemma message_create_frame [frames]: "message_create ex rk b n s = Inr (p, s') \<Longrightarrow> mem_step s s'"
  by (auto simp: message_create_def new_message_def sys_malloc_def strdup_def sys_try_def Let_def
      split: option.splits if_splits)

lemma message_clone_frame [frames]: "message_clone p s = Inr (q, s') \<Longrightarrow> mem_step s s'"
  by (auto simp: message_clone_def split: if_splits
      dest!: message_create_frame write_message_frame intro: mem_step_trans)

lemma receive_string_frame [frames]:
  assumes "receive_string fd s n = Inr (r, s', n')"
  shows "mem_step s s'"
proof -
  obtain lb n1 where 1: "recv_into 4 fd 4 n = Inr (lb, n1)"
    using assms by (auto simp: receive_string_def)
  show ?thesis
  proof (cases lb)
    case None
    with assms 1 show ?thesis by (simp add: receive_string_def)
  next
    case (Some b)
    let ?len = "bytes_word b :: u32"
    show ?thesis
    proof (cases "recv_into (unat (?len + 1)) fd (unat ?len) n1")
      case (Inl e)
      with assms 1 Some show ?thesis
        by (auto simp: receive_string_def sys_malloc_def Let_def split: if_split_asm)
    next
      case (Inr x)
      with assms 1 Some show ?thesis
        by (cases x; cases "fst x") (auto simp: receive_string_def sys_malloc_def Let_def split: if_split_asm)
    qed
  qed
qed

lemma receive_body_frame [frames]: "receive_body fd w s n = Inr (r, s', n') \<Longrightarrow> mem_step s s'"
  by (auto simp: receive_body_def sys_malloc_def Let_def split: option.splits if_splits)

lemma receive_property_frame [frames]: "receive_property fd k f a s n = Inr (r, s', n') \<Longrightarrow> mem_step s s'"
  by (auto simp: receive_property_def split: option.splits dest!: message_free_frame write_message_frame)

lemma receive_properties_frame [frames]: "receive_properties fd a s n = Inr (r, s', n') \<Longrightarrow> mem_step s s'"
  by (auto simp: receive_properties_def split: if_splits dest!: receive_property_frame intro: mem_step_trans)

lemma call_returns:
  "(\<And>r n'. R (r, n')) \<Longrightarrow> returns (recv_into room fd k n) R"
  "(\<And>r s' n'. mem_step s s' \<Longrightarrow> P1 (r, s', n')) \<Longrightarrow> returns (receive_string fd s n) P1"
  "(\<And>r s' n'. mem_step s s' \<Longrightarrow> P2 (r, s', n')) \<Longrightarrow> returns (receive_body fd w s n) P2"
  "(\<And>r s' n'. mem_step s s' \<Longrightarrow> P (r, s', n')) \<Longrightarrow> returns (receive_properties fd a s n) P"
  "(\<And>r s'. mem_step s s' \<Longrightarrow> P' (r, s')) \<Longrightarrow> returns (message_create ex rk b k s) P'"
  by (force intro!: returnsI dest: receive_string_frame receive_body_frame receive_properties_frame
      message_create_frame)+

lemma receive_message_returns:
  "returns (receive_message_data fd s n) (\<lambda>(p, s', n'). mem_step s s')"
  unfolding receive_message_data_def
  by (auto intro!: call_returns split: option.split simp: mem_step_def)

lemma receive_message_frame [frames]: "receive_message_data fd s n = Inr (p, s', n') \<Longrightarrow> mem_step s s'"
  using receive_message_returns [THEN returnsD, of fd s n] by auto

end
