(* ===== verification/Connection_Safety.thy ===== *)
theory Connection_Safety
  imports Connection Frames
begin

text \<open>
  The life of a client connection of \<open>src/core/connection.c\<close> as a state machine: its
  invariant, the effect of every operation on the status and on the open descriptors, and
  what happens when the peer goes away.
\<close>

lemma mem_step_cmem:
  assumes "mem_step s s'"
  shows "connections s' = connections s" "open_fds s' = open_fds s" "receivers s' = receivers s"
    "callbacks s' = callbacks s" "errno s' = errno s" "socks s' = socks s" "cmem.more s' = cmem.more s"
  using assms by (cases s; cases s'; simp add: mem_step_def)+

lemma cmem_more_simps [simp]:
  "cmem.more (put_conn a c s) = cmem.more s" "cmem.more (close_sock fd s) = cmem.more s"
  "cmem.more (call_back mk f s) = cmem.more s"
  by (simp_all add: put_conn_def close_sock_def call_back_def split: option.split)

lemma put_conn_simps [simp]:
  "connections (put_conn a c s) = (connections s)(a \<mapsto> c)" "open_fds (put_conn a c s) = open_fds s"
  "receivers (put_conn a c s) = receivers s" "callbacks (put_conn a c s) = callbacks s"
  "socks (put_conn a c s) = socks s"
  by (simp_all add: put_conn_def)

lemma close_sock_simps [simp]:
  "connections (close_sock fd s) = connections s" "open_fds (close_sock fd s) = remove1 fd (open_fds s)"
  "receivers (close_sock fd s) = receivers s" "callbacks (close_sock fd s) = callbacks s"
  by (simp_all add: close_sock_def)

lemma call_back_simps [simp]:
  "connections (call_back mk f s) = connections s" "open_fds (call_back mk f s) = open_fds s"
  "receivers (call_back mk f s) = receivers s" "socks (call_back mk f s) = socks s"
  "callbacks (call_back mk f s) = callbacks s @ (case f of None \<Rightarrow> [] | Some g \<Rightarrow> [mk g])"
  by (simp_all add: call_back_def split: option.split)

subsection \<open>The invariant\<close>

text \<open>
  A connected connection has an open descriptor and a receiver thread; between the calls of
  the interface a connection is never in the state \<open>CONNECTING\<close>.
\<close>

definition conn_inv :: "addr \<Rightarrow> 'z cmem_scheme \<Rightarrow> bool" where
  "conn_inv a s \<longleftrightarrow>
     (\<exists>c. connections s a = Some c \<and> host c \<noteq> None \<and> conn_status c \<noteq> CONNECTION_STATUS_CONNECTING \<and>
       (conn_status c = CONNECTION_STATUS_CONNECTED \<longrightarrow>
          0 \<le> socket_fd c \<and> socket_fd c \<in> set (open_fds s) \<and> conn_running c \<noteq> 0 \<and> receiver_thread c \<and>
          a \<in> set (receivers s)) \<and>
       (conn_status c = CONNECTION_STATUS_FAILED \<longrightarrow> socket_fd c < 0))"

lemma connect_inv:
  assumes "conn_inv a s" and "connection_connect env (Some a) s = Inr (r, s')"
  shows "conn_inv a s'"
  using assms
  by (auto simp: conn_inv_def connection_connect_def connect_failed_def sys_try_def Let_def
      split: if_split_asm)

text \<open>A connection attempt that fails once the socket exists.\<close>

lemma connect_fails:
  assumes "connections s a = Some c" and "host c = Some h"
    and "conn_status c \<in> {CONNECTION_STATUS_DISCONNECTED, CONNECTION_STATUS_FAILED}"
    and "0 \<le> env_socket env" and "\<not> (env_resolved env \<and> env_connect env \<and> 0 < env_select env \<and> \<not> env_so_error env)"
  shows "connection_connect env (Some a) s = Inr (False, connect_failed a
    (c\<lparr>conn_status := CONNECTION_STATUS_CONNECTING, socket_fd := env_socket env\<rparr>)
    (s\<lparr>open_fds := open_fds s @ [env_socket env]\<rparr>))"
proof -
  have "conn_status c \<noteq> CONNECTION_STATUS_CONNECTED" "conn_status c \<noteq> CONNECTION_STATUS_CONNECTING"
    using assms(3) by auto
  with assms show ?thesis unfolding connection_connect_def Let_def by force
qed

lemma connect_total:
  assumes "conn_inv a s"
  shows "\<exists>r s'. connection_connect env (Some a) s = Inr (r, s')"
proof -
  obtain c h where "connections s a = Some c" "host c = Some h"
    using assms by (auto simp: conn_inv_def)
  then have "\<exists>x. connection_connect env (Some a) s = Inr x"
    unfolding connection_connect_def sys_try_def Let_def by (simp add: ex_bool_eq)
  then show ?thesis by auto
qed

lemma disconnect_inv:
  assumes "conn_inv a s" and "connection_disconnect (Some a) s = Inr (r, s')"
  shows "conn_inv a s'"
  using assms
  by (auto simp: conn_inv_def connection_disconnect_def disconnect_finish_def Let_def split: if_split_asm)

lemma disconnect_total:
  assumes "conn_inv a s"
  shows "\<exists>s'. connection_disconnect (Some a) s = Inr (True, s')"
proof -
  obtain c where "connections s a = Some c"
    "conn_status c = CONNECTION_STATUS_CONNECTED \<Longrightarrow> receiver_thread c"
    using assms by (auto simp: conn_inv_def)
  then show ?thesis
    by (cases "conn_status c = CONNECTION_STATUS_CONNECTED") (simp_all add: connection_disconnect_def disconnect_finish_def Let_def)
qed

lemma send_frame:
  assumes "connection_send p m s = Inr (r, s')"
  shows "connections s' = connections s \<and> open_fds s' = open_fds s \<and> receivers s' = receivers s \<and>
    cmem.more s' = cmem.more s"
  using assms by (auto simp: connection_send_def split: if_split_asm)

lemma pass_cases:
  assumes "receiver_pass err a fd s = Inr (r, s')" and "connections s a = Some c"
  shows "(connections s' = connections s \<or>
      connections s' = (connections s)(a \<mapsto> c\<lparr>conn_running := 0, conn_status := CONNECTION_STATUS_DISCONNECTED\<rparr>)) \<and>
    open_fds s' = open_fds s \<and> receivers s' = receivers s \<and> cmem.more s' = cmem.more s \<and>
    (\<exists>cbs. callbacks s' = callbacks s @ cbs \<and>
       (\<forall>f ctx m. Message_Callback f ctx m \<in> set cbs \<longrightarrow> on_message c = Some f \<and> ctx = callback_context c))"
proof -
  from assms(1) obtain p s1 n where 1: "receive_message_data fd s (socks s) = Inr (p, s1, n)"
    by (auto simp: receiver_pass_def)
  note m = mem_step_cmem [OF receive_message_frame [OF 1]]
  define s2 where "s2 = s1\<lparr>socks := n, errno := errno_after err s s1 n\<rparr>"
  have e: "receiver_pass err a fd s =
     (case p of
         Some x \<Rightarrow>
           (if on_message c \<noteq> None
            then Inr (True, call_back (\<lambda>f. Message_Callback f (callback_context c) x) (on_message c) s2)
            else ebind (message_free p s2) (\<lambda>s'. Inr (True, s')))
       | None \<Rightarrow>
           if errno s2 \<in> {ECONNRESET, ENOTCONN, EPIPE}
           then Inr (False, call_back (\<lambda>f. Disconnect_Callback f (callback_context c)) (on_disconnect c)
             (put_conn a (c\<lparr>conn_running := 0, conn_status := CONNECTION_STATUS_DISCONNECTED\<rparr>) s2))
           else Inr (True, s2))"
    using assms(2) 1 m(1)
    by (simp add: receiver_pass_def s2_def [symmetric] Let_def split: option.split)
  have s2: "connections s2 = connections s" "open_fds s2 = open_fds s" "receivers s2 = receivers s"
    "callbacks s2 = callbacks s" "cmem.more s2 = cmem.more s"
    using m by (simp_all add: s2_def)
  show ?thesis
  proof (cases p)
    case None
    with e assms(1) s2 show ?thesis by (auto split: if_split_asm option.split)
  next
    case (Some x)
    show ?thesis
    proof (cases "on_message c = None")
      case True
      with Some e have "receiver_pass err a fd s = ebind (message_free p s2) (\<lambda>s'. Inr (True, s'))"
        by simp
      with assms(1) have "message_free p s2 = Inr s'" by (cases "message_free p s2") simp_all
      with mem_step_cmem [OF message_free_frame [OF this]] s2 show ?thesis by simp
    next
      case False
      with Some e assms(1) s2 show ?thesis by auto
    qed
  qed
qed

text \<open>The thread goes on unless the connection is lost; then the connection is as it was.\<close>

lemma pass_goes_on:
  assumes "receiver_pass err a fd s = Inr (r, s')" and "connections s a = Some c"
  shows "connections s' = (if r then connections s
    else (connections s)(a \<mapsto> c\<lparr>conn_running := 0, conn_status := CONNECTION_STATUS_DISCONNECTED\<rparr>))"
proof -
  from assms(1) obtain p s1 n where 1: "receive_message_data fd s (socks s) = Inr (p, s1, n)"
    by (auto simp: receiver_pass_def)
  note m = mem_step_cmem [OF receive_message_frame [OF 1]]
  show ?thesis
  proof (cases p)
    case None
    with assms 1 m show ?thesis by (auto simp: receiver_pass_def Let_def split: if_split_asm)
  next
    case (Some x)
    with assms 1 m show ?thesis
      by (auto simp: receiver_pass_def Let_def split: if_split_asm dest!: message_free_frame mem_step_cmem(1))
  qed
qed

lemma receiver_cases:
  assumes "connection_receiver_thread err a s = Inr (r, s')" and "connections s a = Some c"
  shows "(connections s' = connections s \<or>
      connections s' = (connections s)(a \<mapsto> c\<lparr>conn_running := 0, conn_status := CONNECTION_STATUS_DISCONNECTED\<rparr>)) \<and>
    open_fds s' = open_fds s \<and> receivers s' = receivers s \<and> cmem.more s' = cmem.more s \<and>
    (\<exists>cbs. callbacks s' = callbacks s @ cbs \<and>
       (\<forall>f ctx m. Message_Callback f ctx m \<in> set cbs \<longrightarrow> on_message c = Some f \<and> ctx = callback_context c))"
proof (cases "conn_running c = 0")
  case True
  with assms show ?thesis by (simp add: connection_receiver_thread_def)
next
  case False
  with assms have "receiver_pass err a (socket_fd c) s = Inr (r, s')" by (simp add: connection_receiver_thread_def)
  from pass_cases [OF this assms(2)] show ?thesis .
qed

lemma receiver_inv:
  assumes inv: "conn_inv a s" and r: "connection_receiver_thread err a s = Inr (r, s')"
  shows "conn_inv a s'"
proof -
  obtain c where c: "connections s a = Some c" using inv by (auto simp: conn_inv_def)
  from receiver_cases [OF r c] inv c show ?thesis by (auto simp: conn_inv_def)
qed

subsection \<open>The state machine\<close>

inductive conn_step :: "addr \<Rightarrow> cmem \<Rightarrow> cmem \<Rightarrow> bool" for a where
  do_connect: "connection_connect env (Some a) s = Inr (r, s') \<Longrightarrow> conn_step a s s'"
| do_disconnect: "connection_disconnect (Some a) s = Inr (r, s') \<Longrightarrow> conn_step a s s'"
| do_send: "connection_send (Some a) m s = Inr (r, s') \<Longrightarrow> conn_step a s s'"
| do_receive: "connection_receiver_thread err a s = Inr (r, s') \<Longrightarrow> conn_step a s s'"

inductive_cases conn_stepE: "conn_step a s s'"

definition conn_fresh :: "addr \<Rightarrow> cmem \<Rightarrow> bool" where
  "conn_fresh a s \<longleftrightarrow>
     (\<exists>h p s0. sys_fine s0 \<and> connection_create (Some h) p s0 = Inr (Some a, s))"

interpretation conn: invariant_system "conn_fresh a" "conn_step a" "conn_inv a" for a
proof
  show "conn_inv a s" if "conn_fresh a s" for s
    using that
    by (auto simp: conn_fresh_def connection_create_def sys_malloc_def sys_try_def strdup_def sys_fine_def
        conn_inv_def Let_def)
  show "conn_inv a t" if inv: "conn_inv a s" and step: "conn_step a s t" for s t
    using step
  proof cases
    case (do_send m r)
    from send_frame [OF this] inv show ?thesis by (simp add: conn_inv_def)
  qed (use inv in \<open>auto intro: connect_inv disconnect_inv receiver_inv\<close>)
qed

end
