(* ===== verification/Client_Safety.thy ===== *)
theory Client_Safety
  imports Programs Connection_Safety "HOL-Library.Multiset"
begin

text \<open>
  The C++ wrapper as two state machines: the wrappers of messages with their ownership of C
  messages, and a client with its context, its connection and the promises of its \<open>get\<close>
  calls.
\<close>

subsection \<open>Ownership of messages\<close>

text \<open>The message a wrapper object owns, and those of a list of wrappers.\<close>

definition owned :: "CppMessage \<Rightarrow> addr list" where
  "owned w = (if m_owned w then (case m_msg w of None \<Rightarrow> [] | Some a \<Rightarrow> [a]) else [])"

definition owners :: "CppMessage list \<Rightarrow> addr list" where
  "owners ws = concat (map owned ws)"

lemma owned_moved_from [simp]: "owned moved_from = []"
  by (simp add: owned_def moved_from_def)

lemma owners_simps [simp]: "owners [] = []" "owners (w # ws) = owned w @ owners ws" "owners (ws @ vs) = owners ws @ owners vs"
  by (simp_all add: owners_def)

lemma owners_remove:
  assumes "i < length ws"
  shows "mset (owned (ws ! i)) + mset (owners (take i ws @ drop (Suc i) ws)) = mset (owners ws)"
proof -
  have "owners ws = owners (take i ws @ (ws ! i) # drop (Suc i) ws)"
    using id_take_nth_drop [OF assms] by simp
  then show ?thesis by simp
qed

lemma owners_update:
  assumes "i < length ws"
  shows "mset (owned (ws ! i)) + mset (owners (ws[i := w])) = mset (owned w) + mset (owners ws)"
  using owners_remove [OF assms] by (simp add: upd_conv_take_nth_drop [OF assms] ac_simps)

text \<open>
  The life of the wrappers of one thread: they are constructed, moved into new ones, assigned
  to and destroyed in any order.
\<close>

inductive wrapper_step :: "CppMessage list \<times> mem \<Rightarrow> CppMessage list \<times> mem \<Rightarrow> bool" where
  create: "message_new ex rk d n s = Inr (Value w, s') \<Longrightarrow> wrapper_step (ws, s) (ws @ [w], s')"
| create_throws: "message_new ex rk d n s = Inr (Throw e, s') \<Longrightarrow> wrapper_step (ws, s) (ws, s')"
| move: "i < length ws \<Longrightarrow> message_move (ws ! i) = (new, left) \<Longrightarrow> wrapper_step (ws, s) (ws[i := left] @ [new], s)"
| assign: "i < length ws \<Longrightarrow> j < length ws \<Longrightarrow>
    message_move_assign (i = j) (ws ! i) (ws ! j) s = Inr ((x, y), s') \<Longrightarrow>
    wrapper_step (ws, s) (ws[i := x, j := y], s')"
| destroy: "i < length ws \<Longrightarrow> message_destroy (ws ! i) s = Inr s' \<Longrightarrow>
    wrapper_step (ws, s) (take i ws @ drop (Suc i) ws, s')"

inductive_cases wrapper_stepE: "wrapper_step (ws, s) t"

text \<open>
  Each owned message is owned once and allocated, and what is allocated is what was there at
  the start (\<open>D\<close>) and what is owned.
\<close>

definition wrappers_inv :: "addr set \<Rightarrow> CppMessage list \<times> mem \<Rightarrow> bool" where
  "wrappers_inv D st \<longleftrightarrow>
     (case st of (ws, s) \<Rightarrow>
        (\<forall>a\<ge>brk s. msgs s a = None) \<and> distinct (owners ws) \<and> set (owners ws) \<inter> D = {} \<and>
        dom (msgs s) = D \<union> set (owners ws))"

lemma message_create_dom:
  assumes "message_create ex rk d n s = Inr (p, s')"
  shows "(p = None \<and> msgs s' = msgs s \<and> brk s' = brk s) \<or>
    (p = Some (brk s) \<and> brk s' = Suc (brk s) \<and> (\<exists>m. msgs s' = (msgs s)(brk s \<mapsto> m)))"
  using assms
  by (auto simp: message_create_def sys_malloc_def strdup_def sys_try_def new_message_def Let_def
      split: option.split_asm if_split_asm)

lemma same_mset:
  assumes "mset xs = mset ys"
  shows "distinct xs = distinct ys" "set xs = set ys"
  using mset_eq_imp_distinct_iff [OF assms] mset_eq_setD [OF assms] by simp_all

text \<open>Whatever frees what one wrapper owns, and keeps the rest, keeps the invariant.\<close>

lemma release_inv:
  assumes inv: "wrappers_inv D (ws, s)" and rest: "mset (owned w) + mset (owners vs) = mset (owners ws)"
  shows "\<exists>s'. message_destroy w s = Inr s' \<and> wrappers_inv D (vs, s')"
proof (cases "owned w")
  case Nil
  then have "message_destroy w s = Inr s" by (auto simp: message_destroy_def owned_def split: option.split_asm if_split_asm)
  moreover have "distinct (owners vs) = distinct (owners ws)" "set (owners vs) = set (owners ws)"
    using Nil rest same_mset [of "owners vs" "owners ws"] by simp_all
  ultimately show ?thesis using inv by (simp add: wrappers_inv_def)
next
  case (Cons a as)
  then have w: "m_owned w" "m_msg w = Some a" "owned w = [a]"
    by (auto simp: owned_def split: option.split_asm if_split_asm)
  have m: "mset (owners ws) = mset (a # owners vs)" using rest w(3) by simp
  have o: "distinct (owners ws) = distinct (a # owners vs)" "set (owners ws) = set (a # owners vs)"
    by (fact same_mset [OF m])+
  have d: "dom (msgs s) = D \<union> set (owners ws)" "distinct (owners ws)" "set (owners ws) \<inter> D = {}" "\<forall>a\<ge>brk s. msgs s a = None"
    using inv by (simp_all add: wrappers_inv_def)
  have a: "a \<in> dom (msgs s)" "a \<notin> D" "a \<notin> set (owners vs)" using d o by auto
  then have "message_destroy w s = Inr (s\<lparr>msgs := (msgs s)(a := None)\<rparr>)"
    using w by (auto simp: message_destroy_def message_free_def)
  moreover have "dom ((msgs s)(a := None)) = D \<union> set (owners vs)" using d(1) a o(2) by auto
  ultimately show ?thesis using d o by (auto simp: wrappers_inv_def)
qed

lemma message_move_eq: "message_move w = (w, moved_from)"
  by (cases w) (simp add: message_move_def)

lemma move_assign_destroy:
  "message_move_assign False x y s = ebind (message_destroy x s) (\<lambda>s. Inr ((y, moved_from), s))"
  by (cases x; cases y) (simp add: message_move_assign_def message_destroy_def)

lemma wrapper_step_inv:
  assumes inv: "wrappers_inv D st" and step: "wrapper_step st st'"
  shows "wrappers_inv D st'"
  using step
proof cases
  case (create ex rk d n s w s' ws)
  then obtain m where "m_msg w = Some (brk s)" "m_owned w" "brk s' = Suc (brk s)" "msgs s' = (msgs s)(brk s \<mapsto> m)"
    by (auto simp: message_new_def dest: message_create_dom split: if_split_asm)
  with inv create(1,2) show ?thesis by (auto simp: wrappers_inv_def owned_def)
next
  case (create_throws ex rk d n s e s' ws)
  then have "brk s' = brk s" "msgs s' = msgs s"
    by (auto simp: message_new_def dest: message_create_dom split: if_split_asm)
  with inv create_throws(1,2) show ?thesis by (simp add: wrappers_inv_def)
next
  case (move i ws new left s)
  have "new = ws ! i" "left = moved_from" using move(4) by (simp_all add: message_move_eq)
  then have "mset (owners (ws[i := left] @ [new])) = mset (owners ws)"
    using owners_update [OF move(3), of left] by (simp add: ac_simps)
  note m = same_mset [OF this]
  show ?thesis using inv unfolding move(1,2) wrappers_inv_def prod.case m by blast
next
  case (assign i ws j s x y s')
  show ?thesis
  proof (cases "i = j")
    case True
    with assign inv show ?thesis by (auto simp: message_move_assign_def)
  next
    case False
    with assign(5) have d: "message_destroy (ws ! i) s = Inr s'" "x = ws ! j" "y = moved_from"
      by (auto simp: move_assign_destroy)
    have "mset (owned (ws ! i)) + mset (owners (ws[i := ws ! j])) = mset (owned (ws ! j)) + mset (owners ws)"
      by (rule owners_update [OF assign(3)])
    moreover have "mset (owned (ws ! j)) + mset (owners (ws[i := ws ! j, j := moved_from])) =
        mset (owners (ws[i := ws ! j]))"
      using owners_update [of j "ws[i := ws ! j]" moved_from] assign(4) False by simp
    ultimately have "mset (owned (ws ! i)) + mset (owners (ws[i := x, j := y])) = mset (owners ws)"
      unfolding d(2,3) by (metis add_left_imp_eq group_cancel.add2)
    from release_inv [OF _ this, of D s] inv assign(1,2) d(1) show ?thesis by auto
  qed
next
  case (destroy i ws s s')
  from release_inv [OF _ owners_remove [OF destroy(3)], of D s] inv destroy show ?thesis by auto
qed

interpretation wrappers: invariant_system
  "\<lambda>st. fst st = [] \<and> (\<forall>a\<ge>brk (snd st). msgs (snd st) a = None) \<and> dom (msgs (snd st)) = D" wrapper_step "wrappers_inv D" for D
proof
  show "wrappers_inv D st"
    if "fst st = [] \<and> (\<forall>a\<ge>brk (snd st). msgs (snd st) a = None) \<and> dom (msgs (snd st)) = D" for st
    using that by (cases st) (simp add: wrappers_inv_def)
qed (rule wrapper_step_inv)

subsection \<open>What the operations leave alone\<close>

definition same_conns :: "'z cmem_scheme \<Rightarrow> 'z cmem_scheme \<Rightarrow> bool" where
  "same_conns s s' \<longleftrightarrow> connections s' = connections s \<and> open_fds s' = open_fds s \<and> receivers s' = receivers s"

definition same_objects :: "'z clmem_scheme \<Rightarrow> 'z clmem_scheme \<Rightarrow> bool" where
  "same_objects s s' \<longleftrightarrow> clients s' = clients s \<and> contexts s' = contexts s \<and> promises s' = promises s"

lemma same_refl [simp]: "same_conns s s" "same_objects t t"
  by (simp_all add: same_conns_def same_objects_def)

lemma same_trans: "same_conns s t \<Longrightarrow> same_conns t u \<Longrightarrow> same_conns s u"
  "same_objects s' t' \<Longrightarrow> same_objects t' u' \<Longrightarrow> same_objects s' u'"
  by (simp_all add: same_conns_def same_objects_def)

lemma mem_step_same:
  assumes "mem_step s s'"
  shows "same_conns s s'"
  using mem_step_cmem [OF assms] by (simp add: same_conns_def)

lemma more_same_objects: "cmem.more s' = cmem.more s \<Longrightarrow> same_objects s s'"
  by (cases s; cases s') (simp add: same_objects_def)

lemma mem_step_objects: "mem_step s s' \<Longrightarrow> same_objects s s'" for s :: "'z clmem_scheme"
  by (rule more_same_objects [OF mem_step_cmem(7)])

lemma destroy_same:
  assumes "message_destroy w s = Inr s'"
  shows "mem_step s s'"
  using assms by (auto simp: message_destroy_def split: if_split_asm dest: message_free_frame)

lemma new_same: "message_new ex rk d n s = Inr (r, s') \<Longrightarrow> mem_step s s'"
  by (auto simp: message_new_def split: if_split_asm dest!: message_create_frame)

lemma send_same:
  fixes s :: "'z clmem_scheme"
  assumes "connection_send p m s = Inr (r, s')"
  shows "same_conns s s'" "same_objects s s'"
  using send_frame [OF assms] by (auto simp: same_conns_def intro!: more_same_objects)

lemma mem_step_qmem: "mem_step s s' \<Longrightarrow> qmem.more s' = qmem.more s"
  by (cases s; cases s') (simp add: mem_step_def)

lemma put_queue_more [simp]: "qmem.more (put_queue a q s) = qmem.more s"
  by (simp add: put_queue_def)

lemma queue_more_same:
  fixes s :: "'z clmem_scheme"
  assumes "qmem.more s' = qmem.more s"
  shows "same_conns s s' \<and> same_objects s s'"
  using assms by (cases s; cases s') (simp add: same_conns_def same_objects_def)

lemma queue_ack_same: "queue_ack p tag s = Inr (r, s') \<Longrightarrow> qmem.more s' = qmem.more s"
  by (auto simp: queue_ack_def split: option.split_asm dest!: message_free_frame mem_step_qmem)

lemma queue_reject_same: "queue_reject p tag f s = Inr (r, s') \<Longrightarrow> qmem.more s' = qmem.more s"
  by (auto simp: queue_reject_def Let_def split: option.split_asm if_split_asm dest!: message_free_frame mem_step_qmem)

text \<open>Connecting and disconnecting change a connection, but not its callbacks.\<close>

lemma connect_keeps:
  assumes "connection_connect env (Some a) s = Inr (r, s')" and "connections s a = Some con"
  shows "cmem.more s' = cmem.more s \<and> (\<exists>con'. connections s' a = Some con' \<and> on_message con' = on_message con \<and>
    callback_context con' = callback_context con)"
  using assms
  by (auto simp: connection_connect_def connect_failed_def sys_try_def Let_def split: if_split_asm)

lemma disconnect_keeps:
  assumes "connection_disconnect (Some a) s = Inr (r, s')" and "connections s a = Some con"
  shows "cmem.more s' = cmem.more s \<and> (\<exists>con'. connections s' a = Some con' \<and> on_message con' = on_message con \<and>
    callback_context con' = callback_context con)"
  using assms by (auto simp: connection_disconnect_def disconnect_finish_def Let_def split: if_split_asm)

subsection \<open>A client\<close>

text \<open>
  Consumer code that uses the client only through calls that keep its objects: it publishes,
  acknowledges and rejects, and does not connect, disconnect, consume or get.
\<close>

definition tame :: "('z clmem_scheme) consumer_code \<Rightarrow> bool" where
  "tame code \<longleftrightarrow>
     (\<forall>k w s r left s'. code k w s = Inr (r, left, s') \<longrightarrow> same_conns s s' \<and> same_objects s s')"

inductive client_step :: "('z clmem_scheme) consumer_code \<Rightarrow> addr \<Rightarrow> 'z clmem_scheme \<Rightarrow> 'z clmem_scheme \<Rightarrow> bool"
  for code this where
  connect: "client_connect env this s = Inr (r, s') \<Longrightarrow> client_step code this s s'"
| disconnect: "client_disconnect this s = Inr s' \<Longrightarrow> client_step code this s s'"
| publish: "publish this ex rk d n s = Inr (r, s') \<Longrightarrow> client_step code this s s'"
| publish_message: "publish_message this w s = Inr (r, s') \<Longrightarrow> client_step code this s s'"
| consume: "consume this q k s = Inr (r, s') \<Longrightarrow> client_step code this s s'"
| get_begin: "get_begin this q s = Inr (r, s') \<Longrightarrow> client_step code this s s'"
| get_end: "clients s this = Some c \<Longrightarrow> get_end (m_context c) p s = Inr (r, s') \<Longrightarrow> client_step code this s s'"
| ack: "ack this w s = Inr (r, s') \<Longrightarrow> client_step code this s s'"
| reject: "reject this w f s = Inr (r, s') \<Longrightarrow> client_step code this s s'"
| receive: "clients s this = Some c \<Longrightarrow> m_conn c = Some a \<Longrightarrow> client_receive code err a s = Inr (r, s') \<Longrightarrow>
    client_step code this s s'"
| declares: "declareQueue this q cap f s = Inr s1 \<Longrightarrow> declareExchange this e t s1 = Inr s2 \<Longrightarrow>
    bindQueue this q e rk s2 = Inr s' \<Longrightarrow> client_step code this s s'"

inductive_cases client_stepE: "client_step code this s s'"

text \<open>
  The invariant: the client has its connection, whose callbacks lead to its context, no
  queue, a delivery tag of 0, and no pointer to a promise that is gone or has its value.
\<close>

definition client_objects :: "Client \<Rightarrow> addr \<Rightarrow> addr \<Rightarrow> ClientContext \<Rightarrow> addr \<Rightarrow> 'z clmem_scheme \<Rightarrow> bool" where
  "client_objects c a ca ctx this s \<longleftrightarrow>
     clients s this = Some c \<and> m_conn c = Some a \<and> m_context c = Some ca \<and> m_queues c = Map.empty \<and>
     contexts s ca = Some ctx \<and> lastDeliveryTag ctx = 0 \<and>
     (\<forall>p. messagePromise ctx = Some p \<longrightarrow> promises s p = Some None)"

definition client_wired :: "addr \<Rightarrow> addr \<Rightarrow> 'z cmem_scheme \<Rightarrow> bool" where
  "client_wired a ca s \<longleftrightarrow>
     conn_inv a s \<and> (\<exists>con. connections s a = Some con \<and> on_message con = Some onMessageCallback_fn \<and>
       callback_context con = Some ca)"

definition client_inv :: "addr \<Rightarrow> 'z clmem_scheme \<Rightarrow> bool" where
  "client_inv this s \<longleftrightarrow> (\<exists>c a ca ctx. client_objects c a ca ctx this s \<and> client_wired a ca s)"

lemma client_wired_same: "same_conns s s' \<Longrightarrow> client_wired a ca s \<Longrightarrow> client_wired a ca s'"
  by (simp add: same_conns_def client_wired_def conn_inv_def)

lemma client_objects_same: "same_objects s s' \<Longrightarrow> client_objects c a ca ctx this s \<Longrightarrow> client_objects c a ca ctx this s'"
  by (simp add: same_objects_def client_objects_def)

lemma client_inv_same: "same_conns s s' \<Longrightarrow> same_objects s s' \<Longrightarrow> client_inv this s \<Longrightarrow> client_inv this s'"
  unfolding client_inv_def using client_wired_same client_objects_same by blast

text \<open>The test of the connection never faults and changes nothing.\<close>

lemma if_connected_eq:
  assumes "client_objects c a ca ctx this s" and "connections s a = Some con"
  shows "if_connected this f s =
    (if conn_status con = CONNECTION_STATUS_CONNECTED then f c s else Inr (Throw ''Not connected to broker'', s))"
  using assms by (simp add: if_connected_def isConnected_def connection_get_status_def client_objects_def)

lemma with_queue_throws:
  assumes "client_objects c a ca ctx this s"
  shows "\<exists>e. with_queue e1 e2 f c s = Inr (Throw e, s)"
  using assms by (simp add: with_queue_def client_objects_def)

lemma if_connected_cases:
  assumes "if_connected this f s = Inr (r, s')"
  obtains "s' = s" and "r = Throw ''Not connected to broker''" | c where "clients s this = Some c" and "f c s = Inr (r, s')"
  using assms by (auto simp: if_connected_def deref_Inr_iff split: if_split_asm)

lemma with_queue_same:
  assumes "with_queue e1 e2 f c s = Inr (r, s')" and "\<And>qa r s'. f qa s = Inr (r, s') \<Longrightarrow> same_conns s s' \<and> same_objects s s'"
  shows "same_conns s s' \<and> same_objects s s'"
  using assms by (auto simp: with_queue_def split: if_split_asm option.split_asm)

lemma ack_same:
  assumes "ack this w s = Inr (r, s')"
  shows "same_conns s s' \<and> same_objects s s'"
  using assms unfolding ack_def
proof (elim if_connected_cases)
  fix c
  assume "with_queue ''No active queue for acknowledgment'' ''Queue not found for acknowledgment''
     (\<lambda>qa s. ebind (queue_ack (Some qa) (getDeliveryTag w) s) (\<lambda>(ok, s).
        Inr (if ok then Value () else Throw ''Failed to acknowledge message'', s))) c s = Inr (r, s')"
  then show ?thesis by (rule with_queue_same) (auto dest!: queue_ack_same queue_more_same)
qed simp

lemma reject_same:
  assumes "reject this w f s = Inr (r, s')"
  shows "same_conns s s' \<and> same_objects s s'"
  using assms unfolding reject_def
proof (elim if_connected_cases)
  fix c
  assume "with_queue ''No active queue for rejection'' ''Queue not found for rejection''
     (\<lambda>qa s. ebind (queue_reject (Some qa) (getDeliveryTag w) f s) (\<lambda>(ok, s).
        Inr (if ok then Value () else Throw ''Failed to reject message'', s))) c s = Inr (r, s')"
  then show ?thesis by (rule with_queue_same) (auto dest!: queue_reject_same queue_more_same)
qed simp

text \<open>The consumer of the example program is tame.\<close>

lemma tame_ack_onMessage: "tame (ack_onMessage success)"
  unfolding tame_def
proof (intro allI impI)
  fix k w and s :: "'z exmem_scheme" and r left s'
  assume "ack_onMessage success k w s = Inr (r, left, s')"
  then consider "s' = s" | c x where "ack c w s = Inr (x, s')" | c x where "reject c w True s = Inr (x, s')"
    by (auto simp: ack_onMessage_def split: if_split_asm)
  then show "same_conns s s' \<and> same_objects s s'"
    by cases (auto dest: ack_same reject_same)
qed

lemma publish_message_same:
  assumes "publish_message this w s = Inr (r, s')"
  shows "same_conns s s' \<and> same_objects s s'"
  using assms unfolding publish_message_def
  by (elim if_connected_cases) (auto dest: send_same)

lemma publish_same:
  assumes "publish this ex rk d n s = Inr (r, s')"
  shows "same_conns s s' \<and> same_objects s s'"
  using assms unfolding publish_def
proof (elim if_connected_cases)
  fix c
  assume "ebind (message_new ex rk d n s) (\<lambda>(r, s). case r of
         Throw e \<Rightarrow> Inr (Throw e, s)
       | Value w \<Rightarrow> ebind (publish_message this w s) (\<lambda>(r, s). ebind (message_destroy w s) (\<lambda>s. Inr (r, s)))) =
     Inr (r, s')"
  then obtain x s1 where 1: "message_new ex rk d n s = Inr (x, s1)"
    "(case x of Throw e \<Rightarrow> Inr (Throw e, s1)
       | Value w \<Rightarrow> ebind (publish_message this w s1) (\<lambda>(r, s). ebind (message_destroy w s) (\<lambda>s. Inr (r, s)))) =
     Inr (r, s')" by auto
  note n = new_same [OF 1(1)]
  show ?thesis
  proof (cases x)
    case (Value w)
    with 1(2) obtain r2 s2 where "publish_message this w s1 = Inr (r2, s2)" "message_destroy w s2 = Inr s'" by auto
    from publish_message_same [OF this(1)] destroy_same [OF this(2)] n mem_step_same mem_step_objects same_trans
    show ?thesis by metis
  next
    case (Throw e)
    with 1(2) n show ?thesis using mem_step_same mem_step_objects by auto
  qed
qed simp

lemma context_inv:
  assumes "client_objects c a ca ctx this s" and "client_wired a ca s" and "contexts s ca = Some ctx"
    and "lastDeliveryTag ctx' = 0" and "\<forall>p. messagePromise ctx' = Some p \<longrightarrow> h p = Some None"
    and "s' = s\<lparr>brk := b, promises := h, contexts := (contexts s)(ca \<mapsto> ctx')\<rparr>"
  shows "client_inv this s'"
proof -
  have "client_objects c a ca ctx' this s'" using assms(1,4,5) by (simp add: client_objects_def assms(6))
  moreover have "client_wired a ca s'" using assms(2) by (simp add: client_wired_def conn_inv_def assms(6))
  ultimately show ?thesis unfolding client_inv_def by blast
qed

lemma consume_inv:
  assumes "client_inv this s" and "consume this q k s = Inr (r, s')"
  shows "client_inv this s'"
  using assms(2) unfolding consume_def
proof (elim if_connected_cases)
  assume "s' = s"
  with assms(1) show ?thesis by simp
next
  fix c
  assume c: "clients s this = Some c"
    and e: "ebind (deref (contexts s) (m_context c)) (\<lambda>ctx. Inr (Value (), put_context (the (m_context c))
         (ctx\<lparr>ctx_consumer := k, currentQueue := q\<rparr>) s)) = Inr (r, s')"
  from assms(1) c obtain a ca ctx where o: "client_objects c a ca ctx this s" "client_wired a ca s"
    by (auto simp: client_inv_def client_objects_def)
  then have eq: "s' = s\<lparr>brk := brk s, promises := promises s, contexts := (contexts s)(ca \<mapsto> ctx\<lparr>ctx_consumer := k, currentQueue := q\<rparr>)\<rparr>"
    using e by (auto simp: client_objects_def put_context_def)
  with o show ?thesis by (intro context_inv [OF o _ _ _ eq]) (auto simp: client_objects_def)
qed

lemma get_begin_inv:
  assumes "client_inv this s" and "get_begin this q s = Inr (r, s')"
  shows "client_inv this s'"
  using assms(2) unfolding get_begin_def
proof (elim if_connected_cases)
  assume "s' = s"
  with assms(1) show ?thesis by simp
next
  fix c
  assume c: "clients s this = Some c"
    and e: "ebind (deref (contexts s) (m_context c)) (\<lambda>ctx.
       let p = brk s; s = s\<lparr>brk := Suc p, promises := (promises s)(p \<mapsto> None)\<rparr> in
       Inr (Value (m_context c, p),
         put_context (the (m_context c)) (ctx\<lparr>currentQueue := q, messagePromise := Some p\<rparr>) s)) = Inr (r, s')"
  from assms(1) c obtain a ca ctx where o: "client_objects c a ca ctx this s" "client_wired a ca s"
    by (auto simp: client_inv_def client_objects_def)
  then have eq: "s' = s\<lparr>brk := Suc (brk s), promises := (promises s)(brk s \<mapsto> None),
      contexts := (contexts s)(ca \<mapsto> ctx\<lparr>currentQueue := q, messagePromise := Some (brk s)\<rparr>)\<rparr>"
    using e by (auto simp: client_objects_def put_context_def Let_def)
  with o show ?thesis by (intro context_inv [OF o _ _ _ eq]) (auto simp: client_objects_def)
qed

lemma get_end_inv:
  assumes "client_inv this s" and c: "clients s this = Some c" and e: "get_end (m_context c) p s = Inr (r, s')"
  shows "client_inv this s'"
proof -
  from assms(1) c obtain a ca ctx where o: "client_objects c a ca ctx this s" "client_wired a ca s"
    by (auto simp: client_inv_def client_objects_def)
  from e obtain sh where sh: "promises s p = Some sh" by (auto simp: get_end_def deref_Inr_iff)
  show ?thesis
  proof (cases sh)
    case None
    then have eq: "s' = s\<lparr>brk := brk s, promises := (promises s)(p := None),
        contexts := (contexts s)(ca \<mapsto> ctx\<lparr>messagePromise := None\<rparr>)\<rparr>"
      using e sh o(1) by (auto simp: get_end_def client_objects_def put_context_def Let_def)
    with o show ?thesis by (intro context_inv [OF o _ _ _ eq]) (auto simp: client_objects_def)
  next
    case (Some w)
    then have eq: "s' = s\<lparr>brk := brk s, promises := (promises s)(p := None), contexts := (contexts s)(ca \<mapsto> ctx)\<rparr>"
      using e sh o(1) by (auto simp: get_end_def client_objects_def Let_def fun_upd_idem)
    with o sh Some show ?thesis by (intro context_inv [OF o _ _ _ eq]) (auto simp: client_objects_def)
  qed
qed

lemma free_inv: "message_free p s = Inr s' \<Longrightarrow> client_inv this s \<Longrightarrow> client_inv this s'"
  by (metis client_inv_same mem_step_objects mem_step_same message_free_frame)

lemma destroy_wrapper_inv: "message_destroy w s = Inr s' \<Longrightarrow> client_inv this s \<Longrightarrow> client_inv this s'"
  by (metis client_inv_same mem_step_objects mem_step_same destroy_same)

lemma callback_inv:
  assumes code: "tame code" and inv: "client_inv this s" and o: "client_objects c a ca ctx this s"
    and r: "onMessageCallback code (Some ca) m s = Inr s'"
  shows "client_inv this s' \<and> clients s' = clients s \<and> connections s' = connections s"
proof -
  let ?P = "\<lambda>t. client_inv this t \<and> clients t = clients s \<and> connections t = connections s"
  have free: "?P t'" if "message_free q t = Inr t'" "?P t" for q t t'
    using free_inv [OF that(1)] mem_step_same [OF message_free_frame [OF that(1)]]
      mem_step_objects [OF message_free_frame [OF that(1)]] that(2)
    by (simp add: same_conns_def same_objects_def)
  have destroy: "?P t'" if "message_destroy w t = Inr t'" "?P t" for w t t'
    using free [of "m_msg w" t t'] that by (auto simp: message_destroy_def split: if_split_asm)
  have ctx: "contexts s ca = Some ctx" using o by (simp add: client_objects_def)
  show ?thesis
  proof (cases "messagePromise ctx")
    case None
    show ?thesis
    proof (cases "ctx_consumer ctx")
      case None
      with \<open>messagePromise ctx = None\<close> r ctx have "message_free m s = Inr s'"
        by (simp add: onMessageCallback_def)
      from free [OF this] inv show ?thesis by simp
    next
      case (Some k)
      with None r ctx show ?thesis
      proof (cases "message_wrap m True (lastDeliveryTag ctx)")
        case (Throw e)
        with None Some r ctx have "message_free m s = Inr s'" by (simp add: onMessageCallback_def)
        from free [OF this] inv show ?thesis by simp
      next
        case (Value w)
        with None Some r ctx obtain x left s1 s2 where 1: "code k w s = Inr (x, left, s1)"
          "message_destroy left s1 = Inr s2" "s' = s2 \<or> message_free m s2 = Inr s'"
          by (auto simp: onMessageCallback_def split: outcome.split_asm) (metis outcome.exhaust unit.exhaust)
        have "?P s1" using code 1(1) inv client_inv_same [of s s1 this]
          unfolding tame_def same_conns_def same_objects_def by metis
        then have "?P s2" by (rule destroy [OF 1(2)])
        with 1(3) free show ?thesis by blast
      qed
    qed
  next
    case (Some p)
    show ?thesis
    proof (cases "message_wrap m True (lastDeliveryTag ctx)")
      case (Throw e)
      with Some r ctx have "message_free m s = Inr s'" by (simp add: onMessageCallback_def)
      from free [OF this] inv show ?thesis by simp
    next
      case (Value w)
      have pr: "promises s p = Some None" using o Some by (simp add: client_objects_def)
      have eq: "s' = s\<lparr>brk := brk s, promises := (promises s)(p \<mapsto> Some w),
          contexts := (contexts s)(ca \<mapsto> ctx\<lparr>messagePromise := None\<rparr>)\<rparr>"
        using Some Value r ctx pr
        by (auto simp: onMessageCallback_def set_value_def message_move_eq message_destroy_def moved_from_def
            put_context_def)
      obtain a' where "client_wired a' ca s" "m_conn c = Some a'"
        using inv o by (auto simp: client_inv_def client_objects_def)
      then have "client_wired a ca s" using o by (simp add: client_objects_def)
      from context_inv [OF o this _ _ _ eq] o show ?thesis by (auto simp: client_objects_def eq)
    qed
  qed
qed

lemma run_callbacks_inv:
  assumes code: "tame code" and inv: "client_inv this s" and c: "clients s this = Some c" "m_context c = Some ca"
    and cbs: "\<forall>f ctx m. Message_Callback f ctx m \<in> set cbs \<longrightarrow> ctx = Some ca"
    and r: "for_loop (run_callback code) cbs s = Inr s'"
  shows "client_inv this s'"
proof -
  have "client_inv this s' \<and> clients s' = clients s"
    using r
  proof (rule for_loop_partial)
    show "client_inv this s \<and> clients s = clients s" using inv by simp
    fix cb t t'
    assume "cb \<in> set cbs" and t: "client_inv this t \<and> clients t = clients s" and r: "run_callback code cb t = Inr t'"
    then obtain c' a' ca' ctx' where "client_objects c' a' ca' ctx' this t" by (auto simp: client_inv_def)
    with t c have o: "client_objects c' a' ca ctx' this t" by (auto simp: client_objects_def)
    show "client_inv this t' \<and> clients t' = clients s"
    proof (cases cb)
      case (Message_Callback f ctx m)
      with cbs \<open>cb \<in> set cbs\<close> have "ctx = Some ca" by blast
      with Message_Callback r t callback_inv [OF code _ o] show ?thesis
        by (auto simp: run_callback_def split: if_split_asm)
    qed (use r t in \<open>auto simp: run_callback_def\<close>)
  qed
  then show ?thesis by simp
qed

lemma ack_throws:
  assumes "client_objects c a ca ctx this s" and "connections s a = Some con"
  shows "\<exists>e. ack this w s = Inr (Throw e, s)" and "\<exists>e. reject this w f s = Inr (Throw e, s)"
  unfolding ack_def reject_def if_connected_eq [OF assms]
  using with_queue_throws [OF assms(1)] by simp_all

lemma client_step_inv:
  assumes code: "tame code" and inv: "client_inv this s" and step: "client_step code this s s'"
  shows "client_inv this s'"
proof -
  from inv obtain c a ca ctx con where o: "client_objects c a ca ctx this s" and w: "client_wired a ca s"
    and con: "connections s a = Some con" "on_message con = Some onMessageCallback_fn" "callback_context con = Some ca"
    by (auto simp: client_inv_def client_wired_def)
  have conn: "client_inv this t"
    if "conn_inv a t" "cmem.more t = cmem.more s"
      "\<exists>con'. connections t a = Some con' \<and> on_message con' = on_message con \<and> callback_context con' = callback_context con" for t
  proof -
    have "client_objects c a ca ctx this t" by (rule client_objects_same [OF more_same_objects [OF that(2)] o])
    moreover have "client_wired a ca t" using that con by (auto simp: client_wired_def)
    ultimately show ?thesis unfolding client_inv_def by blast
  qed
  have ci: "conn_inv a s" using w by (simp add: client_wired_def)
  have c: "clients s this = Some c" "m_conn c = Some a" "m_context c = Some ca"
    using o by (simp_all add: client_objects_def)
  from step show ?thesis
  proof cases
    case (connect env r)
    then have "connection_connect env (Some a) s = Inr (r, s')" using c by (simp add: client_connect_def)
    with connect_inv [OF ci this] connect_keeps [OF this con(1)] show ?thesis by (intro conn) auto
  next
    case disconnect
    then obtain r where "connection_disconnect (Some a) s = Inr (r, s')" using c by (auto simp: client_disconnect_def)
    with disconnect_inv [OF ci this] disconnect_keeps [OF this con(1)] show ?thesis by (intro conn) auto
  next
    case (receive c' a' err r)
    then obtain s1 where 1: "connection_receiver_thread err a s = Inr (r, s1)"
      "for_loop (run_callback code) (drop (length (callbacks s)) (callbacks s1)) s1 = Inr s'"
      using c by (auto simp: client_receive_def)
    from receiver_cases [OF 1(1) con(1)] obtain cbs where
      k: "cmem.more s1 = cmem.more s" "callbacks s1 = callbacks s @ cbs"
        "\<forall>f ctx m. Message_Callback f ctx m \<in> set cbs \<longrightarrow> ctx = callback_context con"
        "\<exists>con'. connections s1 a = Some con' \<and> on_message con' = on_message con \<and> callback_context con' = callback_context con"
      using con(1) by (auto split: if_split_asm)
    have "client_inv this s1" by (rule conn [OF receiver_inv [OF ci 1(1)] k(1,4)])
    moreover have "clients s1 this = Some c" using more_same_objects [OF k(1)] c by (simp add: same_objects_def)
    ultimately show ?thesis using run_callbacks_inv [OF code _ _ c(3) _ 1(2)] k(2,3) con(3) by simp
  next
    case (publish ex rk d n r)
    with publish_same client_inv_same inv show ?thesis by blast
  next
    case (publish_message w r)
    with publish_message_same client_inv_same inv show ?thesis by blast
  next
    case (ack w r)
    with ack_throws [OF o con(1)] inv show ?thesis by (metis Inr_inject prod.inject)
  next
    case (reject w f r)
    with ack_throws [OF o con(1)] inv show ?thesis by (metis Inr_inject prod.inject)
  next
    case (declares q cap f s1 e t s2 rk)
    with inv show ?thesis by (simp add: declareQueue_def declareExchange_def bindQueue_def)
  qed (use inv in \<open>auto intro: consume_inv get_begin_inv get_end_inv\<close>)
qed

text \<open>A client as its constructor leaves it, when no system call fails.\<close>

definition client_fresh :: "addr \<Rightarrow> 'z clmem_scheme \<Rightarrow> bool" where
  "client_fresh this s \<longleftrightarrow> (\<exists>options s0. sys_fine s0 \<and> client_new this options s0 = Inr (Value (), s))"

lemma client_new_eq:
  assumes "sys_fine s"
  shows "\<exists>k. client_new this options s = Inr (Value (), s\<lparr>sys_calls := k, brk := Suc (Suc (brk s)),
    connections := (connections s)(brk s \<mapsto> \<lparr>socket_fd = -1, host = Some (cstr (opt_host options)),
      port = opt_port options, conn_status = CONNECTION_STATUS_DISCONNECTED, receiver_thread = False,
      conn_running = 0, on_connect = Some onConnectCallback_fn, on_disconnect = Some onDisconnectCallback_fn,
      on_message = Some onMessageCallback_fn, callback_context = Some (Suc (brk s))\<rparr>),
    contexts := (contexts s)(Suc (brk s) \<mapsto> \<lparr>ctx_consumer = None, messagePromise = None, currentQueue = [], lastDeliveryTag = 0\<rparr>),
    clients := (clients s)(this \<mapsto> \<lparr>m_conn = Some (brk s), m_consumer = None, m_context = Some (Suc (brk s)),
      m_autoAck = opt_autoAck options, m_queues = Map.empty\<rparr>)\<rparr>)"
  using assms
  by (cases s) (simp add: client_new_def connection_create_def sys_malloc_def strdup_def sys_try_def sys_fine_def Let_def
      put_conn_def put_context_def put_client_def connection_set_on_connect_def connection_set_on_disconnect_def
      connection_set_on_message_def set_callback_def)

lemma client_fresh_inv:
  assumes "client_fresh this s"
  shows "client_inv this s"
proof -
  from assms obtain options s0 where 0: "sys_fine s0" "client_new this options s0 = Inr (Value (), s)"
    by (auto simp: client_fresh_def)
  let ?c = "\<lparr>m_conn = Some (brk s0), m_consumer = None, m_context = Some (Suc (brk s0)),
      m_autoAck = opt_autoAck options, m_queues = Map.empty\<rparr>"
  let ?ctx = "\<lparr>ctx_consumer = None, messagePromise = None, currentQueue = [], lastDeliveryTag = 0\<rparr>"
  from client_new_eq [OF 0(1), of this options] 0(2) have f: "clients s this = Some ?c" "contexts s (Suc (brk s0)) = Some ?ctx"
    "connections s (brk s0) = Some \<lparr>socket_fd = -1, host = Some (cstr (opt_host options)),
      port = opt_port options, conn_status = CONNECTION_STATUS_DISCONNECTED, receiver_thread = False,
      conn_running = 0, on_connect = Some onConnectCallback_fn, on_disconnect = Some onDisconnectCallback_fn,
      on_message = Some onMessageCallback_fn, callback_context = Some (Suc (brk s0))\<rparr>"
    by auto
  then have "client_objects ?c (brk s0) (Suc (brk s0)) ?ctx this s" by (simp add: client_objects_def)
  moreover have "client_wired (brk s0) (Suc (brk s0)) s" using f by (simp add: client_wired_def conn_inv_def)
  ultimately show ?thesis unfolding client_inv_def by blast
qed

text \<open>
  The interpretation. The state machine is that of consumer code that is tame; other code
  makes no step.
\<close>

interpretation client: invariant_system "client_fresh this" "\<lambda>s t. tame code \<and> client_step code this s t" "client_inv this"
  for this code
  by unfold_locales (auto intro: client_fresh_inv client_step_inv)

lemma client_reach:
  assumes "client_fresh this s0" and "tame code" and "(client_step code this)\<^sup>*\<^sup>* s0 s"
  shows "client_inv this s"
proof -
  have "(\<lambda>s t. tame code \<and> client_step code this s t) = client_step code this" using assms(2) by (simp add: fun_eq_iff)
  with assms(3) show ?thesis using client.steps_inv [of code this s0 s] client.inv_init [OF assms(1)] by simp
qed

end
