(* ===== verification/Client_Runs.thy ===== *)
theory Client_Runs
  imports Client_Safety
begin

text \<open>
  Runs of the C++ wrapper and of the example programs when no system call fails and the
  kernel accepts what is sent: publishing, receiving, and the life of a client from its
  construction to its destruction.
\<close>

subsection \<open>Publishing\<close>

text \<open>The message that the arguments of \<open>publish\<close> stand for.\<close>

definition new_msg :: "byte list \<Rightarrow> byte list \<Rightarrow> byte list \<Rightarrow> Message" where
  "new_msg ex rk d = \<lparr>exchange = Some (cstr ex), routing_key = Some (cstr rk),
     body = (if d = [] then None else Some d), body_size = length d, priority = 0, expiration = 0, persistent = 0\<rparr>"

text \<open>What is small enough for the wire.\<close>

definition small_args :: "byte list \<Rightarrow> byte list \<Rightarrow> byte list \<Rightarrow> bool" where
  "small_args ex rk d \<longleftrightarrow> length ex < 2 ^ 32 - 1 \<and> length rk < 2 ^ 32 - 1 \<and> length d < 2 ^ 32"

lemma new_msg_wire:
  assumes "small_args ex rk d"
  shows "wire_ok (new_msg ex rk d)"
proof -
  have "length (cstr xs) \<le> length xs" for xs :: string by (simp add: cstr_def length_takeWhile_le)
  then have "length (cstr ex) < 2 ^ 32 - 1" "length (cstr rk) < 2 ^ 32 - 1"
    using assms by (meson small_args_def order_le_less_trans)+
  then show ?thesis
    using assms by (simp add: wire_ok_def new_msg_def msg_complete_def msg_ok_def small_args_def)
qed

lemma message_new_fine:
  assumes "sys_fine s" and "length d < 2 ^ 63"
  shows "\<exists>k. message_new ex rk (Some d) (length d) s = Inr (Value \<lparr>m_msg = Some (brk s), m_owned = True, m_deliveryTag = 0\<rparr>,
    s\<lparr>sys_calls := k, msgs := (msgs s)(brk s \<mapsto> new_msg ex rk d), brk := Suc (brk s)\<rparr>)"
  using message_create_fine [OF assms(1), where b = "Some d" and n = "length d" and ex = ex and rk = rk] assms(2)
  by (auto simp: message_new_def new_msg_def)

text \<open>A client with its connection, and one that is connected.\<close>

definition connected_client :: "Connection \<Rightarrow> addr \<Rightarrow> 'z clmem_scheme \<Rightarrow> bool" where
  "connected_client con this s \<longleftrightarrow>
     (\<exists>c a. clients s this = Some c \<and> m_conn c = Some a \<and> connections s a = Some con) \<and>
     conn_status con = CONNECTION_STATUS_CONNECTED \<and> 0 \<le> socket_fd con"

lemma if_connected_runs:
  assumes "connected_client con this s" and "clients s this = Some c"
  shows "if_connected this f s = f c s"
  using assms by (auto simp: connected_client_def if_connected_def isConnected_def connection_get_status_def)

lemma connected_client_same:
  "clients t = clients s \<Longrightarrow> connections t = connections s \<Longrightarrow> connected_client con this t = connected_client con this s"
  by (simp add: connected_client_def)

lemma publish_message_runs:
  assumes conn: "connected_client con this s" and m: "msgs s a = Some m" "wire_ok m" and w: "m_msg w = Some a"
    and full: "full_sends (socks s)"
  shows "\<exists>n. publish_message this w s =
    Inr (Value (), s\<lparr>socks := sent (socket_fd con) (wire_image m) n (socks s)\<rparr>)"
proof -
  obtain c ca where c: "clients s this = Some c" "m_conn c = Some ca" "connections s ca = Some con"
    "conn_status con = CONNECTION_STATUS_CONNECTED" "0 \<le> socket_fd con"
    using conn by (auto simp: connected_client_def)
  have k: "msg_complete m" "length (the (exchange m)) < 2 ^ 32 - 1" "length (the (routing_key m)) < 2 ^ 32 - 1"
    using m(2) by (simp_all add: wire_ok_def)
  from send_message_full [OF full c(5) m(1) k] obtain n where
    "send_message_data (socket_fd con) (Some a) s (socks s) = Inr (True, sent (socket_fd con) (wire_image m) n (socks s))"
    by (auto simp: cut_body_id [OF m(2)])
  with c w show ?thesis
    by (auto simp: publish_message_def if_connected_runs [OF conn c(1)] connection_send_def getHandle_def)
qed

lemma publish_runs:
  assumes conn: "connected_client con this s" and fine: "sys_fine s" and full: "full_sends (socks s)"
    and fresh: "msgs s (brk s) = None" and small: "small_args ex rk d"
  shows "\<exists>k n. publish this ex rk (Some d) (length d) s = Inr (Value (), s\<lparr>sys_calls := k, brk := Suc (brk s),
    socks := sent (socket_fd con) (wire_image (new_msg ex rk d)) n (socks s)\<rparr>)"
proof -
  obtain c where c: "clients s this = Some c" using conn by (auto simp: connected_client_def)
  have "length d < 2 ^ 63" using small by (simp add: small_args_def)
  from message_new_fine [OF fine this] obtain k where
    1: "message_new ex rk (Some d) (length d) s = Inr (Value \<lparr>m_msg = Some (brk s), m_owned = True, m_deliveryTag = 0\<rparr>,
      s\<lparr>sys_calls := k, msgs := (msgs s)(brk s \<mapsto> new_msg ex rk d), brk := Suc (brk s)\<rparr>)" by blast
  define s1 where "s1 = s\<lparr>sys_calls := k, msgs := (msgs s)(brk s \<mapsto> new_msg ex rk d), brk := Suc (brk s)\<rparr>"
  have "connected_client con this s1" "full_sends (socks s1)" "msgs s1 (brk s) = Some (new_msg ex rk d)"
    using conn full by (simp_all add: s1_def connected_client_def)
  from publish_message_runs [OF this(1,3) new_msg_wire [OF small] _ this(2), of "\<lparr>m_msg = Some (brk s), m_owned = True, m_deliveryTag = 0\<rparr>"]
  obtain n where 2: "publish_message this \<lparr>m_msg = Some (brk s), m_owned = True, m_deliveryTag = 0\<rparr> s1 =
    Inr (Value (), s1\<lparr>socks := sent (socket_fd con) (wire_image (new_msg ex rk d)) n (socks s)\<rparr>)"
    by (auto simp: s1_def)
  define s2 where "s2 = s1\<lparr>socks := sent (socket_fd con) (wire_image (new_msg ex rk d)) n (socks s)\<rparr>"
  have "msgs s2 (brk s) \<noteq> None" by (simp add: s1_def s2_def)
  then have "publish this ex rk (Some d) (length d) s = Inr (Value (), s2\<lparr>msgs := (msgs s2)(brk s := None)\<rparr>)"
    using 1 2
    by (auto simp: publish_def if_connected_runs [OF conn c] s1_def [symmetric] s2_def [symmetric] message_destroy_def
        message_free_def)
  moreover have "s2\<lparr>msgs := (msgs s2)(brk s := None)\<rparr> = s\<lparr>sys_calls := k, brk := Suc (brk s),
    socks := sent (socket_fd con) (wire_image (new_msg ex rk d)) n (socks s)\<rparr>"
    using fresh by (simp add: s1_def s2_def fun_upd_idem)
  ultimately show ?thesis by (metis (no_types, lifting))
qed

subsection \<open>Receiving\<close>

text \<open>What a callback makes of a message: the wrapper that owns it.\<close>

definition wrapper_of :: "addr \<Rightarrow> u64 \<Rightarrow> CppMessage" where
  "wrapper_of a tag = \<lparr>m_msg = Some a, m_owned = True, m_deliveryTag = tag\<rparr>"

lemma wrap_message [simp]: "message_wrap (Some a) True tag = Value (wrapper_of a tag)"
  by (simp add: message_wrap_def wrapper_of_def)

lemma callback_consumer:
  assumes "contexts s ca = Some ctx" and "messagePromise ctx = None" and "ctx_consumer ctx = Some k"
  shows "onMessageCallback code (Some ca) (Some a) s =
    ebind (code k (wrapper_of a (lastDeliveryTag ctx)) s) (\<lambda>(r, left, s).
    ebind (message_destroy left s) (\<lambda>s. case r of Value _ \<Rightarrow> Inr s | Throw e \<Rightarrow> message_free (Some a) s))"
  using assms by (simp add: onMessageCallback_def ebind_assoc split_def cong: outcome.case_cong)

text \<open>
  A pass of the receiver that gets a whole message: the callback runs on the message, in the
  state after the connection's part.
\<close>

lemma receive_runs:
  assumes con: "connections s a = Some con" "conn_running con \<noteq> 0" "0 \<le> socket_fd con"
    and cb: "on_message con = Some onMessageCallback_fn"
    and sys: "full_recvs (socks s)" "sys_fine s"
    and p: "parse_message (inp (socks s) (socket_fd con)) = Some (m, rest)"
  shows "\<exists>k n e. client_receive code err a s =
    ebind (onMessageCallback code (callback_context con) (Some (brk s))
      (s\<lparr>sys_calls := k, msgs := (msgs s)(brk s \<mapsto> m), brk := Suc (brk s),
         socks := consumed (socket_fd con) rest n (socks s), errno := e,
         callbacks := callbacks s @ [Message_Callback onMessageCallback_fn (callback_context con) (brk s)]\<rparr>))
      (\<lambda>s. Inr (True, s))"
proof -
  from receive_message_full [OF sys con(3) p] obtain k n where
    r: "receive_message_data (socket_fd con) s (socks s) = Inr (Some (brk s), s\<lparr>sys_calls := k,
      msgs := (msgs s)(brk s \<mapsto> m), brk := Suc (brk s)\<rparr>, consumed (socket_fd con) rest n (socks s))"
    by blast
  define e where "e = errno_after err s (s\<lparr>sys_calls := k, msgs := (msgs s)(brk s \<mapsto> m), brk := Suc (brk s)\<rparr>)
      (consumed (socket_fd con) rest n (socks s))"
  have "connection_receiver_thread err a s = Inr (True, s\<lparr>sys_calls := k, msgs := (msgs s)(brk s \<mapsto> m), brk := Suc (brk s),
         socks := consumed (socket_fd con) rest n (socks s), errno := e,
         callbacks := callbacks s @ [Message_Callback onMessageCallback_fn (callback_context con) (brk s)]\<rparr>)"
    using r con cb by (simp add: connection_receiver_thread_def receiver_pass_def Let_def call_back_def e_def)
  then have "client_receive code err a s =
    ebind (onMessageCallback code (callback_context con) (Some (brk s))
      (s\<lparr>sys_calls := k, msgs := (msgs s)(brk s \<mapsto> m), brk := Suc (brk s),
         socks := consumed (socket_fd con) rest n (socks s), errno := e,
         callbacks := callbacks s @ [Message_Callback onMessageCallback_fn (callback_context con) (brk s)]\<rparr>))
      (\<lambda>s. Inr (True, s))"
    by (simp add: client_receive_def run_callback_def ebind_assoc)
  then show ?thesis by blast
qed

subsection \<open>The life of a client\<close>

text \<open>A process in which the addresses that come next are not in use.\<close>

definition fresh_process :: "addr \<Rightarrow> 'z clmem_scheme \<Rightarrow> bool" where
  "fresh_process this s \<longleftrightarrow>
     sys_fine s \<and> clients s this = None \<and> connections s (brk s) = None \<and> contexts s (Suc (brk s)) = None \<and>
     brk s \<notin> set (receivers s) \<and> (\<forall>a\<ge>brk s. msgs s a = None)"

text \<open>When connecting works, apart from the creation of the thread.\<close>

definition reaches :: "connect_env \<Rightarrow> bool" where
  "reaches env \<longleftrightarrow> 0 \<le> env_socket env \<and> env_resolved env \<and> env_connect env \<and> 0 < env_select env \<and> \<not> env_so_error env"

text \<open>
  \<open>t\<close> is \<open>s0\<close> with one client more, in state \<open>st\<close> and, when it is connected, on descriptor
  \<open>fd\<close>.
\<close>

definition holds_client :: "'z clmem_scheme \<Rightarrow> addr \<Rightarrow> ConnectionStatus \<Rightarrow> int \<Rightarrow> ClientContext \<Rightarrow> 'z clmem_scheme \<Rightarrow> bool" where
  "holds_client s0 this st fd ctx t \<longleftrightarrow>
     (\<exists>c con. clients t = (clients s0)(this \<mapsto> c) \<and> m_conn c = Some (brk s0) \<and> m_context c = Some (Suc (brk s0)) \<and>
        m_queues c = Map.empty \<and> connections t = (connections s0)(brk s0 \<mapsto> con) \<and> contexts t = (contexts s0)(Suc (brk s0) \<mapsto> ctx) \<and>
        host con \<noteq> None \<and> conn_status con = st \<and> on_connect con = Some onConnectCallback_fn \<and>
        on_message con = Some onMessageCallback_fn \<and> callback_context con = Some (Suc (brk s0)) \<and>
        (if st = CONNECTION_STATUS_CONNECTED
         then socket_fd con = fd \<and> 0 \<le> fd \<and> conn_running con \<noteq> 0 \<and> receiver_thread con \<and>
           open_fds t = open_fds s0 @ [fd] \<and> receivers t = receivers s0 @ [brk s0]
         else open_fds t = open_fds s0 \<and> receivers t = receivers s0)) \<and>
     sys_fine t \<and> promises t = promises s0"

lemma map_upd_same [simp]: "f(a \<mapsto> x) = f(a \<mapsto> y) \<longleftrightarrow> x = y"
  by (auto dest: map_upd_eqD1)

text \<open>What these operations leave alone.\<close>

definition same_rest :: "'z clmem_scheme \<Rightarrow> 'z clmem_scheme \<Rightarrow> bool" where
  "same_rest s t \<longleftrightarrow> msgs t = msgs s \<and> socks t = socks s \<and> queues t = queues s \<and> clmem.more t = clmem.more s"

definition new_context :: ClientContext where
  "new_context = \<lparr>ctx_consumer = None, messagePromise = None, currentQueue = [], lastDeliveryTag = 0\<rparr>"

lemma new_holds:
  assumes "fresh_process this s"
  shows "\<exists>t. client_new this options s = Inr (Value (), t) \<and>
    holds_client s this CONNECTION_STATUS_DISCONNECTED fd new_context t \<and> same_rest s t \<and> brk t = Suc (Suc (brk s))"
proof -
  have fine: "sys_fine s" using assms by (simp add: fresh_process_def)
  from client_new_eq [OF this, of this options] obtain t where t: "client_new this options s = Inr (Value (), t)"
    "connections t = (connections s)(brk s \<mapsto> \<lparr>socket_fd = -1, host = Some (cstr (opt_host options)),
      port = opt_port options, conn_status = CONNECTION_STATUS_DISCONNECTED, receiver_thread = False,
      conn_running = 0, on_connect = Some onConnectCallback_fn, on_disconnect = Some onDisconnectCallback_fn,
      on_message = Some onMessageCallback_fn, callback_context = Some (Suc (brk s))\<rparr>)"
    "contexts t = (contexts s)(Suc (brk s) \<mapsto> new_context)"
    "clients t = (clients s)(this \<mapsto> \<lparr>m_conn = Some (brk s), m_consumer = None, m_context = Some (Suc (brk s)),
      m_autoAck = opt_autoAck options, m_queues = Map.empty\<rparr>)"
    "open_fds t = open_fds s" "receivers t = receivers s" "promises t = promises s" "sys_fine t"
    "same_rest s t" "brk t = Suc (Suc (brk s))"
    using fine by (auto simp: new_context_def sys_fine_def same_rest_def)
  then have "holds_client s this CONNECTION_STATUS_DISCONNECTED fd new_context t"
    unfolding holds_client_def by simp
  with t show ?thesis by blast
qed

lemma connect_holds:
  assumes h: "holds_client s0 this st fd0 ctx t" and st: "st \<in> {CONNECTION_STATUS_DISCONNECTED, CONNECTION_STATUS_FAILED}"
    and new: "env_socket env \<notin> set (open_fds s0)"
  shows "\<exists>t'. client_connect env this t = Inr (reaches env, t') \<and>
    holds_client s0 this (if reaches env then CONNECTION_STATUS_CONNECTED else CONNECTION_STATUS_FAILED) (env_socket env) ctx t' \<and>
    same_rest t t' \<and> brk t' = brk t"
proof -
  from h obtain c con where c: "clients t = (clients s0)(this \<mapsto> c)" "m_conn c = Some (brk s0)" "m_context c = Some (Suc (brk s0))"
    "m_queues c = Map.empty" "connections t = (connections s0)(brk s0 \<mapsto> con)" "contexts t = (contexts s0)(Suc (brk s0) \<mapsto> ctx)"
    "host con \<noteq> None" "conn_status con = st" "on_connect con = Some onConnectCallback_fn"
    "on_message con = Some onMessageCallback_fn" "callback_context con = Some (Suc (brk s0))"
    "open_fds t = open_fds s0" "receivers t = receivers s0" "sys_fine t" "promises t = promises s0"
    using st by (auto simp: holds_client_def)
  have n: "st \<noteq> CONNECTION_STATUS_CONNECTED" "st \<noteq> CONNECTION_STATUS_CONNECTING" using st by auto
  have [simp]: "remove1 (env_socket env) (open_fds s0 @ [env_socket env]) = open_fds s0"
    using new by (simp add: remove1_append)
  have [simp]: "sys_ok t = (\<lambda>_. True)" using c(14) by (simp add: sys_fine_def fun_eq_iff)
  show ?thesis
  proof (cases "reaches env")
    case True
    with c n show ?thesis
      by (auto simp: reaches_def client_connect_def connection_connect_def sys_try_def Let_def holds_client_def)
        (simp_all add: same_rest_def call_back_def put_conn_def sys_fine_def)
  next
    case False
    show ?thesis
    proof (cases "0 \<le> env_socket env")
      case True
      have "client_connect env this t = connection_connect env (Some (brk s0)) t" using c by (simp add: client_connect_def)
      moreover obtain h where "host con = Some h" using c(7) by blast
      ultimately have "client_connect env this t = Inr (False, connect_failed (brk s0)
        (con\<lparr>conn_status := CONNECTION_STATUS_CONNECTING, socket_fd := env_socket env\<rparr>)
        (t\<lparr>open_fds := open_fds t @ [env_socket env]\<rparr>))"
        using connect_fails [of t "brk s0" con h env] c st True False by (auto simp: reaches_def)
      with c False show ?thesis by (simp add: connect_failed_def holds_client_def sys_fine_def) (simp add: same_rest_def put_conn_def close_sock_def)
    next
      case False
      with c n have "client_connect env this t = Inr (False, put_conn (brk s0)
        (con\<lparr>socket_fd := env_socket env, conn_status := CONNECTION_STATUS_FAILED\<rparr>) t)"
        by (simp add: client_connect_def connection_connect_def Let_def)
      moreover have "\<not> reaches env" using False by (simp add: reaches_def)
      ultimately show ?thesis using c by (simp add: holds_client_def sys_fine_def) (simp add: same_rest_def put_conn_def)
    qed
  qed
qed

lemma disconnect_holds:
  assumes h: "holds_client s0 this st fd ctx t" and new: "fd \<notin> set (open_fds s0)" "brk s0 \<notin> set (receivers s0)"
  shows "\<exists>t' st'. client_disconnect this t = Inr t' \<and> st' \<noteq> CONNECTION_STATUS_CONNECTED \<and>
    holds_client s0 this st' fd ctx t' \<and> same_rest t t'"
proof (cases "st = CONNECTION_STATUS_CONNECTED")
  case True
  have r: "remove1 fd (open_fds s0 @ [fd]) = open_fds s0" "remove1 (brk s0) (receivers s0 @ [brk s0]) = receivers s0"
    using new by (simp_all add: remove1_append)
  obtain c con where c: "clients t this = Some c" "m_conn c = Some (brk s0)" "connections t (brk s0) = Some con"
    "conn_status con = CONNECTION_STATUS_CONNECTED" "receiver_thread con" "socket_fd con = fd" "0 \<le> fd"
    using h True by (auto simp: holds_client_def)
  define con' where "con' = con\<lparr>conn_running := 0, socket_fd := -1, conn_status := CONNECTION_STATUS_DISCONNECTED\<rparr>"
  define t' where "t' = call_back (\<lambda>f. Disconnect_Callback f (callback_context con')) (on_disconnect con')
    (put_conn (brk s0) con' (close_sock fd (t\<lparr>receivers := remove1 (brk s0) (receivers t)\<rparr>)))"
  have "client_disconnect this t = Inr t'"
    using c by (simp add: client_disconnect_def connection_disconnect_def disconnect_finish_def Let_def t'_def con'_def del: ebind_Inr_iff)
      (simp add: put_conn_def close_sock_def)
  moreover have "holds_client s0 this CONNECTION_STATUS_DISCONNECTED fd ctx t'" "same_rest t t'"
    using h True c r
    by (auto simp: same_rest_def holds_client_def t'_def con'_def call_back_def put_conn_def close_sock_def sys_fine_def split: option.split)
  ultimately show ?thesis by blast
next
  case False
  then have "client_disconnect this t = Inr t"
    using h by (auto simp: holds_client_def client_disconnect_def connection_disconnect_def disconnect_finish_def simp del: ebind_Inr_iff)
  with False h show ?thesis by (auto simp: same_rest_def)
qed

text \<open>The destructor leaves nothing of the client behind.\<close>

lemma destroy_holds:
  assumes h: "holds_client s0 this st fd ctx t" and new: "fd \<notin> set (open_fds s0)" "fresh_process this s0"
  shows "\<exists>t'. client_destroy this t = Inr t' \<and> clients t' = clients s0 \<and> connections t' = connections s0 \<and>
    contexts t' = contexts s0 \<and> open_fds t' = open_fds s0 \<and> receivers t' = receivers s0 \<and> promises t' = promises s0 \<and>
    same_rest t t'"
proof -
  from new have "brk s0 \<notin> set (receivers s0)" by (simp add: fresh_process_def)
  from disconnect_holds [OF h new(1) this] obtain t1 st1 where
    1: "client_disconnect this t = Inr t1" "st1 \<noteq> CONNECTION_STATUS_CONNECTED" "holds_client s0 this st1 fd ctx t1"
      "same_rest t t1" by blast
  have none: "(clients s0)(this := None) = clients s0" "(connections s0)(brk s0 := None) = connections s0"
    "(contexts s0)(Suc (brk s0) := None) = contexts s0"
    using new(2) by (simp_all add: fresh_process_def fun_upd_idem)
  have "client_destroy this t = Inr (t1\<lparr>connections := (connections t1)(brk s0 := None),
      contexts := (contexts t1)(Suc (brk s0) := None), clients := (clients t1)(this := None)\<rparr>)"
    using 1(1-3)
    by (auto simp: holds_client_def client_destroy_def connection_free_def delete_context_def simp del: ebind_Inr_iff)
  with 1(2-) none show ?thesis by (auto simp: holds_client_def same_rest_def)
qed

lemma holds_connected:
  assumes "holds_client s0 this CONNECTION_STATUS_CONNECTED fd ctx t"
  shows "\<exists>con. connected_client con this t \<and> socket_fd con = fd"
  using assms by (auto simp: holds_client_def connected_client_def)

lemma holds_frame:
  assumes "holds_client s0 this st fd ctx t" and "clients t' = clients t" and "connections t' = connections t"
    and "contexts t' = contexts t" and "open_fds t' = open_fds t" and "receivers t' = receivers t"
    and "promises t' = promises t" and "sys_ok t' = sys_ok t"
  shows "holds_client s0 this st fd ctx t'"
  using assms unfolding holds_client_def sys_fine_def by metis

lemma holds_context:
  assumes "holds_client s0 this st fd ctx t"
  shows "holds_client s0 this st fd ctx' (t\<lparr>contexts := (contexts s0)(Suc (brk s0) \<mapsto> ctx')\<rparr>)"
proof -
  from assms obtain c con where "clients t = (clients s0)(this \<mapsto> c) \<and> m_conn c = Some (brk s0) \<and> m_context c = Some (Suc (brk s0)) \<and>
      m_queues c = Map.empty \<and> connections t = (connections s0)(brk s0 \<mapsto> con) \<and>
      host con \<noteq> None \<and> conn_status con = st \<and> on_connect con = Some onConnectCallback_fn \<and>
      on_message con = Some onMessageCallback_fn \<and> callback_context con = Some (Suc (brk s0)) \<and>
      (if st = CONNECTION_STATUS_CONNECTED
       then socket_fd con = fd \<and> 0 \<le> fd \<and> conn_running con \<noteq> 0 \<and> receiver_thread con \<and>
         open_fds t = open_fds s0 @ [fd] \<and> receivers t = receivers s0 @ [brk s0]
       else open_fds t = open_fds s0 \<and> receivers t = receivers s0)"
    unfolding holds_client_def by blast
  moreover have "sys_fine t" "promises t = promises s0" using assms by (simp_all add: holds_client_def)
  ultimately show ?thesis
    unfolding holds_client_def by (intro conjI exI [of _ c] exI [of _ con]) (simp_all add: sys_fine_def)
qed

subsection \<open>The producer\<close>

lemma length_to_string: "length (to_string n) \<le> Suc n"
proof (induction n rule: to_string.induct)
  case (1 n)
  then show ?case by (cases "n < 10") (auto simp: to_string.simps [of n])
qed

text \<open>The messages the producer sends.\<close>

definition produced :: "string \<Rightarrow> string \<Rightarrow> nat \<Rightarrow> Message" where
  "produced ex rk i = new_msg ex rk (producer_text i)"

lemma send_loop_runs:
  assumes h: "holds_client s0 this CONNECTION_STATUS_CONNECTED fd ctx t" and full: "full_sends (socks t)"
    and fresh: "\<forall>a\<ge>brk t. msgs t a = None" and len: "length ex < 2 ^ 31" "length rk < 2 ^ 31" "n < 2 ^ 31"
  shows "\<exists>t'. for_loop (producer_send this ex rk) [0..<n] t = Inr t' \<and>
    holds_client s0 this CONNECTION_STATUS_CONNECTED fd ctx t' \<and> full_sends (socks t') \<and>
    (\<forall>a\<ge>brk t'. msgs t' a = None) \<and> msgs t' = msgs t \<and> inp (socks t') = inp (socks t) \<and>
    out (socks t') = (out (socks t))(fd := out (socks t) fd @ concat (map (wire_image \<circ> produced ex rk) [0..<n]))"
  using len(3)
proof (induction n)
  case 0
  show ?case using h full fresh by simp
next
  case (Suc n)
  then have "n < 2 ^ 31" by simp
  from Suc.IH [OF this] obtain t1 where
    1: "for_loop (producer_send this ex rk) [0..<n] t = Inr t1"
      "holds_client s0 this CONNECTION_STATUS_CONNECTED fd ctx t1" "full_sends (socks t1)"
      "\<forall>a\<ge>brk t1. msgs t1 a = None" "msgs t1 = msgs t" "inp (socks t1) = inp (socks t)"
      "out (socks t1) = (out (socks t))(fd := out (socks t) fd @ concat (map (wire_image \<circ> produced ex rk) [0..<n]))"
    by blast
  from holds_connected [OF 1(2)] obtain con where con: "connected_client con this t1" "socket_fd con = fd" by blast
  have "length (producer_text n) < 2 ^ 32"
    using length_to_string [of n] Suc.prems by (simp add: producer_text_def)
  then have small: "small_args ex rk (producer_text n)" using len by (simp add: small_args_def)
  have "sys_fine t1" "msgs t1 (brk t1) = None" using 1(2,4) by (simp_all add: holds_client_def)
  from publish_runs [OF con(1) this(1) 1(3) this(2) small] obtain k j where
    "publish this ex rk (Some (producer_text n)) (length (producer_text n)) t1 = Inr (Value (), t1\<lparr>sys_calls := k,
      brk := Suc (brk t1), socks := sent fd (wire_image (produced ex rk n)) j (socks t1)\<rparr>)"
    unfolding con(2) produced_def by blast
  moreover define t2 where "t2 = t1\<lparr>sys_calls := k, brk := Suc (brk t1),
      socks := sent fd (wire_image (produced ex rk n)) j (socks t1)\<rparr>"
  ultimately have "for_loop (producer_send this ex rk) [0..<Suc n] t = Inr t2"
    using 1(1) by (simp add: for_loop_append producer_send_def Let_def)
  moreover have "holds_client s0 this CONNECTION_STATUS_CONNECTED fd ctx t2"
    unfolding t2_def by (rule holds_frame [OF 1(2)]) simp_all
  moreover have "full_sends (socks t2)" "\<forall>a\<ge>brk t2. msgs t2 a = None" "msgs t2 = msgs t" "inp (socks t2) = inp (socks t)"
    "out (socks t2) = (out (socks t))(fd := out (socks t) fd @ concat (map (wire_image \<circ> produced ex rk) [0..<Suc n]))"
    using 1(3-) by (simp_all add: t2_def)
  ultimately show ?case by blast
qed

lemma producer_runs:
  assumes fresh: "fresh_process this s" and full: "full_sends (socks s)" and new: "env_socket env \<notin> set (open_fds s)"
  shows "\<exists>s'. producer_main env this s = Inr (if reaches env then 0 else 1, s') \<and>
    msgs s' = msgs s \<and> clients s' = clients s \<and> connections s' = connections s \<and> contexts s' = contexts s \<and>
    open_fds s' = open_fds s \<and> receivers s' = receivers s \<and>
    (if reaches env
     then out (socks s') = (out (socks s))(env_socket env := out (socks s) (env_socket env) @
       concat (map (wire_image \<circ> produced ''amq.direct'' ''test'') [0..<10]))
     else socks s' = socks s)"
proof -
  let ?o = "default_options\<lparr>opt_host := ''localhost'', opt_port := 5672\<rparr>" and ?fd = "env_socket env"
  from new_holds [OF fresh, of ?o ?fd] obtain t1 where 1: "client_new this ?o s = Inr (Value (), t1)"
    "holds_client s this CONNECTION_STATUS_DISCONNECTED ?fd new_context t1" "same_rest s t1"
    "brk t1 = Suc (Suc (brk s))" by blast
  from connect_holds [OF 1(2) _ new] obtain t2 where 2: "client_connect env this t1 = Inr (reaches env, t2)"
    "holds_client s this (if reaches env then CONNECTION_STATUS_CONNECTED else CONNECTION_STATUS_FAILED) ?fd new_context t2"
    "msgs t2 = msgs s" "socks t2 = socks s" "brk t2 = Suc (Suc (brk s))" using 1(3-) by (auto simp: same_rest_def)
  show ?thesis
  proof (cases "reaches env")
    case False
    with 2 obtain t3 where "client_destroy this t2 = Inr t3" "clients t3 = clients s" "connections t3 = connections s"
      "contexts t3 = contexts s" "open_fds t3 = open_fds s" "receivers t3 = receivers s" "same_rest t2 t3"
      using destroy_holds [OF _ new fresh] by metis
    with 1 2 False show ?thesis by (simp add: same_rest_def producer_main_def Let_def del: ebind_Inr_iff)
  next
    case True
    have f: "\<forall>a\<ge>brk t2. msgs t2 a = None" using fresh 2(3,5) by (simp add: fresh_process_def)
    have full2: "full_sends (socks t2)" using full 2(4) by simp
    from send_loop_runs [OF _ full2 f, of s this ?fd new_context "''amq.direct''" "''test''" 10] 2 True obtain t3 where
      3: "for_loop (producer_send this ''amq.direct'' ''test'') [0..<10] t2 = Inr t3"
        "holds_client s this CONNECTION_STATUS_CONNECTED ?fd new_context t3" "msgs t3 = msgs s"
        "out (socks t3) = (out (socks s))(?fd := out (socks s) ?fd @
          concat (map (wire_image \<circ> produced ''amq.direct'' ''test'') [0..<10]))" by auto
    have "brk s \<notin> set (receivers s)" using fresh by (simp add: fresh_process_def)
    from disconnect_holds [OF 3(2) new this] obtain t4 st where
      4: "client_disconnect this t3 = Inr t4" "holds_client s this st ?fd new_context t4" "msgs t4 = msgs s" "socks t4 = socks t3"
      using 3(3) by (auto simp: same_rest_def)
    from destroy_holds [OF 4(2) new fresh] obtain t5 where "client_destroy this t4 = Inr t5" "clients t5 = clients s"
      "connections t5 = connections s" "contexts t5 = contexts s" "open_fds t5 = open_fds s" "receivers t5 = receivers s"
      "same_rest t4 t5" by blast
    with 1 2(1) 3 4 True show ?thesis by (simp add: same_rest_def producer_main_def Let_def del: ebind_Inr_iff)
  qed
qed

end
