(* ===== verification/Consumer_Runs.thy ===== *)
theory Consumer_Runs
  imports Client_Runs
begin

text \<open>
  The acknowledging consumer of \<open>examples/consumer/ack_consumer.cpp\<close>: its start, the messages
  it receives and its end.
\<close>

subsection \<open>Receiving\<close>

text \<open>
  What \<open>onMessage\<close> of the acknowledging consumer does with a whole message: \<open>ack\<close> and
  \<open>reject\<close> throw, the exception is caught, and nothing changes.
\<close>

lemma ack_onMessage_runs:
  assumes h: "holds_client s0 this st fd ctx t" and tag: "lastDeliveryTag ctx = 0" "messagePromise ctx = None"
    and k: "ack_consumers t k = Some \<lparr>ac_client = this, ac_autoAck = f\<rparr>"
    and m: "m_msg w = Some a" "msgs t a = Some m" "msg_complete m"
  shows "ack_onMessage success k w t = Inr (Value (), w, t)"
proof -
  obtain c con where "client_objects c (brk s0) (Suc (brk s0)) ctx this t" "connections t (brk s0) = Some con"
    using h tag by (auto simp: holds_client_def client_objects_def)
  from ack_throws [OF this] obtain e1 e2 where
    "ack this w t = Inr (Throw e1, t)" "reject this w True t = Inr (Throw e2, t)" by blast
  moreover have "case body m of None \<Rightarrow> body_size m = 0 | Some b \<Rightarrow> body_size m \<le> length b"
    using m(3) by (auto simp: msg_complete_def msg_ok_def split: option.splits)
  ultimately show ?thesis
    using k m(1,2)
    by (auto simp: ack_onMessage_def getBody_def getBodySize_def getExchange_def getRoutingKey_def getPriority_def
        isPersistent_def split: option.splits simp del: ebind_Inr_iff)
qed

text \<open>A pass of the receiver in the consumer's process: the message is read, and freed.\<close>

definition consumer_context :: "addr \<Rightarrow> ClientContext" where
  "consumer_context k = new_context\<lparr>ctx_consumer := Some k, currentQueue := ''test''\<rparr>"

lemma consumer_receive_runs:
  assumes h: "holds_client s0 this CONNECTION_STATUS_CONNECTED fd (consumer_context k) t"
    and k: "ack_consumers t k = Some \<lparr>ac_client = this, ac_autoAck = f\<rparr>"
    and full: "full_recvs (socks t)" and fresh: "\<forall>a\<ge>brk t. msgs t a = None"
    and p: "parse_message (inp (socks t) fd) = Some (m, rest)"
  shows "\<exists>t'. client_receive (ack_onMessage success) err (brk s0) t = Inr (True, t') \<and>
    holds_client s0 this CONNECTION_STATUS_CONNECTED fd (consumer_context k) t' \<and> ack_consumers t' = ack_consumers t \<and>
    full_recvs (socks t') \<and> (\<forall>a\<ge>brk t'. msgs t' a = None) \<and> msgs t' = msgs t \<and> queues t' = queues t \<and>
    inp (socks t') fd = rest \<and> out (socks t') = out (socks t)"
proof -
  from h obtain con where con: "connections t (brk s0) = Some con" "conn_running con \<noteq> 0" "0 \<le> socket_fd con"
    "on_message con = Some onMessageCallback_fn" "callback_context con = Some (Suc (brk s0))" "socket_fd con = fd"
    "contexts t (Suc (brk s0)) = Some (consumer_context k)"
    using that unfolding holds_client_def by (elim conjE exE) simp
  have fine: "sys_fine t" using h by (simp add: holds_client_def)
  from receive_runs [OF con(1-4) full fine, of m rest "ack_onMessage success" err] p con(6) obtain j n e where
    r: "client_receive (ack_onMessage success) err (brk s0) t =
      ebind (onMessageCallback (ack_onMessage success) (callback_context con) (Some (brk t))
        (t\<lparr>sys_calls := j, msgs := (msgs t)(brk t \<mapsto> m), brk := Suc (brk t), socks := consumed fd rest n (socks t), errno := e,
           callbacks := callbacks t @ [Message_Callback onMessageCallback_fn (callback_context con) (brk t)]\<rparr>))
        (\<lambda>s. Inr (True, s))"
    by auto
  define t1 where "t1 = t\<lparr>sys_calls := j, msgs := (msgs t)(brk t \<mapsto> m), brk := Suc (brk t),
      socks := consumed fd rest n (socks t), errno := e,
      callbacks := callbacks t @ [Message_Callback onMessageCallback_fn (callback_context con) (brk t)]\<rparr>"
  have t1: "holds_client s0 this CONNECTION_STATUS_CONNECTED fd (consumer_context k) t1"
    unfolding t1_def by (rule holds_frame [OF h]) simp_all
  define w where "w = \<lparr>m_msg = Some (brk t), m_owned = True, m_deliveryTag = (0 :: u64)\<rparr>"
  have "ack_onMessage success k w t1 = Inr (Value (), w, t1)"
    by (rule ack_onMessage_runs [OF t1, where a = "brk t" and m = m and f = f])
      (simp_all add: consumer_context_def new_context_def t1_def w_def k parse_message_complete [OF p])
  moreover have "contexts t1 (Suc (brk s0)) = Some (consumer_context k)" "msgs t1 (brk t) = Some m"
    using con(7) by (simp_all add: t1_def)
  ultimately have "onMessageCallback (ack_onMessage success) (Some (Suc (brk s0))) (Some (brk t)) t1 =
      Inr (t1\<lparr>msgs := (msgs t1)(brk t := None)\<rparr>)"
    using callback_consumer [of t1 "Suc (brk s0)" "consumer_context k" k "ack_onMessage success" "brk t"]
    by (simp add: consumer_context_def new_context_def wrapper_of_def message_destroy_def message_free_def w_def)
  moreover define t2 where "t2 = t1\<lparr>msgs := (msgs t1)(brk t := None)\<rparr>"
  ultimately have "client_receive (ack_onMessage success) err (brk s0) t = Inr (True, t2)"
    using r [folded t1_def] con(5) by simp
  moreover have "(msgs t)(brk t := None) = msgs t" using fresh by (simp add: fun_upd_idem)
  then have "msgs t2 = msgs t" by (simp add: t2_def t1_def)
  moreover have "holds_client s0 this CONNECTION_STATUS_CONNECTED fd (consumer_context k) t2"
    unfolding t2_def by (rule holds_frame [OF t1]) simp_all
  ultimately show ?thesis using fresh full by (intro exI [of _ t2]) (simp add: t2_def t1_def)
qed

text \<open>Passes of the receiver, each with the consumer code it runs.\<close>

fun client_passes :: "('z clmem_scheme) consumer_code list \<Rightarrow> errno_value \<Rightarrow> addr \<Rightarrow> 'z clmem_scheme
    \<Rightarrow> fault + bool \<times> 'z clmem_scheme" where
  "client_passes [] err a s = Inr (True, s)"
| "client_passes (code # codes) err a s =
     ebind (client_receive code err a s) (\<lambda>(goes_on, s).
     if goes_on then client_passes codes err a s else Inr (False, s))"

lemma consumer_passes_run:
  assumes "holds_client s0 this CONNECTION_STATUS_CONNECTED fd (consumer_context k) t"
    and "ack_consumers t k = Some \<lparr>ac_client = this, ac_autoAck = f\<rparr>"
    and "full_recvs (socks t)" and "\<forall>a\<ge>brk t. msgs t a = None"
    and "list_all wire_ok ms" and "inp (socks t) fd = concat (map wire_image ms) @ rest" and "length ok = length ms"
  shows "\<exists>t'. client_passes (map ack_onMessage ok) err (brk s0) t = Inr (True, t') \<and>
    holds_client s0 this CONNECTION_STATUS_CONNECTED fd (consumer_context k) t' \<and> ack_consumers t' = ack_consumers t \<and>
    msgs t' = msgs t \<and> queues t' = queues t \<and> inp (socks t') fd = rest \<and> out (socks t') = out (socks t)"
  using assms
proof (induction ms arbitrary: t ok)
  case Nil
  then show ?case by simp
next
  case (Cons m ms)
  then obtain b bs where ok: "ok = b # bs" "length bs = length ms" by (cases ok) auto
  have "inp (socks t) fd = wire_image m @ concat (map wire_image ms) @ rest" "wire_ok m" "list_all wire_ok ms"
    using Cons.prems(5,6) by simp_all
  then have "parse_message (inp (socks t) fd) = Some (m, concat (map wire_image ms) @ rest)"
    using message_codec.parse_image by metis
  from consumer_receive_runs [OF Cons.prems(1-4) this] obtain t1 where
    1: "client_receive (ack_onMessage b) err (brk s0) t = Inr (True, t1)"
      "holds_client s0 this CONNECTION_STATUS_CONNECTED fd (consumer_context k) t1" "ack_consumers t1 = ack_consumers t"
      "full_recvs (socks t1)" "\<forall>a\<ge>brk t1. msgs t1 a = None" "msgs t1 = msgs t" "queues t1 = queues t"
      "inp (socks t1) fd = concat (map wire_image ms) @ rest" "out (socks t1) = out (socks t)" by blast
  from Cons.IH [OF 1(2) _ 1(4,5) \<open>list_all wire_ok ms\<close> 1(8) ok(2)] Cons.prems(2) 1(3) obtain t2 where
    "client_passes (map ack_onMessage bs) err (brk s0) t1 = Inr (True, t2)"
    "holds_client s0 this CONNECTION_STATUS_CONNECTED fd (consumer_context k) t2" "ack_consumers t2 = ack_consumers t1"
    "msgs t2 = msgs t1" "queues t2 = queues t1" "inp (socks t2) fd = rest" "out (socks t2) = out (socks t1)" by auto
  with 1 ok(1) show ?case by simp
qed

subsection \<open>Start and end\<close>

definition register_msg :: Message where
  "register_msg = new_msg ''consumer'' ''register'' ''test''"

lemma same_rest_consumers: "same_rest s t \<Longrightarrow> ack_consumers t = ack_consumers s" for s t :: "'z exmem_scheme"
  by (cases s; cases t) (simp add: same_rest_def)

lemma consumer_start_runs:
  assumes fresh: "fresh_process this s" and full: "full_sends (socks s)" and env: "reaches env"
    and new: "env_socket env \<notin> set (open_fds s)" and r: "r = Suc (Suc (brk s))"
  shows "\<exists>t. consumer_start env this s = Inr (Inr (Suc r, wrapper_of r 0), t) \<and>
    holds_client s this CONNECTION_STATUS_CONNECTED (env_socket env) (consumer_context (Suc r)) t \<and>
    ack_consumers t = (ack_consumers s)(Suc r \<mapsto> \<lparr>ac_client = this, ac_autoAck = False\<rparr>) \<and>
    msgs t = (msgs s)(r \<mapsto> register_msg) \<and> brk t = Suc (Suc r) \<and> queues t = queues s \<and>
    inp (socks t) = inp (socks s) \<and> recv_limit (socks t) = recv_limit (socks s) \<and>
    out (socks t) = (out (socks s))(env_socket env := out (socks s) (env_socket env) @ wire_image register_msg)"
proof -
  let ?o = "default_options\<lparr>opt_host := ''localhost'', opt_port := 5672, opt_autoAck := False\<rparr>" and ?fd = "env_socket env"
  from new_holds [OF fresh, of ?o ?fd] obtain t1 where 1: "client_new this ?o s = Inr (Value (), t1)"
    "holds_client s this CONNECTION_STATUS_DISCONNECTED ?fd new_context t1" "same_rest s t1" "brk t1 = r"
    using r by blast
  from connect_holds [OF 1(2) _ new] env obtain t2 where 2: "client_connect env this t1 = Inr (True, t2)"
    "holds_client s this CONNECTION_STATUS_CONNECTED ?fd new_context t2" "same_rest t1 t2" "brk t2 = r"
    using 1(4) by auto
  have fine: "sys_fine t2" using 2(2) by (simp add: holds_client_def)
  from message_new_fine [OF this, of "''test''" "''consumer''" "''register''"] obtain j where
    3: "message_new ''consumer'' ''register'' (Some ''test'') (length ''test'') t2 = Inr (Value (wrapper_of r 0),
      t2\<lparr>sys_calls := j, msgs := (msgs t2)(r \<mapsto> register_msg), brk := Suc r\<rparr>)"
    by (auto simp: wrapper_of_def register_msg_def 2(4))
  define t3 where "t3 = t2\<lparr>sys_calls := j, msgs := (msgs t2)(r \<mapsto> register_msg), brk := Suc r\<rparr>"
  have h3: "holds_client s this CONNECTION_STATUS_CONNECTED ?fd new_context t3"
    unfolding t3_def by (rule holds_frame [OF 2(2)]) simp_all
  then obtain con where con: "connected_client con this t3" "socket_fd con = ?fd" by (blast dest: holds_connected)
  have "wire_ok register_msg" unfolding register_msg_def by (rule new_msg_wire) (simp add: small_args_def)
  moreover have "full_sends (socks t3)" using full 1(3) 2(3) by (simp add: t3_def same_rest_def)
  ultimately obtain n where 4: "publish_message this (wrapper_of r 0) t3 =
      Inr (Value (), t3\<lparr>socks := sent ?fd (wire_image register_msg) n (socks t3)\<rparr>)"
    using publish_message_runs [OF con(1), of r register_msg "wrapper_of r 0"] con(2) by (auto simp: t3_def wrapper_of_def)
  define t4 where "t4 = t3\<lparr>socks := sent ?fd (wire_image register_msg) n (socks t3), brk := Suc (Suc r),
      ack_consumers := (ack_consumers t3)(Suc r \<mapsto> \<lparr>ac_client = this, ac_autoAck = False\<rparr>)\<rparr>"
  have h4: "holds_client s this CONNECTION_STATUS_CONNECTED ?fd new_context t4"
    unfolding t4_def by (rule holds_frame [OF h3]) simp_all
  then obtain con4 where con4: "connected_client con4 this t4" by (blast dest: holds_connected)
  define t5 where "t5 = t4\<lparr>contexts := (contexts s)(Suc (brk s) \<mapsto> consumer_context (Suc r))\<rparr>"
  have h5: "holds_client s this CONNECTION_STATUS_CONNECTED ?fd (consumer_context (Suc r)) t5"
    unfolding t5_def by (rule holds_context [OF h4])
  obtain c where c: "clients t4 this = Some c" "m_context c = Some (Suc (brk s))"
    "contexts t4 = (contexts s)(Suc (brk s) \<mapsto> new_context)"
    using h4 that unfolding holds_client_def by (elim conjE exE) simp
  have 5: "consume this ''test'' (Some (Suc r)) t4 = Inr (Value (), t5)"
    using c unfolding consume_def if_connected_runs [OF con4 c(1)]
    by (simp add: put_context_def t5_def consumer_context_def)
  have "consumer_start env this s = Inr (Inr (Suc r, wrapper_of r 0), t5)"
    using 1(1) 2(1) 3 4 5 unfolding t3_def [symmetric]
    by (simp add: consumer_start_def Let_def t4_def [symmetric] del: ebind_Inr_iff)
      (simp add: t3_def t4_def)
  moreover have "ack_consumers t2 = ack_consumers s"
    using same_rest_consumers [OF 1(3)] same_rest_consumers [OF 2(3)] by simp
  ultimately show ?thesis
    using h5 1(3) 2(3) by (intro exI [of _ t5]) (simp add: t5_def t4_def t3_def same_rest_def sent_def)
qed

lemma consumer_finish_runs:
  assumes fresh: "fresh_process this s" and new: "fd \<notin> set (open_fds s)" and h: "holds_client s this st fd ctx t"
    and r: "msgs t r = Some m" and k: "ack_consumers s k = None" "ack_consumers t = (ack_consumers s)(k \<mapsto> ac)"
  shows "\<exists>s'. consumer_finish this (k, wrapper_of r tag) t = Inr (0, s') \<and> clients s' = clients s \<and>
    connections s' = connections s \<and> contexts s' = contexts s \<and> open_fds s' = open_fds s \<and> receivers s' = receivers s \<and>
    ack_consumers s' = ack_consumers s \<and> msgs s' = (msgs t)(r := None) \<and> queues s' = queues t \<and> socks s' = socks t"
proof -
  have "brk s \<notin> set (receivers s)" using fresh by (simp add: fresh_process_def)
  from disconnect_holds [OF h new this] obtain t1 st1 where
    1: "client_disconnect this t = Inr t1" "holds_client s this st1 fd ctx t1" "same_rest t t1" by blast
  define t2 where "t2 = t1\<lparr>msgs := (msgs t1)(r := None)\<rparr>"
  have 2: "message_destroy (wrapper_of r tag) t1 = Inr t2"
    using r 1(3) by (simp add: message_destroy_def wrapper_of_def message_free_def same_rest_def t2_def)
  have "holds_client s this st1 fd ctx t2" unfolding t2_def by (rule holds_frame [OF 1(2)]) simp_all
  from destroy_holds [OF this new fresh] obtain t3 where 3: "client_destroy this t2 = Inr t3"
    "clients t3 = clients s" "connections t3 = connections s" "contexts t3 = contexts s" "open_fds t3 = open_fds s"
    "receivers t3 = receivers s" "same_rest t2 t3" by blast
  define s' where "s' = t3\<lparr>ack_consumers := (ack_consumers t3)(k := None)\<rparr>"
  have "consumer_finish this (k, wrapper_of r tag) t = Inr (0, s')"
    using 1(1) 2 3(1) by (simp add: consumer_finish_def s'_def del: ebind_Inr_iff)
  moreover have "ack_consumers t3 = ack_consumers t"
    using same_rest_consumers [OF 3(7)] same_rest_consumers [OF 1(3)] by (simp add: t2_def)
  then have "ack_consumers s' = ack_consumers s" using k by (simp add: s'_def fun_upd_idem)
  ultimately show ?thesis using 3(2-) 1(3) by (intro exI [of _ s']) (simp add: s'_def t2_def same_rest_def)
qed

end
