(* ===== verification/Connection_Threads.thy ===== *)
theory Connection_Threads
  imports Connection_Safety
begin

text \<open>
  A connection and its receiver thread as interleaved threads (\<open>connection_disconnect\<close> and
  \<open>connection_receiver_thread\<close> of \<open>src/core/connection.c\<close>). The mutex makes the test of
  \<open>running\<close> with the descriptor, and the first part of \<open>connection_disconnect\<close>, one step each;
  between the test and the end of \<open>recv\<close> the receiver holds the descriptor it has read, and
  \<open>pthread_join\<close> returns once the receiver has ended.

  A \<open>recv\<close> on a blocking socket returns only when the peer sends, closes or fails: the flag
  \<open>quiet\<close> says that it does nothing of the kind.
\<close>

datatype receiver_pc = Loop_Top | In_Recv int | Ended

datatype caller_pc = Caller_Idle | Caller_Joining | Caller_Returned

type_synonym conn_threads = "caller_pc \<times> receiver_pc \<times> cmem"

inductive conn_thread :: "addr \<Rightarrow> bool \<Rightarrow> conn_threads \<Rightarrow> conn_threads \<Rightarrow> bool" for a quiet where
  stop: "connections s a = Some c \<Longrightarrow> conn_running c = 0 \<Longrightarrow> conn_thread a quiet (m, Loop_Top, s) (m, Ended, s)"
| test: "connections s a = Some c \<Longrightarrow> conn_running c \<noteq> 0 \<Longrightarrow>
    conn_thread a quiet (m, Loop_Top, s) (m, In_Recv (socket_fd c), s)"
| pass: "\<not> quiet \<Longrightarrow> receiver_pass err a fd s = Inr (goes_on, s') \<Longrightarrow>
    conn_thread a quiet (m, In_Recv fd, s) (m, if goes_on then Loop_Top else Ended, s')"
| idle_return: "connections s a = Some c \<Longrightarrow> conn_status c \<noteq> CONNECTION_STATUS_CONNECTED \<Longrightarrow>
    conn_thread a quiet (Caller_Idle, r, s) (Caller_Returned, r, s)"
| begin_disconnect: "connections s a = Some c \<Longrightarrow> conn_status c = CONNECTION_STATUS_CONNECTED \<Longrightarrow>
    conn_thread a quiet (Caller_Idle, r, s) (Caller_Joining, r, put_conn a (c\<lparr>conn_running := 0\<rparr>) s)"
| join: "disconnect_finish a s = Inr s' \<Longrightarrow>
    conn_thread a quiet (Caller_Joining, Ended, s) (Caller_Returned, Ended, s')"

inductive_cases conn_threadE: "conn_thread a quiet (m, r, s) t"

text \<open>The sequential step is one of the interleavings: the receiver ends at its next test.\<close>

lemma interleaving_of_disconnect:
  assumes "connections s a = Some c" and "conn_status c = CONNECTION_STATUS_CONNECTED" and "receiver_thread c"
    and "connection_disconnect (Some a) s = Inr (r, s')"
  shows "(conn_thread a quiet)\<^sup>*\<^sup>* (Caller_Idle, Loop_Top, s) (Caller_Returned, Ended, s')"
proof -
  let ?s = "put_conn a (c\<lparr>conn_running := 0\<rparr>) s"
  have "disconnect_finish a ?s = Inr s'" using assms by (simp add: connection_disconnect_def)
  then have "conn_thread a quiet (Caller_Joining, Ended, ?s) (Caller_Returned, Ended, s')" by (rule join)
  moreover have "conn_thread a quiet (Caller_Joining, Loop_Top, ?s) (Caller_Joining, Ended, ?s)"
    by (rule stop [of _ _ "c\<lparr>conn_running := 0\<rparr>"]) simp_all
  moreover have "conn_thread a quiet (Caller_Idle, Loop_Top, s) (Caller_Joining, Loop_Top, ?s)"
    by (rule begin_disconnect [OF assms(1,2)])
  ultimately show ?thesis by (meson converse_rtranclp_into_rtranclp rtranclp.rtrancl_refl)
qed

subsection \<open>Safety\<close>

text \<open>
  The invariant of a connected connection and one call of \<open>connection_disconnect\<close>: the
  receiver's descriptor is the connection's and open, for as long as the receiver may use
  it; and a caller that joins has stopped the receiver.
\<close>

definition conn_threads_inv :: "addr \<Rightarrow> conn_threads \<Rightarrow> bool" where
  "conn_threads_inv a st \<longleftrightarrow>
     (case st of (m, r, s) \<Rightarrow>
        (\<exists>c. connections s a = Some c \<and>
           (r \<noteq> Ended \<longrightarrow> 0 \<le> socket_fd c \<and> socket_fd c \<in> set (open_fds s) \<and> conn_status c = CONNECTION_STATUS_CONNECTED \<and>
              m \<noteq> Caller_Returned) \<and>
           (\<forall>fd. r = In_Recv fd \<longrightarrow> fd = socket_fd c) \<and>
           (m = Caller_Joining \<longrightarrow> conn_running c = 0) \<and>
           (m = Caller_Idle \<and> r \<noteq> Ended \<longrightarrow> conn_running c \<noteq> 0)))"

lemma conn_thread_inv:
  assumes "conn_threads_inv a st" and "conn_thread a quiet st st'"
  shows "conn_threads_inv a st'"
  using assms(2,1)
proof cases
  case (pass err fd s goes_on s' m)
  from assms(1) pass(1) obtain c where c: "connections s a = Some c" "0 \<le> socket_fd c" "socket_fd c \<in> set (open_fds s)"
    "conn_status c = CONNECTION_STATUS_CONNECTED" "m \<noteq> Caller_Returned" "m = Caller_Joining \<longrightarrow> conn_running c = 0"
    "m = Caller_Idle \<longrightarrow> conn_running c \<noteq> 0"
    by (auto simp: conn_threads_inv_def)
  from pass_goes_on [OF pass(4) c(1)] pass_cases [OF pass(4) c(1)] c
  show ?thesis unfolding pass(2) conn_threads_inv_def prod.case by (cases goes_on) auto
qed (auto simp: conn_threads_inv_def disconnect_finish_def Let_def)

interpretation conn_pair: invariant_system
  "\<lambda>(m, r, s). m = Caller_Idle \<and> r = Loop_Top \<and>
     (\<exists>c. connections s a = Some c \<and> conn_status c = CONNECTION_STATUS_CONNECTED \<and> conn_running c \<noteq> 0 \<and>
        0 \<le> socket_fd c \<and> socket_fd c \<in> set (open_fds s))"
  "conn_thread a quiet" "conn_threads_inv a" for a quiet
proof
  fix st st'
  assume "conn_threads_inv a st" and "conn_thread a quiet st st'"
  then show "conn_threads_inv a st'" by (rule conn_thread_inv)
qed (auto simp: conn_threads_inv_def)

subsection \<open>Progress\<close>

text \<open>While the peer is quiet, a receiver in \<open>recv\<close> stays there, and so does a caller that joins it.\<close>

lemma quiet_stuck:
  assumes "(conn_thread a True)\<^sup>*\<^sup>* (Caller_Joining, In_Recv fd, s) st"
  shows "st = (Caller_Joining, In_Recv fd, s)"
  using assms
proof induction
  case (step y z)
  from step(2) show ?case unfolding step(3) by cases auto
qed simp

text \<open>When the peer sends, closes or fails, the receiver ends and the caller returns.\<close>

lemma pass_lets_return:
  assumes inv: "conn_threads_inv a (Caller_Joining, In_Recv fd, s)" and p: "receiver_pass err a fd s = Inr (goes_on, s1)"
  shows "\<exists>s'. (conn_thread a False)\<^sup>*\<^sup>* (Caller_Joining, In_Recv fd, s) (Caller_Returned, Ended, s') \<and>
    (\<exists>c. connections s' a = Some c \<and> socket_fd c = - 1 \<and> conn_status c = CONNECTION_STATUS_DISCONNECTED) \<and>
    open_fds s' = remove1 fd (open_fds s)"
proof -
  obtain c where c: "connections s a = Some c" "0 \<le> socket_fd c" "fd = socket_fd c" "conn_running c = 0"
    using inv by (auto simp: conn_threads_inv_def)
  have 1: "conn_thread a False (Caller_Joining, In_Recv fd, s) (Caller_Joining, if goes_on then Loop_Top else Ended, s1)"
    by (rule conn_thread.pass [OF _ p]) simp
  from pass_goes_on [OF p c(1)] pass_cases [OF p c(1)] c obtain c1 where
    c1: "connections s1 a = Some c1" "socket_fd c1 = fd" "conn_running c1 = 0" "open_fds s1 = open_fds s"
    by (auto split: if_split_asm)
  have 2: "(conn_thread a False)\<^sup>*\<^sup>* (Caller_Joining, if goes_on then Loop_Top else Ended, s1) (Caller_Joining, Ended, s1)"
    using stop [OF c1(1,3)] by (cases goes_on) auto
  obtain s' where s': "disconnect_finish a s1 = Inr s'" "connections s' a =
      Some (c1\<lparr>socket_fd := - 1, conn_status := CONNECTION_STATUS_DISCONNECTED\<rparr>)" "open_fds s' = remove1 fd (open_fds s)"
    using c1 c(2,3) by (simp add: disconnect_finish_def Let_def)
  have "conn_thread a False (Caller_Joining, Ended, s1) (Caller_Returned, Ended, s')" by (rule join [OF s'(1)])
  with 1 2 have "(conn_thread a False)\<^sup>*\<^sup>* (Caller_Joining, In_Recv fd, s) (Caller_Returned, Ended, s')" by auto
  with s' show ?thesis by auto
qed

end
