(* ===== verification/Queue_Ring.thy ===== *)
theory Queue_Ring
  imports Queue
begin

text \<open>
  The ring buffer of \<open>src/core/queue.c\<close> implements a bounded double-ended list: its
  invariant, the list it stands for, what each of its four moves does to that list, and the
  first-in-first-out contract as a locale that the moves satisfy.
\<close>

subsection \<open>Index arithmetic\<close>

lemma ring_index_inj:
  assumes "i < c" and "j < c" and "(h + i) mod c = (h + j) mod (c :: nat)"
  shows "i = j"
proof -
  have *: "i = j" if "i \<le> j" "i < c" "j < c" "(h + i) mod c = (h + j) mod c" for i j :: nat
  proof -
    from that have "c dvd (h + j) - (h + i)"
      using mod_eq_dvd_iff_nat [of "h + i" "h + j" c] by simp
    with that show ?thesis by (auto dest: dvd_imp_le)
  qed
  show ?thesis using * [of i j] * [of j i] assms by (cases "i \<le> j") auto
qed

lemma ring_next_shift: "((h + 1) mod c + i) mod c = (h + Suc i) mod (c :: nat)"
  by (metis add_Suc_right add_Suc_shift Suc_eq_plus1 mod_add_left_eq)

lemma ring_prev_shift:
  assumes "0 < c"
  shows "((h + c - 1) mod c + Suc i) mod c = (h + i) mod (c :: nat)"
proof -
  have "((h + c - 1) mod c + Suc i) mod c = (h + c - 1 + Suc i) mod c"
    by (rule mod_add_left_eq)
  also have "h + c - 1 + Suc i = (h + i) + c" using assms by simp
  finally show ?thesis by simp
qed

subsection \<open>Invariant and abstraction\<close>

text \<open>The index of the \<open>i\<close>-th message of the queue.\<close>

definition ring_index :: "Queue \<Rightarrow> nat \<Rightarrow> nat" where
  "ring_index q i = (head q + i) mod capacity q"

text \<open>
  The array really has \<open>capacity\<close> slots (the allocation did not wrap), the indices are in
  range, \<open>tail\<close> is \<open>size\<close> places after \<open>head\<close>, and the slots in between hold messages.
\<close>

definition ring_ok :: "Queue \<Rightarrow> bool" where
  "ring_ok q \<longleftrightarrow>
     0 < capacity q \<and> capacity q * sizeof_ptr < size_mod \<and>
     length (messages q) = capacity q \<and> head q < capacity q \<and> q_size q \<le> capacity q \<and>
     tail q = ring_index q (q_size q) \<and>
     (\<forall>i<q_size q. messages q ! ring_index q i \<noteq> None)"

definition ring_list :: "Queue \<Rightarrow> addr list" where
  "ring_list q = map (\<lambda>i. the (messages q ! ring_index q i)) [0..<q_size q]"

lemma length_ring_list [simp]: "length (ring_list q) = q_size q"
  by (simp add: ring_list_def)

lemma ring_list_nth: "i < q_size q \<Longrightarrow> ring_list q ! i = the (messages q ! ring_index q i)"
  by (simp add: ring_list_def)

lemma ring_list_empty [simp]: "ring_list q = [] \<longleftrightarrow> q_size q = 0"
  by (simp add: ring_list_def)

lemma ring_okD:
  assumes "ring_ok q"
  shows "0 < capacity q" "capacity q < size_mod" "head q + capacity q < size_mod"
    "length (messages q) = capacity q" "head q < capacity q" "q_size q \<le> capacity q"
    "tail q < capacity q" "tail q = ring_index q (q_size q)"
  using assms by (auto simp: ring_ok_def sizeof_ptr_def ring_index_def)

lemma ring_ok_slot:
  "ring_ok q \<Longrightarrow> i < q_size q \<Longrightarrow> messages q ! ring_index q i = Some (ring_list q ! i)"
  by (auto simp: ring_ok_def ring_list_nth)

lemma ring_index_less: "ring_ok q \<Longrightarrow> ring_index q i < capacity q"
  by (simp add: ring_index_def ring_ok_def)

lemma ring_index_eq_iff:
  "i < capacity q \<Longrightarrow> j < capacity q \<Longrightarrow> ring_index q i = ring_index q j \<longleftrightarrow> i = j"
  using ring_index_inj by (auto simp: ring_index_def)

text \<open>
  The usual way to establish the invariant and the list of a new state: the slots of the
  new state hold the elements of a list \<open>xs\<close>.
\<close>

lemma ring_stateI:
  assumes "0 < capacity q" and "capacity q * sizeof_ptr < size_mod"
    and "length (messages q) = capacity q" and "head q < capacity q"
    and "q_size q \<le> capacity q" and "tail q = ring_index q (q_size q)"
    and "length xs = q_size q"
    and "\<And>i. i < q_size q \<Longrightarrow> messages q ! ring_index q i = Some (xs ! i)"
  shows "ring_ok q \<and> ring_list q = xs"
  using assms by (auto simp: ring_ok_def ring_list_nth intro!: nth_equalityI)

text \<open>
  The invariant and the list depend on the ring's fields only. The facts are stated
  over updates of the fields the rest of the code assigns to.
\<close>

lemma ring_frame [simp]:
  "ring_ok (q\<lparr>not_empty := c\<rparr>) = ring_ok q" "ring_list (q\<lparr>not_empty := c\<rparr>) = ring_list q"
  "ring_ok (q\<lparr>not_full := c\<rparr>) = ring_ok q" "ring_list (q\<lparr>not_full := c\<rparr>) = ring_list q"
  "ring_ok (q\<lparr>durable := d\<rparr>) = ring_ok q" "ring_list (q\<lparr>durable := d\<rparr>) = ring_list q"
  "ring_ok (q\<lparr>unacked_messages := arr\<rparr>) = ring_ok q"
  "ring_list (q\<lparr>unacked_messages := arr\<rparr>) = ring_list q"
  "ring_ok (q\<lparr>unacked_capacity := n\<rparr>) = ring_ok q" "ring_list (q\<lparr>unacked_capacity := n\<rparr>) = ring_list q"
  "ring_ok (q\<lparr>unacked_count := n\<rparr>) = ring_ok q" "ring_list (q\<lparr>unacked_count := n\<rparr>) = ring_list q"
  "ring_ok (q\<lparr>next_delivery_tag := t\<rparr>) = ring_ok q"
  "ring_list (q\<lparr>next_delivery_tag := t\<rparr>) = ring_list q"
  by (simp_all add: ring_ok_def ring_list_def ring_index_def)

subsection \<open>The four moves\<close>

definition put_state :: "addr \<Rightarrow> Queue \<Rightarrow> Queue" where
  "put_state m q = q\<lparr>messages := (messages q)[tail q := Some m],
     tail := (tail q + 1) mod capacity q, q_size := q_size q + 1\<rparr>"

definition take_state :: "Queue \<Rightarrow> Queue" where
  "take_state q = q\<lparr>head := (head q + 1) mod capacity q, q_size := q_size q - 1\<rparr>"

definition prev_index :: "Queue \<Rightarrow> nat" where
  "prev_index q = (head q + capacity q - 1) mod capacity q"

definition put_front_state :: "addr \<Rightarrow> Queue \<Rightarrow> Queue" where
  "put_front_state m q = q\<lparr>head := prev_index q, messages := (messages q)[prev_index q := Some m],
     q_size := q_size q + 1\<rparr>"

lemma move_fields [simp]:
  "capacity (put_state m q) = capacity q" "q_size (put_state m q) = Suc (q_size q)"
  "capacity (take_state q) = capacity q" "q_size (take_state q) = q_size q - 1"
  "capacity (put_front_state m q) = capacity q" "q_size (put_front_state m q) = Suc (q_size q)"
  "unacked_count (put_state m q) = unacked_count q" "unacked_count (take_state q) = unacked_count q"
  "unacked_count (put_front_state m q) = unacked_count q"
  "next_delivery_tag (put_state m q) = next_delivery_tag q"
  "next_delivery_tag (take_state q) = next_delivery_tag q"
  "next_delivery_tag (put_front_state m q) = next_delivery_tag q"
  "q_name (put_state m q) = q_name q" "q_name (take_state q) = q_name q"
  "q_name (put_front_state m q) = q_name q"
  "not_empty (put_state m q) = not_empty q" "not_empty (take_state q) = not_empty q"
  "not_empty (put_front_state m q) = not_empty q"
  "not_full (put_state m q) = not_full q" "not_full (take_state q) = not_full q"
  "not_full (put_front_state m q) = not_full q"
  by (simp_all add: put_state_def take_state_def put_front_state_def)

lemma ring_put_eq:
  assumes "ring_ok q" and "q_size q < capacity q"
  shows "ring_put m q = Inr (put_state m q)"
  using assms ring_okD [OF assms(1)]
  by (simp add: ring_put_def put_state_def c_simps)

lemma ring_put_ok:
  assumes ok: "ring_ok q" and room: "q_size q < capacity q"
  shows "ring_ok (put_state m q) \<and> ring_list (put_state m q) = ring_list q @ [m]"
proof (rule ring_stateI)
  note d = ring_okD [OF ok]
  have idx: "ring_index (put_state m q) i = ring_index q i" for i
    by (simp add: ring_index_def put_state_def)
  show "tail (put_state m q) = ring_index (put_state m q) (q_size (put_state m q))"
    using d(8) by (simp add: idx) (simp add: put_state_def ring_index_def mod_simps)
  show "messages (put_state m q) ! ring_index (put_state m q) i = Some ((ring_list q @ [m]) ! i)"
    if i: "i < q_size (put_state m q)" for i
  proof (cases "i = q_size q")
    case True
    with d show ?thesis by (simp add: idx) (simp add: put_state_def nth_append)
  next
    case False
    then have "ring_index q i \<noteq> tail q"
      using i room d(8) ring_index_eq_iff [of i q "q_size q"] by simp
    with i False ring_ok_slot [OF ok, of i] show ?thesis
      by (simp add: idx) (simp add: put_state_def nth_append)
  qed
qed (use ok room in \<open>auto simp: put_state_def ring_ok_def\<close>)

lemma ring_take_eq:
  assumes "ring_ok q" and "0 < q_size q"
  shows "ring_take q = Inr (hd (ring_list q), take_state q)"
proof -
  note d = ring_okD [OF assms(1)]
  have "messages q ! head q = Some (hd (ring_list q))"
    using ring_ok_slot [OF assms] d assms(2) by (simp add: ring_index_def hd_conv_nth)
  with assms d show ?thesis
    by (simp add: ring_take_def take_state_def c_simps)
qed

lemma ring_take_ok:
  assumes ok: "ring_ok q" and some: "0 < q_size q"
  shows "ring_ok (take_state q) \<and> ring_list (take_state q) = tl (ring_list q)"
proof (rule ring_stateI)
  note d = ring_okD [OF ok]
  have idx: "ring_index (take_state q) i = ring_index q (Suc i)" for i
    using ring_next_shift [of "head q" "capacity q" i] by (simp add: ring_index_def take_state_def)
  show "tail (take_state q) = ring_index (take_state q) (q_size (take_state q))"
    using d(8) some by (simp add: idx) (simp add: take_state_def)
  show "messages (take_state q) ! ring_index (take_state q) i = Some (tl (ring_list q) ! i)"
    if "i < q_size (take_state q)" for i
    using that ring_ok_slot [OF ok, of "Suc i"] by (simp add: idx nth_tl) (simp add: take_state_def)
qed (use ok some in \<open>auto simp: take_state_def ring_ok_def\<close>)

lemma ring_prev_eq:
  assumes "ring_ok q"
  shows "c_mod (sz_sub (sz_add (head q) (capacity q)) 1) (capacity q) = Inr (prev_index q)"
  using ring_okD [OF assms] by (simp add: c_simps prev_index_def)

lemma prev_index_shift:
  "ring_ok q \<Longrightarrow> (prev_index q + Suc i) mod capacity q = ring_index q i"
  using ring_prev_shift [of "capacity q" "head q" i] by (simp add: prev_index_def ring_index_def ring_ok_def)

lemma ring_untake_eq:
  assumes ok: "ring_ok q" and some: "0 < q_size q"
  shows "ring_untake (take_state q) = Inr q"
proof -
  note d = ring_okD [OF ok]
  have "prev_index (take_state q) = head q"
  proof -
    have "prev_index (take_state q) = ((head q + 1) mod capacity q + (capacity q - 1)) mod capacity q"
      using d by (simp add: prev_index_def take_state_def)
    also have "\<dots> = (head q + 1 + (capacity q - 1)) mod capacity q"
      by (rule mod_add_left_eq)
    also have "head q + 1 + (capacity q - 1) = head q + capacity q" using d by simp
    finally show ?thesis using d by simp
  qed
  with ring_prev_eq [of "take_state q"] ring_take_ok [OF assms] some d show ?thesis
    by (simp add: ring_untake_def c_simps) (simp add: take_state_def)
qed

lemma ring_put_front_eq:
  assumes "ring_ok q" and "q_size q < capacity q"
  shows "ring_put_front m q = Inr (put_front_state m q)"
  using assms ring_okD [OF assms(1)] ring_prev_eq [OF assms(1)]
  by (simp add: ring_put_front_def put_front_state_def c_simps prev_index_def)

lemma ring_put_front_ok:
  assumes ok: "ring_ok q" and room: "q_size q < capacity q"
  shows "ring_ok (put_front_state m q) \<and> ring_list (put_front_state m q) = m # ring_list q"
proof (rule ring_stateI)
  note d = ring_okD [OF ok]
  let ?q = "put_front_state m q"
  have p: "prev_index q < capacity q" using d by (simp add: prev_index_def)
  have idx: "ring_index ?q (Suc i) = ring_index q i" and idx0: "ring_index ?q 0 = prev_index q" for i
    using prev_index_shift [OF ok, of i] p by (simp_all add: ring_index_def put_front_state_def)
  show "tail ?q = ring_index ?q (q_size ?q)"
    using d(8) by (simp add: idx) (simp add: put_front_state_def)
  show "messages ?q ! ring_index ?q i = Some ((m # ring_list q) ! i)" if i: "i < q_size ?q" for i
  proof (cases i)
    case 0
    with p d show ?thesis by (simp add: idx0) (simp add: put_front_state_def)
  next
    case (Suc j)
    have "ring_index ?q (Suc j) \<noteq> ring_index ?q 0"
      using ring_index_eq_iff [of "Suc j" ?q 0] i Suc room by simp
    then have "ring_index q j \<noteq> prev_index q" by (simp add: idx idx0)
    with Suc i ring_ok_slot [OF ok, of j] show ?thesis
      by (simp add: idx) (simp add: put_front_state_def)
  qed
qed (use ok room in \<open>auto simp: put_front_state_def ring_ok_def prev_index_def\<close>)

subsection \<open>The first-in-first-out contract\<close>

text \<open>Taking \<open>n\<close> elements, in the order they come out.\<close>

fun take_many :: "('q \<Rightarrow> 'e + 'm \<times> 'q) \<Rightarrow> nat \<Rightarrow> 'q \<Rightarrow> 'e + 'm list \<times> 'q" where
  "take_many take_one 0 q = Inr ([], q)"
| "take_many take_one (Suc n) q =
     ebind (take_one q) (\<lambda>(m, q). ebind (take_many take_one n q) (\<lambda>(ms, q). Inr (m # ms, q)))"

text \<open>
  What the rest of the program relies on: while there is room, an element put in goes
  behind those already there; an element taken out is the first one.
\<close>

locale bounded_fifo =
  fixes put :: "'m \<Rightarrow> 'q \<Rightarrow> 'e + 'q"
    and take_one :: "'q \<Rightarrow> 'e + 'm \<times> 'q"
    and contents :: "'q \<Rightarrow> 'm list"
    and room :: "'q \<Rightarrow> nat"
    and ok :: "'q \<Rightarrow> bool"
  assumes put_law: "ok q \<Longrightarrow> 0 < room q \<Longrightarrow>
      \<exists>q'. put m q = Inr q' \<and> ok q' \<and> contents q' = contents q @ [m] \<and> Suc (room q') = room q"
    and take_law: "ok q \<Longrightarrow> contents q = m # ms \<Longrightarrow>
      \<exists>q'. take_one q = Inr (m, q') \<and> ok q' \<and> contents q' = ms \<and> room q' = Suc (room q)"
begin

lemma put_all:
  "ok q \<Longrightarrow> length ms \<le> room q \<Longrightarrow>
   \<exists>q'. for_loop put ms q = Inr q' \<and> ok q' \<and> contents q' = contents q @ ms \<and>
     room q' + length ms = room q"
proof (induction ms arbitrary: q)
  case (Cons m ms)
  from Cons.prems put_law [of q m] obtain q1 where q1: "put m q = Inr q1" "ok q1"
    "contents q1 = contents q @ [m]" "Suc (room q1) = room q" by auto
  with Cons.prems Cons.IH [of q1] show ?case by auto
qed simp

lemma take_all:
  "ok q \<Longrightarrow> contents q = ms @ rest \<Longrightarrow>
   \<exists>q'. take_many take_one (length ms) q = Inr (ms, q') \<and> ok q' \<and> contents q' = rest \<and>
     room q' = room q + length ms"
proof (induction ms arbitrary: q)
  case (Cons m ms)
  from Cons.prems take_law [of q m "ms @ rest"] obtain q1 where q1: "take_one q = Inr (m, q1)"
    "ok q1" "contents q1 = ms @ rest" "room q1 = Suc (room q)" by auto
  with Cons.IH [of q1] show ?case by force
qed simp

lemma fifo:
  assumes "ok q" and "length ms \<le> room q"
  shows "\<exists>q1 q2. for_loop put ms q = Inr q1 \<and>
    take_many take_one (length (contents q) + length ms) q1 = Inr (contents q @ ms, q2) \<and>
    ok q2 \<and> contents q2 = []"
proof -
  from put_all [OF assms] obtain q1 where q1: "for_loop put ms q = Inr q1" "ok q1"
    "contents q1 = (contents q @ ms) @ []" by auto
  with take_all [OF q1(2,3)] show ?thesis by auto
qed

end

text \<open>The extension for requeueing: an element put back at the front is the next one out.\<close>

locale bounded_deque = bounded_fifo +
  fixes put_front :: "'a \<Rightarrow> 'b \<Rightarrow> 'c + 'b"
  assumes put_front_law: "ok q \<Longrightarrow> 0 < room q \<Longrightarrow>
      \<exists>q'. put_front m q = Inr q' \<and> ok q' \<and> contents q' = m # contents q \<and> Suc (room q') = room q"
begin

lemma front_next:
  assumes "ok q" and "0 < room q"
  shows "\<exists>q1 q2. put_front m q = Inr q1 \<and> take_one q1 = Inr (m, q2) \<and> ok q2 \<and>
    contents q2 = contents q"
proof -
  from put_front_law [OF assms] obtain q1 where "put_front m q = Inr q1" "ok q1"
    "contents q1 = m # contents q" by auto
  with take_law [of q1 m "contents q"] show ?thesis by auto
qed

text \<open>Putting a list back one by one at the front reverses it.\<close>

lemma front_all:
  "ok q \<Longrightarrow> length ms \<le> room q \<Longrightarrow>
   \<exists>q'. for_loop put_front ms q = Inr q' \<and> ok q' \<and> contents q' = rev ms @ contents q \<and>
     room q' + length ms = room q"
proof (induction ms arbitrary: q)
  case (Cons m ms)
  from Cons.prems put_front_law [of q m] obtain q1 where q1: "put_front m q = Inr q1" "ok q1"
    "contents q1 = m # contents q" "Suc (room q1) = room q" by auto
  with Cons.prems Cons.IH [of q1] show ?case by auto
qed simp

end

definition ring_room :: "Queue \<Rightarrow> nat" where
  "ring_room q = capacity q - q_size q"

interpretation ring: bounded_deque ring_put ring_take ring_list ring_room ring_ok ring_put_front
proof (unfold_locales, goal_cases)
  case (1 q m)
  then show ?case
    using ring_put_eq [of q m] ring_put_ok [of q m] by (auto simp: ring_room_def)
next
  case (2 q m ms)
  then have "0 < q_size q" using length_ring_list [of q] by simp
  with 2 show ?case
    using ring_take_eq [of q] ring_take_ok [of q] ring_okD [of q] by (auto simp: ring_room_def)
next
  case (3 q m)
  then show ?case
    using ring_put_front_eq [of q m] ring_put_front_ok [of q m] by (auto simp: ring_room_def)
qed

end
