(* ===== verification/Queue_Unacked.thy ===== *)
theory Queue_Unacked
  imports Queue_Ring
begin

text \<open>
  The array of unacknowledged deliveries of \<open>src/core/queue.c\<close>: its invariant, the list it
  stands for, the search for a delivery tag, the in-place clean-up loop as a filter, and
  the growing insertion.
\<close>

definition live :: "DeliveryInfo \<Rightarrow> bool" where
  "live d \<longleftrightarrow> status d \<noteq> MESSAGE_STATUS_ACKNOWLEDGED"

definition ledger_ok :: "Queue \<Rightarrow> bool" where
  "ledger_ok q \<longleftrightarrow>
     filled (unacked_count q) (unacked_messages q) \<and>
     length (unacked_messages q) = unacked_capacity q \<and>
     0 < unacked_capacity q \<and> unacked_capacity q * sizeof_DeliveryInfo < 2 ^ 63"

definition unacked_list :: "Queue \<Rightarrow> DeliveryInfo list" where
  "unacked_list q = prefix (unacked_count q) (unacked_messages q)"

lemma length_unacked_list [simp]: "ledger_ok q \<Longrightarrow> length (unacked_list q) = unacked_count q"
  by (simp add: ledger_ok_def unacked_list_def filled_def)

lemma ledger_frame [simp]:
  "ledger_ok (q\<lparr>not_empty := c\<rparr>) = ledger_ok q" "unacked_list (q\<lparr>not_empty := c\<rparr>) = unacked_list q"
  "ledger_ok (q\<lparr>not_full := c\<rparr>) = ledger_ok q" "unacked_list (q\<lparr>not_full := c\<rparr>) = unacked_list q"
  "ledger_ok (q\<lparr>durable := d\<rparr>) = ledger_ok q" "unacked_list (q\<lparr>durable := d\<rparr>) = unacked_list q"
  "ledger_ok (q\<lparr>next_delivery_tag := t\<rparr>) = ledger_ok q"
  "unacked_list (q\<lparr>next_delivery_tag := t\<rparr>) = unacked_list q"
  by (simp_all add: ledger_ok_def unacked_list_def)

lemma ledger_moves [simp]:
  "ledger_ok (put_state m q) = ledger_ok q" "unacked_list (put_state m q) = unacked_list q"
  "ledger_ok (take_state q) = ledger_ok q" "unacked_list (take_state q) = unacked_list q"
  "ledger_ok (put_front_state m q) = ledger_ok q"
  "unacked_list (put_front_state m q) = unacked_list q"
  by (simp_all add: ledger_ok_def unacked_list_def put_state_def take_state_def put_front_state_def)

lemma ledger_slot_get:
  "ledger_ok q \<Longrightarrow> i < unacked_count q \<Longrightarrow> slot_get (unacked_messages q) i = Inr (unacked_list q ! i)"
  by (simp add: ledger_ok_def unacked_list_def slot_get_filled)

subsection \<open>The search\<close>

lemma find_tag_skip:
  assumes "filled count arr" and "i < count" and "delivery_tag (prefix count arr ! i) \<noteq> tag"
  shows "find_tag arr count tag i = find_tag arr count tag (Suc i)"
  using assms by (subst find_tag.simps) (simp add: slot_get_filled)

lemma find_tag_none:
  assumes "filled count arr" and "\<And>j. i \<le> j \<Longrightarrow> j < count \<Longrightarrow> delivery_tag (prefix count arr ! j) \<noteq> tag"
  shows "find_tag arr count tag i = Inr None"
  using assms(2)
proof (induction "count - i" arbitrary: i)
  case 0
  then show ?case by (subst find_tag.simps) simp
next
  case (Suc n)
  with find_tag_skip [OF assms(1), of i tag] show ?case by simp
qed

lemma find_tag_some:
  assumes "filled count arr" and "i \<le> k" and "k < count" and "delivery_tag (prefix count arr ! k) = tag"
    and "\<And>j. i \<le> j \<Longrightarrow> j < k \<Longrightarrow> delivery_tag (prefix count arr ! j) \<noteq> tag"
  shows "find_tag arr count tag i = Inr (Some k)"
  using assms(2,5)
proof (induction "k - i" arbitrary: i)
  case 0
  with assms show ?case by (subst find_tag.simps) (simp add: slot_get_filled)
next
  case (Suc n)
  with find_tag_skip [OF assms(1), of i tag] assms(3) show ?case by simp
qed

lemma find_tag_absent:
  assumes "ledger_ok q" and "tag \<notin> delivery_tag ` set (unacked_list q)"
  shows "find_tag (unacked_messages q) (unacked_count q) tag 0 = Inr None"
proof (rule find_tag_none)
  show "filled (unacked_count q) (unacked_messages q)" using assms by (simp add: ledger_ok_def)
  show "delivery_tag (prefix (unacked_count q) (unacked_messages q) ! j) \<noteq> tag"
    if "j < unacked_count q" for j
    using that assms nth_mem [of j "unacked_list q"] by (auto simp: unacked_list_def [symmetric])
qed

text \<open>With distinct tags, the search finds the entry that has the tag.\<close>

lemma find_tag_present:
  assumes "ledger_ok q" and "distinct (map delivery_tag (unacked_list q))"
    and "k < unacked_count q" and "delivery_tag (unacked_list q ! k) = tag"
  shows "find_tag (unacked_messages q) (unacked_count q) tag 0 = Inr (Some k)"
proof (rule find_tag_some)
  show "filled (unacked_count q) (unacked_messages q)" using assms by (simp add: ledger_ok_def)
  show "delivery_tag (prefix (unacked_count q) (unacked_messages q) ! j) \<noteq> tag" if "j < k" for j
    using that assms nth_eq_iff_index_eq [OF assms(2), of j k]
    by (auto simp: unacked_list_def [symmetric])
qed (use assms in \<open>simp_all add: unacked_list_def\<close>)

subsection \<open>The clean-up loop is a filter\<close>

lemma compact_from:
  assumes "nc \<le> i" and "i \<le> count" and "filled count arr"
  shows "\<exists>arr'. compact count i arr nc =
      Inr (arr', nc + length (filter live (drop i (prefix count arr)))) \<and>
    length arr' = length arr \<and>
    filled (nc + length (filter live (drop i (prefix count arr)))) arr' \<and>
    prefix (nc + length (filter live (drop i (prefix count arr)))) arr' =
      prefix nc arr @ filter live (drop i (prefix count arr))"
  using assms
proof (induction count i arr nc rule: compact.induct)
  case (1 count i arr nc)
  show ?case
  proof (cases "i < count")
    case False
    then have "drop i (prefix count arr) = []" using "1.prems" by (simp add: filled_def)
    moreover have "compact count i arr nc = Inr (arr, nc)"
      using False by (simp add: compact.simps [of count i arr nc])
    ultimately show ?thesis using "1.prems" by (simp add: filled_mono)
  next
    case True
    let ?d = "prefix count arr ! i"
    have len: "count \<le> length arr" using "1.prems" by (simp add: filled_def)
    have g: "slot_get arr i = Inr ?d" using "1.prems" True by (simp add: slot_get_filled)
    have tl: "drop i (prefix count arr) = ?d # drop (Suc i) (prefix count arr)"
      using True len by (simp add: Cons_nth_drop_Suc)
    show ?thesis
    proof (cases "live ?d")
      case False
      then have "compact count i arr nc = compact count (Suc i) arr nc"
        using True g by (simp add: compact.simps [of count i arr nc] live_def)
      with "1.IH"(2) [OF True g] False "1.prems" True show ?thesis
        by (simp add: tl live_def)
    next
      case live: True
      let ?arr = "arr[nc := Some ?d]"
      obtain x where "arr ! i = Some x" using filled_nth [OF "1.prems"(3) True] by blast
      then have "arr ! i = Some ?d" using True len by (simp add: prefix_nth)
      then have put: "(if i \<noteq> nc then slot_put arr nc ?d else Inr arr) = Inr ?arr"
        using "1.prems" True len list_update_id [of arr i] by (auto simp: slot_put_def)
      have step: "compact count i arr nc = compact count (Suc i) ?arr (Suc nc)"
        using True g put live by (simp add: compact.simps [of count i arr nc] live_def)
      have rest: "drop (Suc i) (prefix count ?arr) = drop (Suc i) (prefix count arr)"
        using "1.prems" True len by (simp add: prefix_update)
      have pre: "prefix (Suc nc) ?arr = prefix nc arr @ [?d]"
        using "1.prems" True len by (simp add: prefix_Suc_put)
      have "filled count ?arr" using "1.prems" by (simp add: filled_update)
      with "1.IH"(1) [OF True g live [unfolded live_def] put] "1.prems" True live
      show ?thesis unfolding step by (simp add: tl rest pre live_def)
    qed
  qed
qed

lemma cleanup_ok:
  assumes "ledger_ok q"
  shows "\<exists>arr n. cleanup q = Inr (q\<lparr>unacked_messages := arr, unacked_count := n\<rparr>) \<and>
    ledger_ok (q\<lparr>unacked_messages := arr, unacked_count := n\<rparr>) \<and>
    unacked_list (q\<lparr>unacked_messages := arr, unacked_count := n\<rparr>) = filter live (unacked_list q)"
  using compact_from [of 0 0 "unacked_count q" "unacked_messages q"] assms
  by (auto simp: cleanup_def ledger_ok_def unacked_list_def)

lemma ledger_update:
  assumes "ledger_ok q" and "i < unacked_count q"
  shows "ledger_ok (q\<lparr>unacked_messages := (unacked_messages q)[i := Some d]\<rparr>) \<and>
    unacked_list (q\<lparr>unacked_messages := (unacked_messages q)[i := Some d]\<rparr>) =
      (unacked_list q)[i := d]"
proof -
  have "unacked_count q \<le> length (unacked_messages q)" using assms by (simp add: ledger_ok_def filled_def)
  with assms show ?thesis
    by (simp add: ledger_ok_def unacked_list_def filled_update prefix_update)
qed

lemma mark_ok:
  assumes "ledger_ok q" and "i < unacked_count q"
  shows "\<exists>arr. mark_acknowledged i q = Inr (q\<lparr>unacked_messages := arr\<rparr>) \<and>
    ledger_ok (q\<lparr>unacked_messages := arr\<rparr>) \<and>
    unacked_list (q\<lparr>unacked_messages := arr\<rparr>) =
      (unacked_list q)[i := (unacked_list q ! i)\<lparr>status := MESSAGE_STATUS_ACKNOWLEDGED\<rparr>]"
proof -
  have "i < length (unacked_messages q)" using assms by (auto simp: ledger_ok_def filled_def)
  then have "mark_acknowledged i q = Inr (q\<lparr>unacked_messages := (unacked_messages q)
      [i := Some ((unacked_list q ! i)\<lparr>status := MESSAGE_STATUS_ACKNOWLEDGED\<rparr>)]\<rparr>)"
    using assms by (simp add: mark_acknowledged_def ledger_slot_get c_simps)
  with ledger_update [OF assms] show ?thesis by blast
qed

lemma filter_live_mark:
  assumes "i < length ds" and "list_all live ds"
  shows "filter live (ds[i := (ds ! i)\<lparr>status := MESSAGE_STATUS_ACKNOWLEDGED\<rparr>]) =
    take i ds @ drop (Suc i) ds"
proof -
  have "list_all live (take i ds)" "list_all live (drop (Suc i) ds)"
    using assms(2) by (auto simp: list_all_iff dest: in_set_takeD in_set_dropD)
  with assms(1) show ?thesis
    by (simp add: upd_conv_take_nth_drop live_def filter_id_conv list_all_iff)
qed

subsection \<open>Adding a delivery\<close>

definition delivery :: "addr \<Rightarrow> Queue \<Rightarrow> int \<Rightarrow> DeliveryInfo" where
  "delivery m q now = \<lparr>di_message = m, delivery_tag = next_delivery_tag q, delivery_time = now,
     status = MESSAGE_STATUS_DELIVERED\<rparr>"

lemma ledger_add:
  assumes "filled n arr" and "length arr = c" and "n < c" and "c * sizeof_DeliveryInfo < 2 ^ 63"
    and "unacked_list q = prefix n arr"
  shows "ledger_ok (q\<lparr>unacked_messages := arr[n := Some d], unacked_capacity := c,
      unacked_count := Suc n, next_delivery_tag := t\<rparr>) \<and>
    unacked_list (q\<lparr>unacked_messages := arr[n := Some d], unacked_capacity := c,
      unacked_count := Suc n, next_delivery_tag := t\<rparr>) = unacked_list q @ [d]"
  using assms by (auto simp: ledger_ok_def unacked_list_def filled_Suc_put prefix_Suc_put)

text \<open>
  Either there is no room and no memory for more, and nothing changes, or the delivery is
  appended with the next tag. In both cases the ring is untouched.
\<close>

lemma add_to_unacked_cases:
  assumes ok: "ledger_ok q"
  shows "(\<exists>k. add_to_unacked m q s = Inr (None, q, s\<lparr>sys_calls := k\<rparr>) \<and>
           unacked_count q = unacked_capacity q \<and> \<not> (sys_ok s (sys_calls s) \<and>
             unacked_capacity q * 2 * sizeof_DeliveryInfo < 2 ^ 63)) \<or>
         (\<exists>k arr c n q'. add_to_unacked m q s = Inr (Some (next_delivery_tag q), q', s\<lparr>sys_calls := k\<rparr>) \<and>
           q' = q\<lparr>unacked_messages := arr, unacked_capacity := c, unacked_count := n,
             next_delivery_tag := next_delivery_tag q + 1\<rparr> \<and>
           ledger_ok q' \<and> unacked_list q' = unacked_list q @ [delivery m q (clock s)])"
proof -
  let ?arr = "unacked_messages q" and ?n = "unacked_count q" and ?c = "unacked_capacity q"
  have f: "filled ?n ?arr" and l: "length ?arr = ?c" and pos: "0 < ?c"
    and b: "?c * sizeof_DeliveryInfo < 2 ^ 63" and le: "?n \<le> ?c"
    using ok by (auto simp: ledger_ok_def filled_def)
  have n1: "sz_add ?n 1 = Suc ?n" using b le by (simp add: sz_add_def sizeof_DeliveryInfo_def)
  show ?thesis
  proof (cases "?n < ?c")
    case True
    let ?q' = "q\<lparr>unacked_messages := ?arr[?n := Some (delivery m q (clock s))], unacked_capacity := ?c,
      unacked_count := Suc ?n, next_delivery_tag := next_delivery_tag q + 1\<rparr>"
    have "add_to_unacked m q s = Inr (Some (next_delivery_tag q), ?q', s\<lparr>sys_calls := sys_calls s\<rparr>)"
      using True l n1 by (simp add: add_to_unacked_def delivery_def Let_def c_simps)
    with ledger_add [OF f l True b unacked_list_def] show ?thesis by blast
  next
    case False
    then have full: "?n = ?c" using le by simp
    have c2: "sz_mul ?c 2 = ?c * 2" "sz_mul (?c * 2) sizeof_DeliveryInfo = ?c * 2 * sizeof_DeliveryInfo"
      using b by (simp_all add: sz_mul_def sizeof_DeliveryInfo_def)
    show ?thesis
    proof (cases "sys_ok s (sys_calls s) \<and> ?c * 2 * sizeof_DeliveryInfo < 2 ^ 63")
      case False
      with full show ?thesis
        by (auto simp: add_to_unacked_def sys_malloc_def c2 Let_def)
    next
      case True
      let ?new = "realloc_slots ?arr (?c * 2 * sizeof_DeliveryInfo) sizeof_DeliveryInfo"
      let ?q' = "q\<lparr>unacked_messages := ?new[?n := Some (delivery m q (clock s))],
        unacked_capacity := ?c * 2, unacked_count := Suc ?n,
        next_delivery_tag := next_delivery_tag q + 1\<rparr>"
      have new: "?new = ?arr @ replicate ?c None"
        using l by (simp add: realloc_slots_def sizeof_DeliveryInfo_def)
      have fill: "filled ?n ?new" and len: "length ?new = ?c * 2"
        and same: "unacked_list q = prefix ?n ?new"
        using f l full by (auto simp: new filled_def prefix_def unacked_list_def)
      have "add_to_unacked m q s =
          Inr (Some (next_delivery_tag q), ?q', s\<lparr>sys_calls := Suc (sys_calls s)\<rparr>)"
        using True full pos n1 len
        by (simp add: add_to_unacked_def sys_malloc_def c2 Let_def delivery_def c_simps)
      moreover have "?n < ?c * 2" using full pos by simp
      ultimately show ?thesis using ledger_add [OF fill len _ _ same] True by blast
    qed
  qed
qed

end
