(* ===== verification/Queue_Safety.thy ===== *)
theory Queue_Safety
  imports Queue_Unacked
begin

text \<open>
  The queue of \<open>src/core/queue.c\<close> as a whole: the invariant of a queue and of the messages
  it owns, an abstract queue (the ready messages in order, the deliveries pending an
  acknowledgement), and for every operation the proof that it does not fault, keeps the
  invariant and does on the abstract queue what its specification says.
\<close>

subsection \<open>Invariant and ownership\<close>

definition queue_ok :: "Queue \<Rightarrow> bool" where
  "queue_ok q \<longleftrightarrow>
     ring_ok q \<and> ledger_ok q \<and>
     (\<forall>d\<in>set (unacked_list q). status d = MESSAGE_STATUS_DELIVERED \<and>
        unat (delivery_tag d) < unat (next_delivery_tag q)) \<and>
     distinct (map delivery_tag (unacked_list q))"

text \<open>The messages a queue owns: each once, and all of them allocated.\<close>

definition held :: "Queue \<Rightarrow> addr list" where
  "held q = ring_list q @ map di_message (unacked_list q)"

definition queue_at :: "addr \<Rightarrow> 'z qmem_scheme \<Rightarrow> Queue \<Rightarrow> bool" where
  "queue_at qa s q \<longleftrightarrow>
     queues s qa = Some q \<and> queue_ok q \<and> distinct (held q) \<and>
     (\<forall>a\<in>set (held q). msgs s a \<noteq> None)"

lemma queue_atD:
  assumes "queue_at qa s q"
  shows "queues s qa = Some q" "queue_ok q" "ring_ok q" "ledger_ok q" "distinct (held q)"
    "distinct (map delivery_tag (unacked_list q))" "list_all live (unacked_list q)"
    "a \<in> set (held q) \<Longrightarrow> msgs s a \<noteq> None"
  using assms by (auto simp: queue_at_def queue_ok_def list_all_iff live_def)

lemma put_queue_simps [simp]:
  "queues (put_queue a q s) = (queues s)(a \<mapsto> q)" "msgs (put_queue a q s) = msgs s"
  "brk (put_queue a q s) = brk s" "clock (put_queue a q s) = clock s"
  "sys_ok (put_queue a q s) = sys_ok s" "sys_calls (put_queue a q s) = sys_calls s"
  by (simp_all add: put_queue_def)

lemma put_queue_same: "queues s a = Some q \<Longrightarrow> put_queue a q s = s"
  by (simp add: put_queue_def map_upd_triv)

text \<open>The fields that acknowledging, rejecting and timing out leave alone.\<close>

definition same_conds :: "Queue \<Rightarrow> Queue \<Rightarrow> bool" where
  "same_conds q q' \<longleftrightarrow> not_empty q' = not_empty q \<and> not_full q' = not_full q \<and> q_name q' = q_name q \<and>
     capacity q' = capacity q"

lemma same_conds_simps [simp]:
  "same_conds q q"
  "same_conds q (q'\<lparr>unacked_messages := arr\<rparr>) = same_conds q q'"
  "same_conds q (q'\<lparr>unacked_count := n\<rparr>) = same_conds q q'"
  "same_conds q (put_front_state m q') = same_conds q q'"
  by (simp_all add: same_conds_def)

subsection \<open>The abstract queue\<close>

record aqueue =
  a_ready :: "addr list"
  a_pending :: "(u64 \<times> int \<times> addr) list"
  a_capacity :: nat
  a_next :: u64

definition pending_of :: "DeliveryInfo \<Rightarrow> u64 \<times> int \<times> addr" where
  "pending_of d = (delivery_tag d, delivery_time d, di_message d)"

definition abs_queue :: "Queue \<Rightarrow> aqueue" where
  "abs_queue q = \<lparr>a_ready = ring_list q, a_pending = map pending_of (unacked_list q),
     a_capacity = capacity q, a_next = next_delivery_tag q\<rparr>"

lemma abs_queue_frame [simp]:
  "abs_queue (q\<lparr>not_empty := c\<rparr>) = abs_queue q" "abs_queue (q\<lparr>not_full := c\<rparr>) = abs_queue q"
  "abs_queue (q\<lparr>durable := d\<rparr>) = abs_queue q"
  by (simp_all add: abs_queue_def)

lemma queue_ok_frame [simp]:
  "queue_ok (q\<lparr>not_empty := c\<rparr>) = queue_ok q" "queue_ok (q\<lparr>not_full := c\<rparr>) = queue_ok q"
  "queue_ok (q\<lparr>durable := d\<rparr>) = queue_ok q"
  "held (q\<lparr>not_empty := c\<rparr>) = held q" "held (q\<lparr>not_full := c\<rparr>) = held q"
  "held (q\<lparr>durable := d\<rparr>) = held q"
  by (simp_all add: queue_ok_def held_def)

text \<open>What each operation means on it; a set of freed messages comes with those that free.\<close>

definition spec_try_enqueue :: "addr \<Rightarrow> aqueue \<Rightarrow> bool \<times> aqueue" where
  "spec_try_enqueue m A =
     (if length (a_ready A) = a_capacity A then (False, A)
      else (True, A\<lparr>a_ready := a_ready A @ [m]\<rparr>))"

definition spec_try_dequeue :: "int \<Rightarrow> aqueue \<Rightarrow> (addr \<times> u64) option \<times> aqueue" where
  "spec_try_dequeue now A =
     (case a_ready A of
        [] \<Rightarrow> (None, A)
      | m # ms \<Rightarrow> (Some (m, a_next A),
          A\<lparr>a_ready := ms, a_pending := a_pending A @ [(a_next A, now, m)], a_next := a_next A + 1\<rparr>))"

definition without_tag :: "u64 \<Rightarrow> (u64 \<times> int \<times> addr) list \<Rightarrow> (u64 \<times> int \<times> addr) list" where
  "without_tag tag ps = filter (\<lambda>p. fst p \<noteq> tag) ps"

fun message_of_tag :: "u64 \<Rightarrow> (u64 \<times> int \<times> addr) list \<Rightarrow> addr option" where
  "message_of_tag tag [] = None"
| "message_of_tag tag ((t, time, m) # ps) = (if t = tag then Some m else message_of_tag tag ps)"

definition spec_ack :: "u64 \<Rightarrow> aqueue \<Rightarrow> bool \<times> addr set \<times> aqueue" where
  "spec_ack tag A =
     (case message_of_tag tag (a_pending A) of
        None \<Rightarrow> (False, {}, A)
      | Some m \<Rightarrow> (True, {m}, A\<lparr>a_pending := without_tag tag (a_pending A)\<rparr>))"

definition spec_reject :: "u64 \<Rightarrow> bool \<Rightarrow> aqueue \<Rightarrow> bool \<times> addr set \<times> aqueue" where
  "spec_reject tag requeue A =
     (case message_of_tag tag (a_pending A) of
        None \<Rightarrow> (False, {}, A)
      | Some m \<Rightarrow>
          let A' = A\<lparr>a_pending := without_tag tag (a_pending A)\<rparr> in
          if requeue \<and> length (a_ready A) < a_capacity A
          then (True, {}, A'\<lparr>a_ready := m # a_ready A\<rparr>)
          else (True, {m}, A'))"

text \<open>
  Timed-out deliveries leave the pending list; as many as there is room for go to the front
  of the ready list, the last one first; the others are freed.
\<close>

definition spec_timeouts :: "int \<Rightarrow> int \<Rightarrow> aqueue \<Rightarrow> addr set \<times> aqueue" where
  "spec_timeouts now timeout A =
     (let expired = map (snd \<circ> snd) (filter (\<lambda>(t, time, m). now - time > timeout) (a_pending A));
          room = a_capacity A - length (a_ready A)
      in (set (drop room expired),
          A\<lparr>a_ready := rev (take room expired) @ a_ready A,
            a_pending := filter (\<lambda>(t, time, m). \<not> now - time > timeout) (a_pending A)\<rparr>))"

subsection \<open>Enqueueing\<close>

lemma try_enqueue_full:
  assumes "queues s qa = Some q" and "q_size q = capacity q"
  shows "queue_try_enqueue (Some qa) (Some m) s = Inr (False, s)"
  using assms by (simp add: queue_try_enqueue_def)

definition enqueued :: "addr \<Rightarrow> Queue \<Rightarrow> Queue" where
  "enqueued m q = (put_state m q)\<lparr>not_empty := cond_signal (not_empty q)\<rparr>"

lemma try_enqueue_room:
  assumes "queues s qa = Some q" and "ring_ok q" and "q_size q < capacity q"
  shows "queue_try_enqueue (Some qa) (Some m) s = Inr (True, put_queue qa (enqueued m q) s)"
  using assms by (simp add: queue_try_enqueue_def ring_put_eq enqueued_def)

lemma enqueued_ok:
  assumes "queue_at qa s q" and "q_size q < capacity q" and "msgs s m \<noteq> None" and "m \<notin> set (held q)"
  shows "queue_at qa (put_queue qa (enqueued m q) s) (enqueued m q)"
    and "abs_queue (enqueued m q) = (abs_queue q)\<lparr>a_ready := ring_list q @ [m]\<rparr>"
proof -
  note d = queue_atD [OF assms(1)] and p = ring_put_ok [OF _ assms(2), of m]
  have n: "next_delivery_tag (put_state m q) = next_delivery_tag q" by (simp add: put_state_def)
  show "queue_at qa (put_queue qa (enqueued m q) s) (enqueued m q)"
    using assms d(1-6) p by (auto simp: queue_at_def queue_ok_def held_def enqueued_def n)
  show "abs_queue (enqueued m q) = (abs_queue q)\<lparr>a_ready := ring_list q @ [m]\<rparr>"
    using d p by (simp add: enqueued_def abs_queue_def n)
qed

lemma try_enqueue_refines:
  assumes "queue_at qa s q" and "msgs s m \<noteq> None" and "m \<notin> set (held q)"
  shows "\<exists>q'. queue_try_enqueue (Some qa) (Some m) s =
      Inr (fst (spec_try_enqueue m (abs_queue q)), put_queue qa q' s) \<and>
    queue_at qa (put_queue qa q' s) q' \<and> abs_queue q' = snd (spec_try_enqueue m (abs_queue q))"
proof (cases "q_size q = capacity q")
  case True
  with assms queue_atD(1) [OF assms(1)] show ?thesis
    by (auto simp: try_enqueue_full spec_try_enqueue_def abs_queue_def put_queue_same intro!: exI [of _ q])
next
  case False
  then have "q_size q < capacity q" using ring_okD [OF queue_atD(3) [OF assms(1)]] by simp
  with enqueued_ok [OF assms(1) this assms(2,3)]
    try_enqueue_room [OF queue_atD(1) [OF assms(1)] queue_atD(3) [OF assms(1)] this]
  show ?thesis
    by (auto simp: spec_try_enqueue_def abs_queue_def)
qed

subsection \<open>Dequeueing\<close>

lemma unat_next: "(t :: u64) \<noteq> - 1 \<Longrightarrow> unat (t + 1) = Suc (unat t)"
  using unatSuc [of t] by (simp add: add.commute eq_neg_iff_add_eq_0)

text \<open>
  A delivery of the head message, when the array of unacknowledged deliveries has room or
  can grow: the message moves from the ready list to the pending ones under the next tag.
\<close>

lemma take_delivery_cases:
  assumes at: "queue_at qa s q" and some: "0 < q_size q"
    and tag: "next_delivery_tag q \<noteq> - 1"
  shows "(\<exists>k. take_delivery qa q s = Inr (None, put_queue qa q (s\<lparr>sys_calls := k\<rparr>)) \<and>
           unacked_count q = unacked_capacity q \<and> \<not> (sys_ok s (sys_calls s) \<and>
             unacked_capacity q * 2 * sizeof_DeliveryInfo < 2 ^ 63)) \<or>
         (\<exists>k q'. take_delivery qa q s =
             Inr (Some (hd (ring_list q), next_delivery_tag q), put_queue qa q' (s\<lparr>sys_calls := k\<rparr>)) \<and>
           queue_at qa (put_queue qa q' (s\<lparr>sys_calls := k\<rparr>)) q' \<and>
           abs_queue q' = (abs_queue q)\<lparr>a_ready := tl (ring_list q),
             a_pending := a_pending (abs_queue q) @ [(next_delivery_tag q, clock s, hd (ring_list q))],
             a_next := next_delivery_tag q + 1\<rparr> \<and>
           not_empty q' = not_empty q \<and> not_full q' = cond_signal (not_full q) \<and>
           q_name q' = q_name q)"
proof -
  note d = queue_atD [OF at]
  let ?m = "hd (ring_list q)" and ?q = "take_state q"
  have t: "ring_take q = Inr (?m, ?q)" by (rule ring_take_eq [OF d(3) some])
  have ring: "ring_ok ?q" "ring_list ?q = tl (ring_list q)"
    using ring_take_ok [OF d(3) some] by simp_all
  have list: "?m # tl (ring_list q) = ring_list q" using some by simp
  have frame: "unacked_count ?q = unacked_count q" "unacked_capacity ?q = unacked_capacity q"
    "next_delivery_tag ?q = next_delivery_tag q" "capacity ?q = capacity q"
    by (simp_all add: take_state_def)
  have led: "ledger_ok ?q" using d(4) by simp
  from add_to_unacked_cases [OF led, of ?m s] show ?thesis
  proof (elim disjE exE conjE, goal_cases)
    case (1 k)
    then show ?case
      using d some by (auto simp: take_delivery_def t frame ring_untake_eq)
  next
    case (2 k arr c n q')
    have suc: "unat (next_delivery_tag q + 1) = Suc (unat (next_delivery_tag q))"
      using tag by (rule unat_next)
    have q': "ring_ok q'" "ring_list q' = tl (ring_list q)" "capacity q' = capacity q"
      "next_delivery_tag q' = next_delivery_tag q + 1"
      "unacked_list q' = unacked_list q @ [delivery ?m ?q (clock s)]"
      using 2 ring by (simp_all add: frame)
    let ?r = "q'\<lparr>not_full := cond_signal (not_full q')\<rparr>"
    have rest: "held ?r = tl (ring_list q) @ map di_message (unacked_list q) @ [?m]"
      by (simp add: held_def q' delivery_def)
    have "held q = ?m # tl (ring_list q) @ map di_message (unacked_list q)"
      using list by (simp add: held_def)
    then have perm: "distinct (held ?r) = distinct (held q)" "set (held ?r) = set (held q)"
      unfolding rest by auto
    have ok: "queue_ok ?r"
      using d q' 2 suc by (auto simp: queue_ok_def delivery_def frame)
    have "queue_at qa (put_queue qa ?r (s\<lparr>sys_calls := k\<rparr>)) ?r"
      using ok d(5,8) unfolding queue_at_def perm by simp
    moreover have "abs_queue ?r = (abs_queue q)\<lparr>a_ready := tl (ring_list q),
        a_pending := a_pending (abs_queue q) @ [(next_delivery_tag q, clock s, ?m)],
        a_next := next_delivery_tag q + 1\<rparr>"
      using q' by (simp add: abs_queue_def pending_of_def delivery_def frame)
    moreover have "not_empty ?r = not_empty q" "not_full ?r = cond_signal (not_full q)"
      "q_name ?r = q_name q"
      using 2 by simp_all
    moreover have "take_delivery qa q s =
        Inr (Some (?m, next_delivery_tag q), put_queue qa ?r (s\<lparr>sys_calls := k\<rparr>))"
      using 2 by (simp add: take_delivery_def t frame)
    ultimately show ?case by blast
  qed
qed

lemma try_dequeue_empty:
  assumes "queues s qa = Some q" and "q_size q = 0"
  shows "queue_try_dequeue (Some qa) s = Inr (None, s)"
  using assms by (simp add: queue_try_dequeue_def)

lemma try_dequeue_some:
  assumes "queues s qa = Some q" and "0 < q_size q"
  shows "queue_try_dequeue (Some qa) s = take_delivery qa q s"
  using assms by (simp add: queue_try_dequeue_def)

subsection \<open>Removing a pending delivery\<close>

definition released :: "addr set \<Rightarrow> 'z mem_scheme \<Rightarrow> 'z mem_scheme" where
  "released F s = s\<lparr>msgs := msgs s |` (- F)\<rparr>"

lemma released_simps [simp]:
  "released {} s = s" "msgs (released F s) = msgs s |` (- F)"
  "brk (released F s) = brk s" "queues (released F t) = queues t" "clock (released F t) = clock t"
  by (simp_all add: released_def restrict_map_def)

lemma message_free_released:
  assumes "msgs s m \<noteq> None" and "m \<notin> F"
  shows "message_free (Some m) (released F s) = Inr (released (insert m F) s)"
proof -
  have "(msgs s |` (- F))(m := None) = msgs s |` (- insert m F)"
    by (auto simp: restrict_map_def fun_eq_iff)
  with assms show ?thesis
    by (auto simp: message_free_def released_def restrict_map_def)
qed

lemma without_index:
  assumes "distinct (map delivery_tag ds)" and "k < length ds"
  shows "take k ds @ drop (Suc k) ds = filter (\<lambda>d. delivery_tag d \<noteq> delivery_tag (ds ! k)) ds"
proof -
  have ds: "ds = take k ds @ ds ! k # drop (Suc k) ds"
    using assms(2) by (rule id_take_nth_drop)
  have "distinct (map delivery_tag (take k ds @ ds ! k # drop (Suc k) ds))"
    using assms(1) ds by simp
  then have "filter (\<lambda>d. delivery_tag d \<noteq> delivery_tag (ds ! k)) (take k ds) = take k ds"
    and "filter (\<lambda>d. delivery_tag d \<noteq> delivery_tag (ds ! k)) (drop (Suc k) ds) = drop (Suc k) ds"
    by (auto simp: filter_id_conv image_iff)
  then show ?thesis by (subst (4) ds) simp
qed

lemma message_of_tag_absent:
  "tag \<notin> delivery_tag ` set ds \<Longrightarrow> message_of_tag tag (map pending_of ds) = None"
  by (induction ds) (auto simp: pending_of_def)

lemma message_of_tag_present:
  "distinct (map delivery_tag ds) \<Longrightarrow> d \<in> set ds \<Longrightarrow>
   message_of_tag (delivery_tag d) (map pending_of ds) = Some (di_message d)"
  by (induction ds) (force simp: pending_of_def)+

lemma without_tag_pending:
  "without_tag tag (map pending_of ds) = map pending_of (filter (\<lambda>d. delivery_tag d \<noteq> tag) ds)"
  by (induction ds) (auto simp: without_tag_def pending_of_def)

text \<open>Marking one entry and cleaning up removes exactly that entry.\<close>

lemma remove_delivery:
  assumes ok: "queue_ok q" and k: "k < unacked_count q"
    and t: "delivery_tag (unacked_list q ! k) = tag"
  shows "\<exists>arr1 arr n. mark_acknowledged k q = Inr (q\<lparr>unacked_messages := arr1\<rparr>) \<and>
    cleanup (q\<lparr>unacked_messages := arr1\<rparr>) = Inr (q\<lparr>unacked_messages := arr, unacked_count := n\<rparr>) \<and>
    queue_ok (q\<lparr>unacked_messages := arr, unacked_count := n\<rparr>) \<and>
    unacked_list (q\<lparr>unacked_messages := arr, unacked_count := n\<rparr>) =
      filter (\<lambda>d. delivery_tag d \<noteq> tag) (unacked_list q)"
proof -
  have led: "ledger_ok q" and dist: "distinct (map delivery_tag (unacked_list q))"
    and lv: "list_all live (unacked_list q)"
    using ok by (auto simp: queue_ok_def list_all_iff live_def)
  from mark_ok [OF led k] obtain arr1 where m: "mark_acknowledged k q = Inr (q\<lparr>unacked_messages := arr1\<rparr>)"
    "ledger_ok (q\<lparr>unacked_messages := arr1\<rparr>)"
    "unacked_list (q\<lparr>unacked_messages := arr1\<rparr>) =
      (unacked_list q)[k := (unacked_list q ! k)\<lparr>status := MESSAGE_STATUS_ACKNOWLEDGED\<rparr>]" by blast
  from cleanup_ok [OF m(2)] obtain arr n where c:
    "cleanup (q\<lparr>unacked_messages := arr1\<rparr>) = Inr (q\<lparr>unacked_messages := arr, unacked_count := n\<rparr>)"
    "ledger_ok (q\<lparr>unacked_messages := arr, unacked_count := n\<rparr>)"
    "unacked_list (q\<lparr>unacked_messages := arr, unacked_count := n\<rparr>) =
      filter live (unacked_list (q\<lparr>unacked_messages := arr1\<rparr>))" by auto
  have u: "unacked_list (q\<lparr>unacked_messages := arr, unacked_count := n\<rparr>) =
      filter (\<lambda>d. delivery_tag d \<noteq> tag) (unacked_list q)"
    using filter_live_mark [OF _ lv, of k] without_index [OF dist, of k] k led t c(3) m(3) by simp
  have "queue_ok (q\<lparr>unacked_messages := arr, unacked_count := n\<rparr>)"
    using ok c(2) dist by (auto simp: queue_ok_def u distinct_map_filter)
  with m c u show ?thesis by blast
qed

lemma held_without:
  assumes "distinct (held q)" and "d \<in> set (unacked_list q)"
    and "distinct (map delivery_tag (unacked_list q))"
    and "ring_list q' = ring_list q"
    and "unacked_list q' = filter (\<lambda>d'. delivery_tag d' \<noteq> delivery_tag d) (unacked_list q)"
  shows "distinct (held q')" and "di_message d \<notin> set (held q')"
    and "set (held q') \<subseteq> set (held q)"
  using assms by (auto simp: held_def distinct_map_filter distinct_map inj_on_def)

lemma pending_index:
  assumes "ledger_ok q" and "d \<in> set (unacked_list q)"
  obtains k where "k < unacked_count q" and "unacked_list q ! k = d"
  using assms by (metis in_set_conv_nth length_unacked_list)

subsection \<open>Acknowledging\<close>

lemma ack_unknown:
  assumes at: "queue_at qa s q" and "tag \<notin> delivery_tag ` set (unacked_list q)"
  shows "queue_ack (Some qa) tag s = Inr (False, s)"
    and "queue_reject (Some qa) tag requeue s = Inr (False, s)"
  using queue_atD [OF at] find_tag_absent assms(2)
  by (simp_all add: queue_ack_def queue_reject_def)

lemma ack_known:
  assumes at: "queue_at qa s q" and d: "d \<in> set (unacked_list q)"
  shows "\<exists>q'. queue_ack (Some qa) (delivery_tag d) s =
      Inr (True, put_queue qa q' (released {di_message d} s)) \<and>
    queue_at qa (put_queue qa q' (released {di_message d} s)) q' \<and>
    abs_queue q' = (abs_queue q)\<lparr>a_pending := without_tag (delivery_tag d) (a_pending (abs_queue q))\<rparr> \<and>
    same_conds q q'"
proof -
  note w = queue_atD [OF at]
  obtain k where k: "k < unacked_count q" "unacked_list q ! k = d"
    by (rule pending_index [OF w(4) d])
  have m: "msgs s (di_message d) \<noteq> None" using w(8) d by (simp add: held_def)
  from remove_delivery [OF w(2) k(1)] k obtain arr1 arr n where r:
    "mark_acknowledged k q = Inr (q\<lparr>unacked_messages := arr1\<rparr>)"
    "cleanup (q\<lparr>unacked_messages := arr1\<rparr>) = Inr (q\<lparr>unacked_messages := arr, unacked_count := n\<rparr>)"
    "queue_ok (q\<lparr>unacked_messages := arr, unacked_count := n\<rparr>)"
    "unacked_list (q\<lparr>unacked_messages := arr, unacked_count := n\<rparr>) =
      filter (\<lambda>d'. delivery_tag d' \<noteq> delivery_tag d) (unacked_list q)" by auto
  let ?q' = "q\<lparr>unacked_messages := arr, unacked_count := n\<rparr>"
  have "queue_ack (Some qa) (delivery_tag d) s = Inr (True, put_queue qa ?q' (released {di_message d} s))"
    using w(1) find_tag_present [OF w(4) w(6) k(1)] k ledger_slot_get [OF w(4) k(1)] r
      message_free_released [OF m, of "{}"]
    by (simp add: queue_ack_def)
  moreover have "queue_at qa (put_queue qa ?q' (released {di_message d} s)) ?q'"
    using r(3,4) held_without [OF w(5) d w(6), of ?q'] w(8)
    by (auto simp: queue_at_def restrict_map_def)
  moreover have "abs_queue ?q' = (abs_queue q)\<lparr>a_pending :=
      without_tag (delivery_tag d) (a_pending (abs_queue q))\<rparr>"
    using r(4) by (simp add: abs_queue_def without_tag_pending)
  moreover have "same_conds q ?q'" by (simp add: same_conds_def)
  ultimately show ?thesis by blast
qed

lemma ack_refines:
  assumes at: "queue_at qa s q" and spec: "spec_ack tag (abs_queue q) = (r, F, A)"
  shows "\<exists>q'. queue_ack (Some qa) tag s = Inr (r, put_queue qa q' (released F s)) \<and>
    queue_at qa (put_queue qa q' (released F s)) q' \<and> abs_queue q' = A \<and> same_conds q q'"
proof (cases "tag \<in> delivery_tag ` set (unacked_list q)")
  case False
  then have "r = False" "F = {}" "A = abs_queue q"
    using spec by (simp_all add: spec_ack_def abs_queue_def message_of_tag_absent)
  with ack_unknown(1) [OF at False] at queue_atD(1) [OF at] show ?thesis
    by (auto simp: put_queue_same intro!: exI [of _ q])
next
  case True
  then obtain d where d: "d \<in> set (unacked_list q)" "delivery_tag d = tag" by auto
  have "message_of_tag tag (a_pending (abs_queue q)) = Some (di_message d)"
    using message_of_tag_present [OF queue_atD(6) [OF at] d(1)] d(2) by (simp add: abs_queue_def)
  with spec ack_known [OF at d(1)] d(2) show ?thesis by (auto simp: spec_ack_def)
qed

subsection \<open>Rejecting\<close>

lemma reject_refines:
  assumes at: "queue_at qa s q" and spec: "spec_reject tag requeue (abs_queue q) = (r, F, A)"
  shows "\<exists>q'. queue_reject (Some qa) tag requeue s = Inr (r, put_queue qa q' (released F s)) \<and>
    queue_at qa (put_queue qa q' (released F s)) q' \<and> abs_queue q' = A \<and> same_conds q q'"
proof (cases "tag \<in> delivery_tag ` set (unacked_list q)")
  case False
  then have "r = False" "F = {}" "A = abs_queue q"
    using spec by (simp_all add: spec_reject_def abs_queue_def message_of_tag_absent)
  with ack_unknown(2) [OF at False] at queue_atD(1) [OF at] show ?thesis
    by (auto simp: put_queue_same intro!: exI [of _ q])
next
  case True
  then obtain d where d: "d \<in> set (unacked_list q)" "delivery_tag d = tag" by auto
  note w = queue_atD [OF at]
  obtain k where k: "k < unacked_count q" "unacked_list q ! k = d"
    by (rule pending_index [OF w(4) d(1)])
  have m: "msgs s (di_message d) \<noteq> None" using w(8) d by (simp add: held_def)
  have mot: "message_of_tag tag (a_pending (abs_queue q)) = Some (di_message d)"
    using message_of_tag_present [OF w(6) d(1)] d(2) by (simp add: abs_queue_def)
  from remove_delivery [OF w(2) k(1)] k d(2) obtain arr1 arr n where rm:
    "mark_acknowledged k q = Inr (q\<lparr>unacked_messages := arr1\<rparr>)"
    "cleanup (q\<lparr>unacked_messages := arr1\<rparr>) = Inr (q\<lparr>unacked_messages := arr, unacked_count := n\<rparr>)"
    "queue_ok (q\<lparr>unacked_messages := arr, unacked_count := n\<rparr>)"
    "unacked_list (q\<lparr>unacked_messages := arr, unacked_count := n\<rparr>) =
      filter (\<lambda>d'. delivery_tag d' \<noteq> delivery_tag d) (unacked_list q)" by auto
  let ?q = "q\<lparr>unacked_messages := arr, unacked_count := n\<rparr>"
  have abs: "abs_queue ?q = (abs_queue q)\<lparr>a_pending := without_tag tag (a_pending (abs_queue q))\<rparr>"
    using rm(4) d(2) by (simp add: abs_queue_def without_tag_pending)
  have ring: "ring_ok ?q" using rm(3) by (simp add: queue_ok_def)
  note find = find_tag_present [OF w(4) w(6) k(1)] k ledger_slot_get [OF w(4) k(1)]
  note rest = held_without [OF w(5) d(1) w(6), of ?q] rm(4)
  show ?thesis
  proof (cases "requeue \<and> q_size q < capacity q")
    case True
    have "queue_reject (Some qa) tag requeue s = Inr (True, put_queue qa (put_front_state (di_message d) ?q) s)"
      using w(1) find d(2) rm(1,2) True ring_put_front_eq [OF ring]
      by (simp add: queue_reject_def)
    moreover have "queue_at qa (put_queue qa (put_front_state (di_message d) ?q) s)
        (put_front_state (di_message d) ?q)"
      using ring_put_front_ok [OF ring, of "di_message d"] True rest rm(3) w(8) m
      by (auto simp: queue_at_def queue_ok_def held_def)
    moreover have "abs_queue (put_front_state (di_message d) ?q) = A" and "F = {}" and "r = True"
      using spec True mot abs ring_put_front_ok [OF ring, of "di_message d"]
      by (auto simp: spec_reject_def Let_def abs_queue_def)
    moreover have "same_conds q (put_front_state (di_message d) ?q)" by (simp add: same_conds_def)
    ultimately show ?thesis by auto
  next
    case False
    have le: "q_size q \<le> capacity q" using ring_okD [OF w(3)] by simp
    have "queue_reject (Some qa) tag requeue s =
        Inr (True, put_queue qa ?q (released {di_message d} s))"
      using w(1) find d(2) rm(1,2) False le message_free_released [OF m, of "{}"]
      by (auto simp: queue_reject_def)
    moreover have "queue_at qa (put_queue qa ?q (released {di_message d} s)) ?q"
      using rm(3) rest w(8) by (auto simp: queue_at_def restrict_map_def)
    moreover have "abs_queue ?q = A" and "F = {di_message d}" and "r = True"
      using spec False mot abs by (auto simp: spec_reject_def Let_def abs_queue_def)
    moreover have "same_conds q ?q" by (simp add: same_conds_def)
    ultimately show ?thesis by auto
  qed
qed

subsection \<open>Timeouts\<close>

definition expired :: "int \<Rightarrow> int \<Rightarrow> DeliveryInfo \<Rightarrow> bool" where
  "expired now timeout d \<longleftrightarrow> now - delivery_time d > timeout"

definition mark_expired :: "int \<Rightarrow> int \<Rightarrow> DeliveryInfo \<Rightarrow> DeliveryInfo" where
  "mark_expired now timeout d =
     (if expired now timeout d then d\<lparr>status := MESSAGE_STATUS_ACKNOWLEDGED\<rparr> else d)"

text \<open>
  The state of the loop after \<open>i\<close> entries: the expired ones among them are marked, the first
  of their messages, as many as there was room for, have been pushed on the ready list one
  after the other, and the rest have been freed.
\<close>

definition timeout_inv ::
    "int \<Rightarrow> int \<Rightarrow> Queue \<Rightarrow> 'z qmem_scheme \<Rightarrow> nat \<Rightarrow> Queue \<times> 'z qmem_scheme \<times> nat \<Rightarrow> bool" where
  "timeout_inv now timeout q s i st \<longleftrightarrow>
     (let ds = unacked_list q;
          ms = map di_message (filter (expired now timeout) (take i ds));
          room = capacity q - q_size q
      in case st of (q', s', r) \<Rightarrow>
        ring_ok q' \<and> ledger_ok q' \<and>
        ring_list q' = rev (take room ms) @ ring_list q \<and>
        unacked_list q' = map (mark_expired now timeout) (take i ds) @ drop i ds \<and>
        unacked_count q' = unacked_count q \<and> capacity q' = capacity q \<and>
        next_delivery_tag q' = next_delivery_tag q \<and> same_conds q q' \<and>
        s' = released (set (drop room ms)) s \<and> r = length (take room ms))"

lemma timeout_step:
  assumes at: "queue_at qa s q" and i: "i < unacked_count q"
    and inv: "timeout_inv now timeout q s i st"
  shows "\<exists>st'. timeout_body now timeout i st = Inr st' \<and> timeout_inv now timeout q s (Suc i) st'"
proof -
  note w = queue_atD [OF at]
  define ds where "ds = unacked_list q"
  define ms where "ms = map di_message (filter (expired now timeout) (take i ds))"
  define room where "room = capacity q - q_size q"
  define d where "d = ds ! i"
  obtain q' s' r where st: "st = (q', s', r)" by (cases st) auto
  have q': "ring_ok q'" "ledger_ok q'" "ring_list q' = rev (take room ms) @ ring_list q"
    "unacked_list q' = map (mark_expired now timeout) (take i ds) @ drop i ds"
    "unacked_count q' = unacked_count q" "capacity q' = capacity q"
    "next_delivery_tag q' = next_delivery_tag q" "same_conds q q'"
    "s' = released (set (drop room ms)) s" "r = length (take room ms)"
    using inv by (simp_all add: timeout_inv_def st ds_def ms_def room_def Let_def)
  have len: "i < length ds" using i w(4) by (simp add: ds_def)
  have nth: "unacked_list q' ! i = d" using len by (simp add: q'(4) nth_append d_def)
  have get: "slot_get (unacked_messages q') i = Inr d"
    using ledger_slot_get [OF q'(2), of i] i q'(5) nth by simp
  have del: "status d = MESSAGE_STATUS_DELIVERED"
    using w(2) len by (simp add: queue_ok_def ds_def d_def)
  have tk: "take (Suc i) ds = take i ds @ [d]" using len by (simp add: d_def take_Suc_conv_app_nth)
  have dr: "drop i ds = d # drop (Suc i) ds" using len by (simp add: d_def Cons_nth_drop_Suc)
  show ?thesis
  proof (cases "expired now timeout d")
    case False
    then have "timeout_body now timeout i st = Inr st"
      by (simp add: timeout_body_def st get expired_def)
    moreover have "timeout_inv now timeout q s (Suc i) st"
      using inv False dr tk
      by (simp add: timeout_inv_def st ds_def [symmetric] mark_expired_def)
    ultimately show ?thesis by blast
  next
    case True
    from mark_ok [OF q'(2), of i] i q'(5) obtain arr where m:
      "mark_acknowledged i q' = Inr (q'\<lparr>unacked_messages := arr\<rparr>)"
      "ledger_ok (q'\<lparr>unacked_messages := arr\<rparr>)"
      "unacked_list (q'\<lparr>unacked_messages := arr\<rparr>) =
        (unacked_list q')[i := d\<lparr>status := MESSAGE_STATUS_ACKNOWLEDGED\<rparr>]"
      using nth by auto
    let ?q = "q'\<lparr>unacked_messages := arr\<rparr>"
    have u: "unacked_list ?q = map (mark_expired now timeout) (take (Suc i) ds) @ drop (Suc i) ds"
      using len True by (simp add: m(3) q'(4) tk dr list_update_append mark_expired_def)
    have ms1: "map di_message (filter (expired now timeout) (take (Suc i) ds)) = ms @ [di_message d]"
      using True by (simp add: tk ms_def)
    have len1: "length (filter (expired now timeout) (take (Suc i) ds)) = Suc (length ms)"
      using arg_cong [OF ms1, of length] by simp
    have size: "q_size q' = length (take room ms) + q_size q"
      using q'(3) length_ring_list [of q'] by simp
    have room: "q_size q' < capacity q' \<longleftrightarrow> length ms < room"
      using size ring_okD [OF w(3)] by (auto simp: q'(6) room_def)
    show ?thesis
    proof (cases "length ms < room")
      case True
      let ?f = "put_front_state (di_message d) ?q"
      have fr: "ring_ok ?q" "q_size ?q < capacity ?q" using q'(1) room True by simp_all
      have "timeout_body now timeout i st = Inr (?f, s', Suc r)"
        using \<open>expired now timeout d\<close> del room True ring_put_front_eq [OF fr]
        by (simp add: timeout_body_def st get expired_def m(1))
      moreover have "timeout_inv now timeout q s (Suc i) (?f, s', Suc r)"
        using ring_put_front_ok [OF fr, of "di_message d"] m(2) u q' True ms1 len1
        by (simp add: timeout_inv_def ds_def [symmetric] room_def [symmetric])
      ultimately show ?thesis by blast
    next
      case False
      have dl: "di_message d \<in> set (held q)" using len by (simp add: held_def ds_def d_def)
      have "distinct (map di_message (take i ds @ d # drop (Suc i) ds))"
        using w(5) id_take_nth_drop [OF len] by (simp add: held_def ds_def [symmetric] d_def)
      then have "di_message d \<notin> set (map di_message (take i ds))" by auto
      then have nin: "di_message d \<notin> set (drop room ms)"
        by (auto simp: ms_def dest!: in_set_dropD)
      have "timeout_body now timeout i st =
          Inr (?q, released (insert (di_message d) (set (drop room ms))) s, r)"
        using \<open>expired now timeout d\<close> del room False message_free_released [OF w(8) [OF dl] nin]
        by (simp add: timeout_body_def st get expired_def m(1) q'(9))
      moreover have "timeout_inv now timeout q s (Suc i)
          (?q, released (insert (di_message d) (set (drop room ms))) s, r)"
        using m(2) u q' False ms1 len1
        by (simp add: timeout_inv_def ds_def [symmetric] room_def [symmetric])
      ultimately show ?thesis by blast
    qed
  qed
qed

lemma timeout_loop:
  assumes at: "queue_at qa s q" and "n \<le> unacked_count q"
  shows "\<exists>st. for_loop (timeout_body now timeout) [0..<n] (q, s, 0) = Inr st \<and>
    timeout_inv now timeout q s n st"
  using assms(2)
proof (induction n)
  case 0
  then show ?case using queue_atD [OF at] by (simp add: timeout_inv_def)
next
  case (Suc n)
  then obtain st where st: "for_loop (timeout_body now timeout) [0..<n] (q, s, 0) = Inr st"
    "timeout_inv now timeout q s n st" by auto
  with timeout_step [OF at _ st(2)] Suc.prems show ?case by (auto simp: for_loop_append)
qed

lemma filter_live_marked:
  "list_all live ds \<Longrightarrow>
   filter live (map (mark_expired now timeout) ds) = filter (\<lambda>d. \<not> expired now timeout d) ds"
  by (induction ds) (auto simp: mark_expired_def live_def)

lemma expired_pending:
  "filter (\<lambda>(t, time, m). now - time > timeout) (map pending_of ds) =
     map pending_of (filter (expired now timeout) ds)"
  "filter (\<lambda>(t, time, m). \<not> now - time > timeout) (map pending_of ds) =
     map pending_of (filter (\<lambda>d. \<not> expired now timeout d) ds)"
  by (induction ds) (auto simp: pending_of_def expired_def)

lemma process_timeouts_off:
  "timeout \<le> 0 \<Longrightarrow> queue_process_timeouts (Some qa) timeout s = Inr s"
  by (simp add: queue_process_timeouts_def)

text \<open>
  The clean-up runs only when a message was requeued. So the specification is met when the
  ready list has room, or when nothing has expired.
\<close>

lemma timeouts_refine:
  assumes at: "queue_at qa s q" and pos: "0 < timeout"
    and room: "q_size q < capacity q \<or> (\<forall>d\<in>set (unacked_list q). \<not> expired (clock s) timeout d)"
    and spec: "spec_timeouts (clock s) timeout (abs_queue q) = (F, A)"
  shows "\<exists>q'. queue_process_timeouts (Some qa) timeout s = Inr (put_queue qa q' (released F s)) \<and>
    queue_at qa (put_queue qa q' (released F s)) q' \<and> abs_queue q' = A \<and> same_conds q q'"
proof -
  note w = queue_atD [OF at]
  define ds where "ds = unacked_list q"
  define ms where "ms = map di_message (filter (expired (clock s) timeout) ds)"
  define space where "space = capacity q - q_size q"
  have all: "take (unacked_count q) ds = ds" "drop (unacked_count q) ds = []"
    using w(4) by (simp_all add: ds_def)
  from timeout_loop [OF at order.refl] obtain q' s' r where
    loop: "for_loop (timeout_body (clock s) timeout) [0..<unacked_count q] (q, s, 0) = Inr (q', s', r)"
    and inv: "timeout_inv (clock s) timeout q s (unacked_count q) (q', s', r)"
    by (metis prod_cases3)
  have q': "ring_ok q'" "ledger_ok q'" "ring_list q' = rev (take space ms) @ ring_list q"
    "unacked_list q' = map (mark_expired (clock s) timeout) ds" "capacity q' = capacity q"
    "next_delivery_tag q' = next_delivery_tag q" "same_conds q q'"
    "s' = released (set (drop space ms)) s" "r = length (take space ms)"
    using inv by (simp_all add: timeout_inv_def ds_def [symmetric] all ms_def space_def Let_def)
  have lv: "list_all live ds" using w(7) by (simp add: ds_def)
  have F: "F = set (drop space ms)"
    and A: "A = (abs_queue q)\<lparr>a_ready := rev (take space ms) @ ring_list q,
      a_pending := map pending_of (filter (\<lambda>d. \<not> expired (clock s) timeout d) ds)\<rparr>"
    using spec by (simp_all add: spec_timeouts_def abs_queue_def Let_def expired_pending ds_def
        ms_def space_def comp_def pending_of_def)
  define e where "e = filter (\<lambda>d. \<not> expired (clock s) timeout d) ds"
  have "\<exists>q''. queue_process_timeouts (Some qa) timeout s = Inr (put_queue qa q'' s') \<and>
      ring_ok q'' \<and> ledger_ok q'' \<and> ring_list q'' = ring_list q' \<and> unacked_list q'' = e \<and>
      capacity q'' = capacity q \<and> next_delivery_tag q'' = next_delivery_tag q \<and> same_conds q q''"
  proof (cases "r > 0")
    case True
    from cleanup_ok [OF q'(2)] obtain arr n where c:
      "cleanup q' = Inr (q'\<lparr>unacked_messages := arr, unacked_count := n\<rparr>)"
      "ledger_ok (q'\<lparr>unacked_messages := arr, unacked_count := n\<rparr>)"
      "unacked_list (q'\<lparr>unacked_messages := arr, unacked_count := n\<rparr>) = e"
      by (auto simp: q'(4) filter_live_marked [OF lv] e_def)
    then show ?thesis
      using w(1) pos loop True q' by (auto simp: queue_process_timeouts_def)
  next
    case False
    then have "\<forall>d\<in>set ds. \<not> expired (clock s) timeout d"
      using room ring_okD(6) [OF w(3)] by (auto simp: q'(9) space_def ms_def ds_def filter_empty_conv)
    then have "map (mark_expired (clock s) timeout) ds = e"
      by (simp add: e_def mark_expired_def map_idI filter_True)
    then show ?thesis
      using w(1) pos loop False q' by (auto simp: queue_process_timeouts_def)
  qed
  then obtain q'' where r: "queue_process_timeouts (Some qa) timeout s = Inr (put_queue qa q'' s')"
    and q'': "ring_ok q''" "ledger_ok q''" "ring_list q'' = rev (take space ms) @ ring_list q"
      "unacked_list q'' = e" "capacity q'' = capacity q"
      "next_delivery_tag q'' = next_delivery_tag q" "same_conds q q''"
    by (auto simp: q'(3))
  have "queue_ok q''"
    using w(2) q'' by (auto simp: queue_ok_def e_def ds_def distinct_map_filter)
  moreover have "distinct (held q'')" and "\<forall>a\<in>set (held q''). msgs (released F s) a \<noteq> None"
  proof -
    have dist: "distinct (ring_list q)" "distinct (map di_message ds)"
      "set (ring_list q) \<inter> di_message ` set ds = {}"
      using w(5) by (auto simp: held_def ds_def)
    have ms: "distinct ms" "set ms \<subseteq> di_message ` set ds"
      using dist(2) by (auto simp: ms_def distinct_map_filter)
    have split: "di_message ` set e \<inter> set ms = {}"
      using dist(2) by (auto simp: ms_def e_def distinct_map inj_on_def)
    have tk: "set (take space ms) \<subseteq> set ms" by (rule set_take_subset)
    have e: "distinct (map di_message e)" "di_message ` set e \<subseteq> di_message ` set ds"
      using dist(2) by (auto simp: e_def distinct_map_filter)
    have d: "set (ring_list q) \<inter> di_message ` set e = {}"
      "set (take space ms) \<inter> set (ring_list q) = {}" "set (take space ms) \<inter> di_message ` set e = {}"
      subgoal using dist(3) e(2) by blast
      subgoal using dist(3) ms(2) tk by blast
      subgoal using split tk by blast
      done
    show "distinct (held q'')"
      using dist(1) ms(1) e(1) d by (simp add: held_def q'' Int_Un_distrib)
    have "set (drop space ms) \<inter> set (ring_list q) = {}" "set (drop space ms) \<inter> di_message ` set e = {}"
      subgoal using set_drop_subset [of space ms] dist(3) ms(2) by blast
      subgoal using set_drop_subset [of space ms] split by blast
      done
    then have "set (held q'') \<inter> F = {}"
      using set_take_disj_set_drop_if_distinct [OF ms(1), of space space]
      by (simp add: F held_def q'' Int_Un_distrib Int_commute)
    moreover have "set (held q'') \<subseteq> set (held q)"
      using tk ms e by (auto simp: held_def q'' ds_def)
    ultimately show "\<forall>a\<in>set (held q''). msgs (released F s) a \<noteq> None"
      using w(8) by (auto simp: restrict_map_def)
  qed
  moreover have "abs_queue q'' = A"
    by (simp add: A abs_queue_def q'' e_def)
  ultimately show ?thesis
    using r by (intro exI [of _ q'']) (simp add: queue_at_def q'(8) F q'')
qed

text \<open>
  When the ready list is full nothing is requeued, so the clean-up does not run: the
  messages of the expired deliveries are freed but their entries stay in the array.
\<close>

lemma timeouts_full:
  assumes at: "queue_at qa s q" and pos: "0 < timeout" and full: "q_size q = capacity q"
  shows "\<exists>q'. queue_process_timeouts (Some qa) timeout s = Inr (put_queue qa q'
      (released (di_message ` set (filter (expired (clock s) timeout) (unacked_list q))) s)) \<and>
    ring_ok q' \<and> ledger_ok q' \<and> ring_list q' = ring_list q \<and> capacity q' = capacity q \<and>
    unacked_list q' = map (mark_expired (clock s) timeout) (unacked_list q)"
proof -
  note w = queue_atD [OF at]
  from timeout_loop [OF at order.refl] obtain q' s' r where
    loop: "for_loop (timeout_body (clock s) timeout) [0..<unacked_count q] (q, s, 0) = Inr (q', s', r)"
    and inv: "timeout_inv (clock s) timeout q s (unacked_count q) (q', s', r)"
    by (metis prod_cases3)
  then show ?thesis
    using w(1,4) pos full by (auto simp: timeout_inv_def queue_process_timeouts_def Let_def)
qed

lemma stale_entry_double_free:
  assumes q: "queues s qa = Some q" "ledger_ok q" "distinct (map delivery_tag (unacked_list q))"
    and k: "k < unacked_count q" and dead: "msgs s (di_message (unacked_list q ! k)) = None"
  shows "queue_ack (Some qa) (delivery_tag (unacked_list q ! k)) s =
      Inl (DoubleFree (di_message (unacked_list q ! k)))"
    and "queue_reject (Some qa) (delivery_tag (unacked_list q ! k)) False s =
      Inl (DoubleFree (di_message (unacked_list q ! k)))"
proof -
  obtain arr where "mark_acknowledged k q = Inr (q\<lparr>unacked_messages := arr\<rparr>)"
    using mark_ok [OF q(2) k] by blast
  with q k dead find_tag_present [OF q(2,3) k refl] ledger_slot_get [OF q(2) k]
  show "queue_ack (Some qa) (delivery_tag (unacked_list q ! k)) s =
      Inl (DoubleFree (di_message (unacked_list q ! k)))"
    and "queue_reject (Some qa) (delivery_tag (unacked_list q ! k)) False s =
      Inl (DoubleFree (di_message (unacked_list q ! k)))"
    by (simp_all add: queue_ack_def queue_reject_def message_free_dead)
qed

subsection \<open>Destruction\<close>

lemma free_list_loop:
  assumes "\<And>i t. i < length xs \<Longrightarrow> act i t = message_free (Some (xs ! i)) t"
    and "distinct xs" and "set xs \<inter> F = {}" and "\<And>a. a \<in> set xs \<Longrightarrow> msgs s a \<noteq> None"
    and "n \<le> length xs"
  shows "for_loop act [0..<n] (released F s) = Inr (released (F \<union> set (take n xs)) s)"
  using assms(5)
proof (induction n)
  case (Suc n)
  then have n: "n < length xs" by simp
  have "xs ! n \<notin> set (take n xs)"
    using assms(2) n by (auto simp: distinct_conv_nth in_set_conv_nth)
  then have "xs ! n \<notin> F \<union> set (take n xs)" using assms(3) n nth_mem by blast
  from message_free_released [OF assms(4) [OF nth_mem [OF n]] this] Suc n assms(1) [OF n]
  show ?case by (simp add: for_loop_append take_Suc_conv_app_nth)
qed simp

lemma queue_free_ok:
  assumes at: "queue_at qa s q"
  shows "queue_free (Some qa) s =
    Inr ((released (set (held q)) s)\<lparr>queues := (queues s)(qa := None)\<rparr>)"
proof -
  note w = queue_atD [OF at]
  have d: "distinct (ring_list q)" "distinct (map di_message (unacked_list q))"
    "set (map di_message (unacked_list q)) \<inter> set (ring_list q) = {}"
    using w(5) by (auto simp: held_def)
  have b1: "free_ready q i t = message_free (Some (ring_list q ! i)) t" if "i < length (ring_list q)" for i t
  proof -
    have "sz_add (head q) i = head q + i" "head q + i < size_mod"
      using that ring_okD [OF w(3)] by (simp_all add: sz_add_small)
    then have "c_mod (sz_add (head q) i) (capacity q) = Inr (ring_index q i)"
      using ring_okD [OF w(3)] by (simp add: c_simps ring_index_def)
    with that ring_ok_slot [OF w(3), of i] ring_index_less [OF w(3), of i] ring_okD(4) [OF w(3)]
    show ?thesis by (simp add: free_ready_def c_simps)
  qed
  have b2: "free_unacked q i t = message_free (Some (map di_message (unacked_list q) ! i)) t"
    if "i < length (map di_message (unacked_list q))" for i t
  proof -
    have i: "i < unacked_count q" "i < length (unacked_list q)" using that w(4) by simp_all
    then have "live (unacked_list q ! i)" using w(7) by (auto simp: list_all_iff)
    with i show ?thesis by (simp add: free_unacked_def ledger_slot_get [OF w(4)] live_def)
  qed
  have "for_loop (free_ready q) [0..<q_size q] s = Inr (released (set (ring_list q)) s)"
    using free_list_loop [where F = "{}", OF b1 d(1) _ w(8), of "q_size q"]
    by (simp add: held_def)
  moreover have "for_loop (free_unacked q) [0..<unacked_count q] (released (set (ring_list q)) s) =
      Inr (released (set (held q)) s)"
    using free_list_loop [OF b2 d(2,3) w(8), of "unacked_count q"] w(4)
    by (simp add: held_def)
  ultimately show ?thesis
    using w(1) by (simp add: queue_free_def)
qed

subsection \<open>Durability\<close>

lemma set_durable_ok:
  assumes at: "queue_at qa s q"
  shows "queue_set_durable (Some qa) d s = Inr (put_queue qa (q\<lparr>durable := (if d \<noteq> 0 then 1 else 0)\<rparr>) s)"
    and "queue_at qa (put_queue qa (q\<lparr>durable := (if d \<noteq> 0 then 1 else 0)\<rparr>) s)
      (q\<lparr>durable := (if d \<noteq> 0 then 1 else 0)\<rparr>)"
  using queue_atD [OF at] by (simp_all add: queue_set_durable_def queue_at_def)

subsection \<open>Creation\<close>

text \<open>
  A created queue is empty and well formed, provided its array's size in bytes does not wrap
  around \<open>size_t\<close>.
\<close>

lemma queue_create_fine:
  assumes "sys_fine s" and "0 < cap" and "cap * sizeof_ptr < 2 ^ 63"
  shows "\<exists>q k. queue_create (Some nm) cap s =
      Inr (Some (brk s), put_queue (brk s) q (s\<lparr>sys_calls := k, brk := Suc (brk s)\<rparr>)) \<and>
    queue_ok q \<and> ring_list q = [] \<and> unacked_list q = [] \<and> capacity q = cap \<and>
    q_name q = Some (cstr nm) \<and> next_delivery_tag q = 1 \<and>
    not_empty q = cond_init \<and> not_full q = cond_init"
proof -
  let ?q = "\<lparr>q_name = Some (cstr nm), messages = alloc_slots cap sizeof_ptr, capacity = cap,
      q_size = 0, head = 0, tail = 0, not_empty = cond_init, not_full = cond_init, durable = 0,
      unacked_messages = alloc_slots DEFAULT_UNACKED_CAPACITY sizeof_DeliveryInfo,
      unacked_capacity = DEFAULT_UNACKED_CAPACITY, unacked_count = 0, next_delivery_tag = 1\<rparr>"
  have len: "length (messages ?q) = cap"
    "length (unacked_messages ?q) = DEFAULT_UNACKED_CAPACITY"
    using assms(3) by (simp_all add: alloc_slots_def sz_mul_def sizeof_ptr_def sizeof_DeliveryInfo_def
        DEFAULT_UNACKED_CAPACITY_def)
  have "ring_ok ?q \<and> ring_list ?q = []"
    using assms(2,3) len(1) by (intro ring_stateI) (simp_all add: ring_index_def sizeof_ptr_def)
  moreover have "ledger_ok ?q" and "unacked_list ?q = []"
    using len(2) by (simp_all add: ledger_ok_def unacked_list_def DEFAULT_UNACKED_CAPACITY_def
        sizeof_DeliveryInfo_def)
  moreover have "queue_create (Some nm) cap s = Inr (Some (brk s), put_queue (brk s) ?q
      (s\<lparr>sys_calls := sys_calls s + 7, brk := Suc (brk s)\<rparr>))"
    using assms by (simp add: queue_create_def sys_malloc_def sys_try_def strdup_def sys_fine_def
        sizeof_ptr_def sizeof_DeliveryInfo_def DEFAULT_UNACKED_CAPACITY_def sz_mul_def Let_def
        put_queue_def)
  ultimately show ?thesis by (intro exI [of _ ?q]) (auto simp: queue_ok_def)
qed

end
