(* ===== verification/Queue_Threads.thy ===== *)
theory Queue_Threads
  imports Queue_Safety
begin

text \<open>
  Threads sharing one queue of \<open>src/core/queue.c\<close>. The mutex makes every call one atomic
  step; a call that waits is cut at \<open>pthread_cond_wait\<close>, and the rest of it is another step,
  taken by a woken thread, that runs the loop test again. A wait may also end without a
  signal. The relation below is the interleaving of any number of such calls, with steps of
  the rest of the program that leave the queue and its messages alone.

  The flag says whether rejecting with requeue and timing out are among the calls: these
  put a message back without signalling \<open>not_empty\<close>.
\<close>

definition wake :: "cond \<Rightarrow> cond" where
  "wake c = c\<lparr>woken := woken c - 1\<rparr>"

definition spurious :: "cond \<Rightarrow> cond" where
  "spurious c = \<lparr>waiters = waiters c - 1, woken = Suc (woken c)\<rparr>"

inductive queue_thread :: "addr \<Rightarrow> bool \<Rightarrow> qmem \<Rightarrow> qmem \<Rightarrow> bool" for qa requeues where
  enqueue:
    "queues s qa = Some q \<Longrightarrow> msgs s m \<noteq> None \<Longrightarrow> m \<notin> set (held q) \<Longrightarrow>
     queue_enqueue (Some qa) (Some m) s = Inr (r, s') \<Longrightarrow> queue_thread qa requeues s s'"
| enqueue_woken:
    "queues s qa = Some q \<Longrightarrow> 0 < woken (not_full q) \<Longrightarrow> msgs s m \<noteq> None \<Longrightarrow> m \<notin> set (held q) \<Longrightarrow>
     queue_enqueue (Some qa) (Some m) (put_queue qa (q\<lparr>not_full := wake (not_full q)\<rparr>) s) = Inr (r, s') \<Longrightarrow>
     queue_thread qa requeues s s'"
| try_enqueue:
    "queues s qa = Some q \<Longrightarrow> msgs s m \<noteq> None \<Longrightarrow> m \<notin> set (held q) \<Longrightarrow>
     queue_try_enqueue (Some qa) (Some m) s = Inr (r, s') \<Longrightarrow> queue_thread qa requeues s s'"
| dequeue:
    "queues s qa = Some q \<Longrightarrow> next_delivery_tag q \<noteq> - 1 \<Longrightarrow>
     queue_dequeue (Some qa) s = Inr (r, s') \<Longrightarrow> r \<noteq> Returns None \<Longrightarrow> queue_thread qa requeues s s'"
| dequeue_woken:
    "queues s qa = Some q \<Longrightarrow> 0 < woken (not_empty q) \<Longrightarrow> next_delivery_tag q \<noteq> - 1 \<Longrightarrow>
     queue_dequeue (Some qa) (put_queue qa (q\<lparr>not_empty := wake (not_empty q)\<rparr>) s) = Inr (r, s') \<Longrightarrow>
     r \<noteq> Returns None \<Longrightarrow> queue_thread qa requeues s s'"
| try_dequeue:
    "queues s qa = Some q \<Longrightarrow> next_delivery_tag q \<noteq> - 1 \<Longrightarrow>
     queue_try_dequeue (Some qa) s = Inr (r, s') \<Longrightarrow> r \<noteq> None \<Longrightarrow> queue_thread qa requeues s s'"
| ack:
    "queue_ack (Some qa) tag s = Inr (r, s') \<Longrightarrow> queue_thread qa requeues s s'"
| reject:
    "queue_reject (Some qa) tag requeue s = Inr (r, s') \<Longrightarrow> requeue \<longrightarrow> requeues \<Longrightarrow>
     queue_thread qa requeues s s'"
| timeouts:
    "requeues \<Longrightarrow> queues s qa = Some q \<Longrightarrow> q_size q < capacity q \<Longrightarrow>
     queue_process_timeouts (Some qa) t s = Inr s' \<Longrightarrow> queue_thread qa requeues s s'"
| set_durable:
    "queue_set_durable (Some qa) d s = Inr s' \<Longrightarrow> queue_thread qa requeues s s'"
| spurious_full:
    "queues s qa = Some q \<Longrightarrow> 0 < waiters (not_full q) \<Longrightarrow>
     queue_thread qa requeues s (put_queue qa (q\<lparr>not_full := spurious (not_full q)\<rparr>) s)"
| spurious_empty:
    "queues s qa = Some q \<Longrightarrow> 0 < waiters (not_empty q) \<Longrightarrow>
     queue_thread qa requeues s (put_queue qa (q\<lparr>not_empty := spurious (not_empty q)\<rparr>) s)"
| others:
    "queues s qa = Some q \<Longrightarrow> queues s' qa = Some q \<Longrightarrow> \<forall>a\<in>set (held q). msgs s' a \<noteq> None \<Longrightarrow>
     queue_thread qa requeues s s'"

text \<open>A new queue: empty, nobody waiting.\<close>

definition queue_new :: "addr \<Rightarrow> qmem \<Rightarrow> bool" where
  "queue_new qa s \<longleftrightarrow> (\<exists>q. queue_at qa s q \<and> held q = [] \<and>
     not_empty q = cond_init \<and> not_full q = cond_init)"

subsection \<open>The invariants\<close>

text \<open>
  No lost wake-up: if a consumer sleeps, then for every ready message another consumer has
  been woken and is about to run; if a producer sleeps, then for every free place another
  producer is.
\<close>

definition empty_signalled :: "Queue \<Rightarrow> bool" where
  "empty_signalled q \<longleftrightarrow> waiters (not_empty q) = 0 \<or> q_size q \<le> woken (not_empty q)"

definition full_signalled :: "Queue \<Rightarrow> bool" where
  "full_signalled q \<longleftrightarrow> waiters (not_full q) = 0 \<or> capacity q - q_size q \<le> woken (not_full q)"

definition threads_inv :: "addr \<Rightarrow> bool \<Rightarrow> qmem \<Rightarrow> bool" where
  "threads_inv qa requeues s \<longleftrightarrow>
     (\<exists>q. queue_at qa s q \<and> full_signalled q \<and> (\<not> requeues \<longrightarrow> empty_signalled q))"

lemmas signal_defs = full_signalled_def empty_signalled_def cond_signal_def cond_wait_def wake_def
  spurious_def

lemma threads_invE:
  assumes "threads_inv qa requeues s" and "queues s qa = Some q"
  obtains "queue_at qa s q" and "full_signalled q" and "\<not> requeues \<longrightarrow> empty_signalled q"
  using assms by (auto simp: threads_inv_def queue_at_def)

lemma queue_at_wake:
  assumes "queue_at qa s q"
  shows "queue_at qa (put_queue qa (q\<lparr>not_full := c\<rparr>) s) (q\<lparr>not_full := c\<rparr>)"
    and "queue_at qa (put_queue qa (q\<lparr>not_empty := c\<rparr>) s) (q\<lparr>not_empty := c\<rparr>)"
  using assms by (simp_all add: queue_at_def)

lemma put_put [simp]: "put_queue a q (put_queue a q' s) = put_queue a q s"
  by (simp add: put_queue_def)

text \<open>
  One lemma per kind of call. The hypotheses allow the woken thread's case, in which the
  counter has just been decremented.
\<close>

lemma enqueue_keeps:
  assumes at: "queue_at qa s q" and m: "msgs s m \<noteq> None" "m \<notin> set (held q)"
    and c: "queue_enqueue (Some qa) (Some m) s = Inr (r, s')"
    and full: "waiters (not_full q) = 0 \<or> capacity q - q_size q \<le> Suc (woken (not_full q))"
    and empty: "\<not> requeues \<longrightarrow> empty_signalled q"
  shows "threads_inv qa requeues s'"
proof (cases "q_size q = capacity q")
  case True
  let ?q = "q\<lparr>not_full := cond_wait (not_full q)\<rparr>"
  have "s' = put_queue qa ?q s"
    using c True queue_atD(1) [OF at] by (simp add: queue_enqueue_def)
  moreover have "full_signalled ?q" and "\<not> requeues \<longrightarrow> empty_signalled ?q"
    using True empty by (auto simp: signal_defs)
  ultimately show ?thesis
    using queue_at_wake(1) [OF at] by (auto simp: threads_inv_def)
next
  case False
  then have room: "q_size q < capacity q" using ring_okD [OF queue_atD(3) [OF at]] by simp
  have "s' = put_queue qa (enqueued m q) s"
    using c room queue_atD(1,3) [OF at] by (simp add: queue_enqueue_def ring_put_eq enqueued_def)
  moreover have "full_signalled (enqueued m q)" and "\<not> requeues \<longrightarrow> empty_signalled (enqueued m q)"
    using full empty by (auto simp: signal_defs enqueued_def)
  ultimately show ?thesis
    using enqueued_ok(1) [OF at room m] by (auto simp: threads_inv_def)
qed

lemma take_keeps:
  assumes at: "queue_at qa s q" and some: "0 < q_size q" and tag: "next_delivery_tag q \<noteq> - 1"
    and c: "take_delivery qa q s = Inr (Some r, s')"
    and full: "full_signalled q"
    and empty: "\<not> requeues \<longrightarrow> waiters (not_empty q) = 0 \<or> q_size q \<le> Suc (woken (not_empty q))"
  shows "threads_inv qa requeues s'"
proof -
  from take_delivery_cases [OF at some tag] c obtain k q' where
    s': "s' = put_queue qa q' (s\<lparr>sys_calls := k\<rparr>)" "queue_at qa s' q'"
    and abs: "a_ready (abs_queue q') = tl (ring_list q)" "a_capacity (abs_queue q') = a_capacity (abs_queue q)"
    and conds: "not_empty q' = not_empty q" "not_full q' = cond_signal (not_full q)"
    by auto
  have "q_size q' = q_size q - 1" "capacity q' = capacity q"
    using abs length_ring_list [of q'] by (simp_all add: abs_queue_def)
  then have "full_signalled q'" and "\<not> requeues \<longrightarrow> empty_signalled q'"
    using full empty some conds by (auto simp: signal_defs)
  with s' show ?thesis by (auto simp: threads_inv_def)
qed

lemma dequeue_keeps:
  assumes at: "queue_at qa s q" and tag: "next_delivery_tag q \<noteq> - 1"
    and c: "queue_dequeue (Some qa) s = Inr (r, s')" "r \<noteq> Returns None"
    and full: "full_signalled q"
    and empty: "\<not> requeues \<longrightarrow> waiters (not_empty q) = 0 \<or> q_size q \<le> Suc (woken (not_empty q))"
  shows "threads_inv qa requeues s'"
proof (cases "q_size q = 0")
  case True
  let ?q = "q\<lparr>not_empty := cond_wait (not_empty q)\<rparr>"
  have "s' = put_queue qa ?q s"
    using c True queue_atD(1) [OF at] by (simp add: queue_dequeue_def)
  moreover have "full_signalled ?q" and "\<not> requeues \<longrightarrow> empty_signalled ?q"
    using True full by (auto simp: signal_defs)
  ultimately show ?thesis
    using queue_at_wake(2) [OF at] by (auto simp: threads_inv_def)
next
  case False
  with c queue_atD(1) [OF at] obtain a where a: "take_delivery qa q s = Inr (a, s')" "r = Returns a"
    by (auto simp: queue_dequeue_def)
  with c(2) obtain r' where "take_delivery qa q s = Inr (Some r', s')" by (cases a) auto
  with False show ?thesis using take_keeps [OF at _ tag _ full empty] by blast
qed

text \<open>Calls that signal nobody: the conditions stay, the ready list does not shrink.\<close>

lemma silent_keeps:
  assumes "queue_at qa s' q'" and "same_conds q q'" and "q_size q \<le> q_size q'"
    and "full_signalled q" and "\<not> requeues \<longrightarrow> empty_signalled q \<and> q_size q' = q_size q"
  shows "threads_inv qa requeues s'"
proof -
  have "full_signalled q'" and "\<not> requeues \<longrightarrow> empty_signalled q'"
    using assms(2-5) by (auto simp: signal_defs same_conds_def)
  with assms(1) show ?thesis by (auto simp: threads_inv_def)
qed

lemma a_ready_size: "abs_queue q = A \<Longrightarrow> length (a_ready A) = q_size q"
  by (auto simp: abs_queue_def)

lemma queue_thread_inv:
  assumes "queue_thread qa requeues s s'" and "threads_inv qa requeues s"
  shows "threads_inv qa requeues s'"
proof -
  from assms(2) obtain q0 where at: "queue_at qa s q0" and full: "full_signalled q0"
    and empty: "\<not> requeues \<longrightarrow> empty_signalled q0"
    by (auto simp: threads_inv_def)
  note q0 = queue_atD(1) [OF at]
  from assms(1) show ?thesis
  proof (cases rule: queue_thread.cases)
    case (enqueue q m r)
    with at full empty q0 show ?thesis
      by (intro enqueue_keeps [of qa s q0 m r]) (auto simp: full_signalled_def)
  next
    case (enqueue_woken q m r)
    with q0 have [simp]: "q = q0" by simp
    show ?thesis
      using enqueue_woken full empty
      by (intro enqueue_keeps [where m = m and r = r, OF queue_at_wake(1) [OF at]]) (auto simp: signal_defs)
  next
    case (try_enqueue q m r)
    with q0 have [simp]: "q = q0" by simp
    show ?thesis
    proof (cases "q_size q0 = capacity q0")
      case True
      with try_enqueue q0 assms(2) show ?thesis by (simp add: try_enqueue_full)
    next
      case False
      with ring_okD(6) [OF queue_atD(3) [OF at]] have "queue_enqueue (Some qa) (Some m) s = Inr (Returns True, s')"
        using try_enqueue q0 by (auto simp: queue_enqueue_def queue_try_enqueue_def)
      with try_enqueue at full empty show ?thesis
        by (intro enqueue_keeps [of qa s q0 m "Returns True"]) (auto simp: full_signalled_def)
    qed
  next
    case (dequeue q r)
    with at full empty q0 show ?thesis
      by (intro dequeue_keeps [of qa s q0 r]) (auto simp: empty_signalled_def)
  next
    case (dequeue_woken q r)
    with q0 have [simp]: "q = q0" by simp
    show ?thesis
      using dequeue_woken full empty
      by (intro dequeue_keeps [where r = r, OF queue_at_wake(2) [OF at]]) (auto simp: signal_defs)
  next
    case (try_dequeue q r)
    with q0 have [simp]: "q = q0" by simp
    from try_dequeue have some: "0 < q_size q0" by (auto simp: queue_try_dequeue_def split: if_splits)
    with try_dequeue obtain r' where "take_delivery qa q0 s = Inr (Some r', s')"
      by (auto simp: try_dequeue_some)
    with some try_dequeue at full empty show ?thesis
      by (intro take_keeps [of qa s q0 r']) (auto simp: empty_signalled_def)
  next
    case (ack tag r)
    obtain r1 F A where spec: "spec_ack tag (abs_queue q0) = (r1, F, A)" by (metis prod_cases3)
    from ack_refines [OF at spec] ack obtain q' where q': "queue_at qa s' q'" "abs_queue q' = A"
      "same_conds q0 q'" by auto
    have "a_ready A = a_ready (abs_queue q0)"
      using spec by (auto simp: spec_ack_def split: option.splits)
    then have "q_size q' = q_size q0" using a_ready_size [OF q'(2)] a_ready_size [of q0] by simp
    with q' full empty show ?thesis by (intro silent_keeps [of qa s' q' q0]) auto
  next
    case (reject tag requeue r)
    obtain r1 F A where spec: "spec_reject tag requeue (abs_queue q0) = (r1, F, A)" by (metis prod_cases3)
    from reject_refines [OF at spec] reject obtain q' where q': "queue_at qa s' q'" "abs_queue q' = A"
      "same_conds q0 q'" by auto
    have "length (a_ready A) \<ge> length (a_ready (abs_queue q0)) \<and>
        (\<not> requeue \<longrightarrow> a_ready A = a_ready (abs_queue q0))"
      using spec by (auto simp: spec_reject_def Let_def split: option.splits if_splits)
    then have "q_size q0 \<le> q_size q' \<and> (\<not> requeue \<longrightarrow> q_size q' = q_size q0)"
      using a_ready_size [OF q'(2)] a_ready_size [of q0] by auto
    with q' full empty reject show ?thesis by (intro silent_keeps [of qa s' q' q0]) auto
  next
    case (timeouts q t)
    with q0 have [simp]: "q = q0" by simp
    show ?thesis
    proof (cases "0 < t")
      case False
      with timeouts assms(2) show ?thesis by (simp add: process_timeouts_off)
    next
      case True
      obtain F A where spec: "spec_timeouts (clock s) t (abs_queue q0) = (F, A)" by (metis surj_pair)
      from timeouts_refine [OF at True _ spec] timeouts obtain q' where q': "queue_at qa s' q'"
        "abs_queue q' = A" "same_conds q0 q'" by auto
      have "length (a_ready A) \<ge> length (a_ready (abs_queue q0))"
        using spec by (auto simp: spec_timeouts_def Let_def)
      then have "q_size q0 \<le> q_size q'"
        using a_ready_size [OF q'(2)] a_ready_size [of q0] by auto
      with q' full timeouts show ?thesis by (intro silent_keeps [of qa s' q' q0]) auto
    qed
  next
    case (set_durable d)
    let ?q = "q0\<lparr>durable := (if d \<noteq> 0 then 1 else 0)\<rparr>"
    from set_durable set_durable_ok [OF at, of d] have "queue_at qa s' ?q" by simp
    moreover have "same_conds q0 ?q" by (simp add: same_conds_def)
    ultimately show ?thesis using full empty by (intro silent_keeps [of qa s' ?q q0]) auto
  next
    case (spurious_full q)
    with q0 have [simp]: "q = q0" by simp
    have "full_signalled (q0\<lparr>not_full := spurious (not_full q0)\<rparr>)"
      "\<not> requeues \<longrightarrow> empty_signalled (q0\<lparr>not_full := spurious (not_full q0)\<rparr>)"
      using full empty by (auto simp: signal_defs)
    with spurious_full queue_at_wake(1) [OF at] show ?thesis by (auto simp: threads_inv_def)
  next
    case (spurious_empty q)
    with q0 have [simp]: "q = q0" by simp
    have "full_signalled (q0\<lparr>not_empty := spurious (not_empty q0)\<rparr>)"
      "\<not> requeues \<longrightarrow> empty_signalled (q0\<lparr>not_empty := spurious (not_empty q0)\<rparr>)"
      using full empty by (auto simp: signal_defs)
    with spurious_empty queue_at_wake(2) [OF at] show ?thesis by (auto simp: threads_inv_def)
  next
    case (others q)
    with q0 at have "queue_at qa s' q0" by (auto simp: queue_at_def)
    with full empty show ?thesis by (auto simp: threads_inv_def)
  qed
qed

lemma queue_new_inv: "queue_new qa s \<Longrightarrow> threads_inv qa requeues s"
  by (auto simp: queue_new_def threads_inv_def signal_defs cond_init_def)

interpretation threads: invariant_system "queue_new qa" "queue_thread qa requeues" "threads_inv qa requeues"
  for qa requeues
  by unfold_locales (auto intro: queue_new_inv queue_thread_inv)

end
