(* ===== verification/Queue_Properties.thy ===== *)
theory Queue_Properties
  imports Queue_Threads
begin

text \<open>
  The properties of messages and queues (\<open>src/core/message.c\<close>, \<open>src/core/queue.c\<close>), each
  with an instance on the small queue defined first: capacity 3, two messages ready around
  the end of the array, two deliveries pending, one message not in the queue.
\<close>

definition demo_message :: Message where
  "demo_message = \<lparr>exchange = Some ''amq.direct'', routing_key = Some ''test'', body = Some ''hi'',
     body_size = 2, priority = 3, expiration = 0, persistent = 1\<rparr>"

definition demo_delivery :: "addr \<Rightarrow> u64 \<Rightarrow> int \<Rightarrow> DeliveryInfo" where
  "demo_delivery m tag time = \<lparr>di_message = m, delivery_tag = tag, delivery_time = time,
     status = MESSAGE_STATUS_DELIVERED\<rparr>"

definition demo_queue :: Queue where
  "demo_queue = \<lparr>q_name = Some ''test'', messages = [Some 2, None, Some 1], capacity = 3, q_size = 2,
     head = 2, tail = 1, not_empty = cond_init, not_full = cond_init, durable = 0,
     unacked_messages = [Some (demo_delivery 3 5 10), Some (demo_delivery 4 7 90), None, None],
     unacked_capacity = 4, unacked_count = 2, next_delivery_tag = 8\<rparr>"

text \<open>The same queue with its last place taken by message 5.\<close>

definition full_queue :: Queue where
  "full_queue = demo_queue\<lparr>messages := [Some 2, Some 5, Some 1], q_size := 3, tail := 2\<rparr>"

definition demo_state :: "Queue \<Rightarrow> qmem" where
  "demo_state q = \<lparr>msgs = (\<lambda>a. if a \<in> {1, 2, 3, 4, 5} then Some demo_message else None), brk = 50,
     sys_ok = (\<lambda>_. True), sys_calls = 0, queues = [10 \<mapsto> q], clock = 100\<rparr>"

lemma upt_small: "[0..<2] = [0, Suc 0]" "[0..<3] = [0, Suc 0, 2]"
  by (simp_all add: upt_rec)

lemma all_small: "(\<forall>i<2. P i) \<longleftrightarrow> P 0 \<and> P (Suc 0)" "(\<forall>i<3. P i) \<longleftrightarrow> P 0 \<and> P (Suc 0) \<and> P (2 :: nat)"
  by (auto simp: less_2_cases_iff numeral_3_eq_3 less_Suc_eq numeral_2_eq_2)

lemma demo_ring: "ring_ok demo_queue" "ring_ok full_queue"
  by (simp_all add: ring_ok_def full_queue_def demo_queue_def ring_index_def sizeof_ptr_def all_small)

lemma demo_ready: "ring_list demo_queue = [1, 2]" "ring_list full_queue = [1, 2, 5]"
  by (simp_all add: ring_list_def full_queue_def demo_queue_def ring_index_def upt_small)

lemma demo_ledger: "ledger_ok demo_queue" "ledger_ok full_queue"
  by (simp_all add: ledger_ok_def filled_def full_queue_def demo_queue_def sizeof_DeliveryInfo_def)

lemma demo_pending:
  "unacked_list demo_queue = [demo_delivery 3 5 10, demo_delivery 4 7 90]"
  "unacked_list full_queue = [demo_delivery 3 5 10, demo_delivery 4 7 90]"
  by (simp_all add: unacked_list_def prefix_def full_queue_def demo_queue_def)

lemma demo_fields [simp]:
  "q_size demo_queue = 2" "capacity demo_queue = 3" "next_delivery_tag demo_queue = 8"
  "q_size full_queue = 3" "capacity full_queue = 3" "next_delivery_tag full_queue = 8"
  "unacked_count demo_queue = 2" "unacked_capacity demo_queue = 4"
  "queues (demo_state q) = [10 \<mapsto> q]" "brk (demo_state q) = 50" "clock (demo_state q) = 100"
  "sys_ok (demo_state q) = (\<lambda>_. True)" "sys_calls (demo_state q) = 0"
  by (simp_all add: full_queue_def demo_queue_def demo_state_def)

lemma demo_msgs [simp]: "msgs (demo_state q) a = (if a \<in> {1, 2, 3, 4, 5} then Some demo_message else None)"
  by (simp add: demo_state_def)

lemma demo_held: "held demo_queue = [1, 2, 3, 4]" "held full_queue = [1, 2, 5, 3, 4]"
  by (simp_all add: held_def demo_ready demo_pending demo_delivery_def)

lemma demo_at: "queue_at 10 (demo_state demo_queue) demo_queue" "queue_at 10 (demo_state full_queue) full_queue"
  by (simp_all add: queue_at_def queue_ok_def demo_ring demo_ledger demo_pending demo_held demo_delivery_def)

lemma demo_fine [simp]: "sys_fine (demo_state q)"
  by (simp add: sys_fine_def)

lemma demo_complete [simp]: "msg_complete demo_message"
  by (simp add: demo_message_def msg_complete_def msg_ok_def no_nul_def NUL_def)

lemma demo_heap: "heap_ok (demo_state q)"
  using demo_complete by (auto simp: heap_ok_def msg_complete_def)

lemma demo_abs:
  "abs_queue demo_queue = \<lparr>a_ready = [1, 2], a_pending = [(5, 10, 3), (7, 90, 4)], a_capacity = 3, a_next = 8\<rparr>"
  "abs_queue full_queue = \<lparr>a_ready = [1, 2, 5], a_pending = [(5, 10, 3), (7, 90, 4)], a_capacity = 3, a_next = 8\<rparr>"
  by (simp_all add: abs_queue_def demo_ready demo_pending pending_of_def demo_delivery_def)

subsection \<open>Messages\<close>

text \<open>
  A clone is an independent copy: cloning a complete message succeeds when no allocation
  fails, stores an equal message at an address not in use before, and from then on either of
  the two can be freed while the other keeps its contents.
\<close>

theorem message_clone_independent:
  assumes "heap_ok s" and "sys_fine s" and "msgs s a = Some m" and "msg_complete m"
  shows "\<exists>c s'. message_clone (Some a) s = Inr (Some c, s') \<and> msgs s c = None \<and> heap_ok s' \<and>
    msgs s' = (msgs s)(c \<mapsto> m) \<and>
    (\<exists>t. message_free (Some a) s' = Inr t \<and> msgs t a = None \<and> msgs t c = Some m) \<and>
    (\<exists>t. message_free (Some c) s' = Inr t \<and> msgs t = msgs s)"
proof -
  note c = message_clone_fine [OF assms(2-4)]
  have fresh: "msgs s (brk s) = None" by (rule brk_fresh [OF assms(1)])
  then have ne: "a \<noteq> brk s" using assms(3) by auto
  have ok: "msg_ok m" using assms(4) by (simp add: msg_complete_def)
  show ?thesis
    using c fresh ne assms(3) heap_ok_new [OF assms(1) ok]
    by (intro exI [of _ "brk s"] exI [of _ "s\<lparr>sys_calls := sys_calls s + (if body_size m = 0 then 3 else 4),
        msgs := (msgs s)(brk s \<mapsto> m), brk := Suc (brk s)\<rparr>"]) (auto simp: message_free_def)
qed

theorem message_clone_independent_witness:
  "\<exists>c s'. message_clone (Some 1) (demo_state demo_queue) = Inr (Some c, s') \<and>
     msgs s' c = Some demo_message"
  using message_clone_independent [OF demo_heap, of demo_queue 1 demo_message] by auto

text \<open>
  Creating a message under any behaviour of the allocator: with both strings and a body
  of at least the stated length (or an empty one) the call never faults; it either fails and
  leaves every message as it was, or stores one well-formed message with exactly the first
  \<open>size\<close> bytes of the body at a fresh address, which lacks a string when the copy of that
  string failed.
\<close>

theorem message_create_total:
  assumes "heap_ok s" and "case b of None \<Rightarrow> n = 0 | Some bytes \<Rightarrow> n \<le> length bytes"
  shows "\<exists>p s'. message_create (Some ex) (Some rk) b n s = Inr (p, s') \<and> heap_ok s' \<and>
    (case p of
       None \<Rightarrow> msgs s' = msgs s
     | Some a \<Rightarrow> msgs s a = None \<and> (\<exists>m. msgs s' = (msgs s)(a \<mapsto> m) \<and> body_size m = n \<and>
         (0 < n \<longrightarrow> body m = Some (take n (the b))) \<and> (n = 0 \<longrightarrow> body m = None) \<and>
         exchange m \<in> {None, Some (cstr ex)} \<and> routing_key m \<in> {None, Some (cstr rk)} \<and>
         priority m = 0 \<and> expiration m = 0 \<and> persistent m = 0))"
proof -
  have fresh: "msgs s (brk s) = None" by (rule brk_fresh [OF assms(1)])
  from message_create_outcome [OF assms(2), of ex rk s] obtain k where
    "message_create (Some ex) (Some rk) b n s = Inr (None, s\<lparr>sys_calls := k\<rparr>) \<or>
     (\<exists>e r. e \<in> {None, Some (cstr ex)} \<and> r \<in> {None, Some (cstr rk)} \<and>
       message_create (Some ex) (Some rk) b n s = Inr (Some (brk s), s\<lparr>sys_calls := k,
         msgs := (msgs s)(brk s \<mapsto> \<lparr>exchange = e, routing_key = r,
            body = (if n = 0 then None else Some (take n (the b))), body_size = n,
            priority = 0, expiration = 0, persistent = 0\<rparr>), brk := Suc (brk s)\<rparr>) \<and> n < 2 ^ 63)"
    by blast
  then show ?thesis
  proof (elim disjE exE conjE, goal_cases)
    case 1
    then show ?case using assms(1) by auto
  next
    case (2 e r)
    let ?m = "\<lparr>exchange = e, routing_key = r, body = (if n = 0 then None else Some (take n (the b))),
        body_size = n, priority = 0, expiration = 0, persistent = 0\<rparr> :: Message"
    have "msg_ok ?m" using 2 assms(2) by (auto simp: msg_ok_def split: option.splits)
    from heap_ok_new [OF assms(1) this] 2 fresh show ?case by auto
  qed
qed

theorem message_create_total_witness:
  "\<exists>p s'. message_create (Some ''e'') (Some ''k'') (Some ''body'') 2
       ((demo_state demo_queue)\<lparr>sys_ok := (\<lambda>n. n \<noteq> 2)\<rparr>) = Inr (p, s')"
  using message_create_total [of "(demo_state demo_queue)\<lparr>sys_ok := (\<lambda>n. n \<noteq> 2)\<rparr>" 2 "Some ''body''" "''e''" "''k''"]
    demo_heap [of demo_queue] by (auto simp: heap_ok_def)

text \<open>
  The setters keep what they promise: after \<open>message_set_priority\<close> the priority is at most
  9 and the argument itself when that is at most 9, after \<open>message_set_persistent\<close> the flag is
  0 or 1, no other message and no other field changes, and the heap stays well formed.
\<close>

theorem message_setters:
  assumes "heap_ok s" and "msgs s a = Some m"
  shows "\<exists>t u. message_set_priority (Some a) p s = Inr t \<and> heap_ok t \<and>
      msgs t = (msgs s)(a \<mapsto> m\<lparr>priority := min p 9\<rparr>) \<and>
      message_set_persistent (Some a) f t = Inr u \<and> heap_ok u \<and>
      msgs u = (msgs s)(a \<mapsto> m\<lparr>priority := min p 9, persistent := (if f = 0 then 0 else 1)\<rparr>)"
proof -
  have "msg_ok (m\<lparr>priority := x\<rparr>)" "msg_ok (m\<lparr>priority := x, persistent := y\<rparr>)" "a < brk s" for x y
    using heap_okD [OF assms] by (cases "body m"; simp add: msg_ok_def)+
  moreover have "(if p > 9 then 9 else p) = min p 9" by (auto simp: min_def)
  ultimately show ?thesis
    using assms
    by (simp add: message_set_priority_def message_set_persistent_def write_message_def)
      (auto simp: heap_ok_def)
qed

theorem message_setters_witness:
  "\<exists>t. message_set_priority (Some 1) 200 (demo_state demo_queue) = Inr t \<and>
     map_option priority (msgs t 1) = Some 9"
  using message_setters [OF demo_heap, of demo_queue 1 demo_message 200 0] by (auto simp: min_def)

subsection \<open>Queues\<close>

text \<open>
  \<open>queue_create\<close> gives an empty, well-formed queue of the capacity and name asked for, at
  a fresh address and without touching any message, provided no allocation fails and the
  array's size in bytes is a size \<open>malloc\<close> can give.
\<close>

theorem queue_create_empty:
  assumes "sys_fine s" and "0 < cap" and "cap * 8 < 2 ^ 63"
  shows "\<exists>q s'. queue_create (Some nm) cap s = Inr (Some (brk s), s') \<and>
    queue_at (brk s) s' q \<and> abs_queue q = \<lparr>a_ready = [], a_pending = [], a_capacity = cap, a_next = 1\<rparr> \<and>
    q_name q = Some (cstr nm) \<and> msgs s' = msgs s \<and> (\<forall>a. a \<noteq> brk s \<longrightarrow> queues s' a = queues s a)"
proof -
  have "cap * sizeof_ptr < 2 ^ 63" using assms(3) by (simp add: sizeof_ptr_def)
  from queue_create_fine [OF assms(1,2) this, of nm] obtain q k where
    c: "queue_create (Some nm) cap s = Inr (Some (brk s), put_queue (brk s) q (s\<lparr>sys_calls := k, brk := Suc (brk s)\<rparr>))"
    and q: "queue_ok q" "ring_list q = []" "unacked_list q = []" "capacity q = cap" "q_name q = Some (cstr nm)"
      "next_delivery_tag q = 1" by blast
  have "queue_at (brk s) (put_queue (brk s) q (s\<lparr>sys_calls := k, brk := Suc (brk s)\<rparr>)) q"
    unfolding queue_at_def held_def q(2,3) using q(1) by simp
  moreover have "abs_queue q = \<lparr>a_ready = [], a_pending = [], a_capacity = cap, a_next = 1\<rparr>"
    unfolding abs_queue_def q by simp
  ultimately show ?thesis using c q(5) by auto
qed

theorem queue_create_empty_witness:
  "\<exists>q s'. queue_create (Some ''orders'') 5 (demo_state demo_queue) = Inr (Some 50, s') \<and>
     queue_at 50 s' q \<and> abs_queue q = \<lparr>a_ready = [], a_pending = [], a_capacity = 5, a_next = 1\<rparr>"
  using queue_create_empty [of "demo_state demo_queue" 5 "''orders''"] by auto

text \<open>
  The size of the array is computed without an overflow check: for a capacity of
  \<open>2 ^ 61\<close> the product is 0, \<open>queue_create\<close> succeeds with an array of no slots, and the first
  message put into the new queue is written outside it.
\<close>

theorem queue_create_size_overflow:
  assumes "sys_fine s"
  shows "\<exists>s'. queue_create (Some nm) (2 ^ 61) s = Inr (Some (brk s), s') \<and>
    queue_try_enqueue (Some (brk s)) (Some m) s' = Inl (OutOfBounds 0)"
proof -
  have "sz_mul (2 ^ 61) sizeof_ptr = 0" by (simp add: sz_mul_def sizeof_ptr_def)
  then show ?thesis
    using assms
    by (simp add: queue_create_def sys_malloc_def sys_try_def strdup_def sys_fine_def alloc_slots_def
        sz_mul_def DEFAULT_UNACKED_CAPACITY_def sizeof_DeliveryInfo_def Let_def
        queue_try_enqueue_def put_queue_def ring_put_def slot_put_def)
qed

theorem queue_create_size_overflow_witness:
  "\<exists>s'. queue_create (Some ''huge'') (2 ^ 61) (demo_state demo_queue) = Inr (Some 50, s') \<and>
     queue_try_enqueue (Some 50) (Some 5) s' = Inl (OutOfBounds 0)"
  using queue_create_size_overflow [of "demo_state demo_queue" "''huge''" 5] by simp

text \<open>
  C3. \<open>queue_try_enqueue\<close> implements the bounded queue: on a well-formed queue and a message it
  does not own, it never faults, returns 0 and changes nothing when the queue is full, and
  otherwise appends the message, keeping the invariant.
\<close>

theorem queue_try_enqueue_refines:
  assumes "queue_at qa s q" and "msgs s m \<noteq> None" and "m \<notin> set (held q)"
  shows "\<exists>q'. queue_try_enqueue (Some qa) (Some m) s =
      Inr (fst (spec_try_enqueue m (abs_queue q)), put_queue qa q' s) \<and>
    queue_at qa (put_queue qa q' s) q' \<and> abs_queue q' = snd (spec_try_enqueue m (abs_queue q))"
  by (rule try_enqueue_refines [OF assms])

theorem queue_try_enqueue_refines_witness:
  "\<exists>q' s'. queue_try_enqueue (Some 10) (Some 5) (demo_state demo_queue) = Inr (True, s') \<and>
     queue_at 10 s' q' \<and>
     abs_queue q' = \<lparr>a_ready = [1, 2, 5], a_pending = [(5, 10, 3), (7, 90, 4)], a_capacity = 3, a_next = 8\<rparr>"
  using queue_try_enqueue_refines [OF demo_at(1), of 5]
  by (auto simp: demo_held demo_abs spec_try_enqueue_def)

text \<open>
  \<open>queue_enqueue\<close> waits exactly when the queue is full, and then leaves the messages as
  they are; otherwise it behaves as \<open>queue_try_enqueue\<close> does, and returns 1.
\<close>

theorem queue_enqueue_blocks_iff_full:
  assumes "queue_at qa s q"
  shows "if length (a_ready (abs_queue q)) = a_capacity (abs_queue q)
    then (\<exists>q'. queue_enqueue (Some qa) (Some m) s = Inr (Blocks, put_queue qa q' s) \<and>
           abs_queue q' = abs_queue q \<and> waiters (not_full q') = Suc (waiters (not_full q)))
    else (\<exists>s'. queue_enqueue (Some qa) (Some m) s = Inr (Returns True, s') \<and>
           queue_try_enqueue (Some qa) (Some m) s = Inr (True, s'))"
proof -
  note d = queue_atD [OF assms]
  show ?thesis
  proof (cases "q_size q = capacity q")
    case True
    then show ?thesis
      using d(1) by (auto simp: queue_enqueue_def abs_queue_def cond_wait_def intro!: exI [of _ "q\<lparr>not_full := _\<rparr>"])
  next
    case False
    then have "q_size q < capacity q" using ring_okD [OF d(3)] by simp
    with False show ?thesis
      using d(1,3) by (simp add: queue_enqueue_def queue_try_enqueue_def ring_put_eq abs_queue_def)
  qed
qed

theorem queue_enqueue_blocks_iff_full_witness:
  "(\<exists>s'. queue_enqueue (Some 10) (Some 5) (demo_state full_queue) = Inr (Blocks, s')) \<and>
   (\<exists>s'. queue_enqueue (Some 10) (Some 5) (demo_state demo_queue) = Inr (Returns True, s'))"
  using queue_enqueue_blocks_iff_full [OF demo_at(1), of 5] queue_enqueue_blocks_iff_full [OF demo_at(2), of 5]
  by (auto simp: demo_abs)

text \<open>
  C4. \<open>queue_try_dequeue\<close> delivers in order: it returns NULL and changes nothing on an empty
  queue; otherwise, as long as the delivery tags have not run out, it returns the first
  message with the next tag and keeps it pending under that tag, or, only when the array of
  unacknowledged deliveries is full and cannot grow, returns NULL and leaves the queue as it
  was.
\<close>

theorem queue_try_dequeue_refines:
  assumes at: "queue_at qa s q" and tag: "next_delivery_tag q \<noteq> - 1"
  shows "(\<exists>k. queue_try_dequeue (Some qa) s = Inr (None, put_queue qa q (s\<lparr>sys_calls := k\<rparr>)) \<and>
      unacked_count q = unacked_capacity q \<and> \<not> (sys_ok s (sys_calls s) \<and> unacked_capacity q * 64 < 2 ^ 63)) \<or>
    (\<exists>k q'. queue_try_dequeue (Some qa) s =
        Inr (fst (spec_try_dequeue (clock s) (abs_queue q)), put_queue qa q' (s\<lparr>sys_calls := k\<rparr>)) \<and>
      queue_at qa (put_queue qa q' (s\<lparr>sys_calls := k\<rparr>)) q' \<and>
      abs_queue q' = snd (spec_try_dequeue (clock s) (abs_queue q)))"
proof (cases "q_size q = 0")
  case True
  then have "ring_list q = []" by simp
  then have "spec_try_dequeue (clock s) (abs_queue q) = (None, abs_queue q)"
    by (simp add: spec_try_dequeue_def abs_queue_def del: ring_list_empty)
  moreover have "put_queue qa q (s\<lparr>sys_calls := sys_calls s\<rparr>) = s"
    using queue_atD(1) [OF at] by (simp add: put_queue_same)
  ultimately show ?thesis
    using at try_dequeue_empty [OF queue_atD(1) [OF at] True]
    by (intro disjI2 exI [of _ "sys_calls s"] exI [of _ q]) simp
next
  case False
  then have some: "0 < q_size q" by simp
  then obtain m ms where r: "ring_list q = m # ms" by (cases "ring_list q") (auto dest: arg_cong [of _ _ length])
  have spec: "spec_try_dequeue (clock s) (abs_queue q) = (Some (hd (ring_list q), next_delivery_tag q),
      (abs_queue q)\<lparr>a_ready := tl (ring_list q),
        a_pending := a_pending (abs_queue q) @ [(next_delivery_tag q, clock s, hd (ring_list q))],
        a_next := next_delivery_tag q + 1\<rparr>)"
    by (simp add: spec_try_dequeue_def abs_queue_def r)
  show ?thesis
    using take_delivery_cases [OF at some tag] try_dequeue_some [OF queue_atD(1) [OF at] some]
    unfolding spec by (auto simp: sizeof_DeliveryInfo_def)
qed

theorem queue_try_dequeue_refines_witness:
  "\<exists>q' s'. queue_try_dequeue (Some 10) (demo_state demo_queue) = Inr (Some (1, 8), s') \<and>
     queue_at 10 s' q' \<and>
     abs_queue q' = \<lparr>a_ready = [2], a_pending = [(5, 10, 3), (7, 90, 4), (8, 100, 1)], a_capacity = 3, a_next = 9\<rparr>"
  using queue_try_dequeue_refines [OF demo_at(1)]
  by (auto simp: demo_abs spec_try_dequeue_def)

text \<open>
  C5. \<open>queue_ack\<close> removes exactly the delivery with the tag from the pending ones and frees
  its message, once; with an unknown tag it returns 0 and changes nothing. It never faults
  and keeps the invariant.
\<close>

theorem queue_ack_refines:
  assumes "queue_at qa s q" and "spec_ack tag (abs_queue q) = (r, F, A)"
  shows "\<exists>q'. queue_ack (Some qa) tag s = Inr (r, put_queue qa q' (released F s)) \<and>
    queue_at qa (put_queue qa q' (released F s)) q' \<and> abs_queue q' = A"
  using ack_refines [OF assms] by blast

theorem queue_ack_refines_witness:
  "\<exists>q' s'. queue_ack (Some 10) 5 (demo_state demo_queue) = Inr (True, s') \<and> queue_at 10 s' q' \<and>
     abs_queue q' = \<lparr>a_ready = [1, 2], a_pending = [(7, 90, 4)], a_capacity = 3, a_next = 8\<rparr> \<and> msgs s' 3 = None"
  using queue_ack_refines [OF demo_at(1), of 5 True "{3}"]
  by (auto simp: demo_abs spec_ack_def without_tag_def)



text \<open>
  C7. \<open>queue_process_timeouts\<close>: when the queue has room, or nothing has expired, exactly the
  deliveries older than the timeout leave the pending ones; as many as there is room for go
  back to the front, the one delivered last in front of the others, and the rest are freed.
  No fault, and the invariant is kept.
\<close>

theorem queue_process_timeouts_refines:
  assumes "queue_at qa s q" and "0 < timeout"
    and "length (a_ready (abs_queue q)) < a_capacity (abs_queue q) \<or>
      (\<forall>(tag, time, m)\<in>set (a_pending (abs_queue q)). clock s - time \<le> timeout)"
    and "spec_timeouts (clock s) timeout (abs_queue q) = (F, A)"
  shows "\<exists>q'. queue_process_timeouts (Some qa) timeout s = Inr (put_queue qa q' (released F s)) \<and>
    queue_at qa (put_queue qa q' (released F s)) q' \<and> abs_queue q' = A"
proof -
  have "q_size q < capacity q \<or> (\<forall>d\<in>set (unacked_list q). \<not> expired (clock s) timeout d)"
    using assms(3) queue_atD(2) [OF assms(1)]
    by (auto simp: abs_queue_def pending_of_def expired_def not_less)
  from timeouts_refine [OF assms(1,2) this assms(4)] show ?thesis by blast
qed

theorem queue_process_timeouts_refines_witness:
  "\<exists>q' s'. queue_process_timeouts (Some 10) 5 (demo_state demo_queue) = Inr s' \<and> queue_at 10 s' q' \<and>
     abs_queue q' = \<lparr>a_ready = [3, 1, 2], a_pending = [], a_capacity = 3, a_next = 8\<rparr> \<and> msgs s' 4 = None"
proof -
  have "spec_timeouts (clock (demo_state demo_queue)) 5 (abs_queue demo_queue) =
      ({4}, \<lparr>a_ready = [3, 1, 2], a_pending = [], a_capacity = 3, a_next = 8\<rparr>)"
    by (simp add: spec_timeouts_def demo_abs)
  from queue_process_timeouts_refines [OF demo_at(1) _ _ this] show ?thesis
    by (auto simp: demo_abs)
qed

text \<open>
  C24. When the queue is full, the messages of expired deliveries are freed but their entries
  stay in the array of unacknowledged deliveries, so that acknowledging such a delivery
  afterwards frees its message a second time.
\<close>

theorem queue_process_timeouts_full_double_free:
  assumes at: "queue_at qa s q" and pos: "0 < timeout" and full: "q_size q = capacity q"
    and d: "d \<in> set (unacked_list q)" and old: "timeout < clock s - delivery_time d"
  shows "\<exists>s'. queue_process_timeouts (Some qa) timeout s = Inr s' \<and> msgs s' (di_message d) = None \<and>
    queue_ack (Some qa) (delivery_tag d) s' = Inl (DoubleFree (di_message d))"
proof -
  let ?F = "di_message ` set (filter (expired (clock s) timeout) (unacked_list q))"
  let ?e = "mark_expired (clock s) timeout"
  from timeouts_full [OF at pos full] obtain q' where
    t: "queue_process_timeouts (Some qa) timeout s = Inr (put_queue qa q' (released ?F s))"
    and q': "ledger_ok q'" "unacked_list q' = map ?e (unacked_list q)" by blast
  have st: "status d = MESSAGE_STATUS_DELIVERED"
    using queue_atD(2) [OF at] d by (auto simp: queue_ok_def)
  have tags: "delivery_tag (?e x) = delivery_tag x" "di_message (?e x) = di_message x" for x
    by (simp_all add: mark_expired_def)
  then have dist: "distinct (map delivery_tag (unacked_list q'))"
    using queue_atD(6) [OF at] by (simp add: q'(2) comp_def)
  obtain k where k: "k < unacked_count q'" "unacked_list q' ! k = ?e d"
    using d length_unacked_list [OF q'(1)] unfolding q'(2) by (auto simp: in_set_conv_nth)
  have "di_message d \<in> ?F" using d old st by (auto simp: expired_def)
  then have dead: "msgs (put_queue qa q' (released ?F s)) (di_message (unacked_list q' ! k)) = None"
    by (simp add: k(2) tags)
  from stale_entry_double_free(1) [OF _ q'(1) dist k(1) dead] t dead show ?thesis
    by (simp add: k(2) tags)
qed

theorem queue_process_timeouts_full_double_free_witness:
  "\<exists>s'. queue_process_timeouts (Some 10) 5 (demo_state full_queue) = Inr s' \<and>
     queue_ack (Some 10) 7 s' = Inl (DoubleFree 4)"
  using queue_process_timeouts_full_double_free [OF demo_at(2), of 5 "demo_delivery 4 7 90"]
  by (auto simp: demo_pending demo_delivery_def)

text \<open>
  The ring buffer is first in, first out, around the end of the array too: messages put
  into a well-formed queue with room for them come out after those already there, in the
  order they were put in, and no access is out of bounds.
\<close>

theorem ring_first_in_first_out:
  assumes "ring_ok q" and "q_size q + length ms \<le> capacity q"
  shows "\<exists>q1 q2. for_loop ring_put ms q = Inr q1 \<and>
    take_many ring_take (q_size q + length ms) q1 = Inr (ring_list q @ ms, q2) \<and>
    ring_ok q2 \<and> q_size q2 = 0"
  using ring.fifo [OF assms(1), of ms] assms(2) by (auto simp: ring_room_def)

theorem ring_first_in_first_out_witness:
  "\<exists>q1 q2. for_loop ring_put [5] demo_queue = Inr q1 \<and> take_many ring_take 3 q1 = Inr ([1, 2, 5], q2)"
  using ring_first_in_first_out [OF demo_ring(1), of "[5]"] by (auto simp: demo_ready)

text \<open>
  The clean-up loop that follows an acknowledgement keeps exactly the entries not marked
  as acknowledged, in their order, whatever the marks.
\<close>

theorem cleanup_filters:
  assumes "ledger_ok q"
  shows "\<exists>q'. cleanup q = Inr q' \<and> ledger_ok q' \<and>
    unacked_list q' = filter (\<lambda>d. status d \<noteq> MESSAGE_STATUS_ACKNOWLEDGED) (unacked_list q) \<and>
    abs_queue q' = (abs_queue q)\<lparr>a_pending := map pending_of (unacked_list q')\<rparr>"
proof -
  from cleanup_ok [OF assms] obtain arr n where
    "cleanup q = Inr (q\<lparr>unacked_messages := arr, unacked_count := n\<rparr>)"
    "ledger_ok (q\<lparr>unacked_messages := arr, unacked_count := n\<rparr>)"
    "unacked_list (q\<lparr>unacked_messages := arr, unacked_count := n\<rparr>) = filter live (unacked_list q)" by auto
  then show ?thesis
    by (intro exI [of _ "q\<lparr>unacked_messages := arr, unacked_count := n\<rparr>"])
      (simp add: live_def [abs_def] abs_queue_def)
qed

theorem cleanup_filters_witness:
  "\<exists>q'. cleanup (demo_queue\<lparr>unacked_messages :=
       [Some ((demo_delivery 3 5 10)\<lparr>status := MESSAGE_STATUS_ACKNOWLEDGED\<rparr>),
        Some (demo_delivery 4 7 90), None, None]\<rparr>) = Inr q' \<and>
     unacked_list q' = [demo_delivery 4 7 90]"
  using cleanup_filters [of "demo_queue\<lparr>unacked_messages :=
       [Some ((demo_delivery 3 5 10)\<lparr>status := MESSAGE_STATUS_ACKNOWLEDGED\<rparr>),
        Some (demo_delivery 4 7 90), None, None]\<rparr>"]
  by (auto simp: ledger_ok_def filled_def unacked_list_def prefix_def demo_queue_def sizeof_DeliveryInfo_def
      demo_delivery_def)

text \<open>
  \<open>queue_free\<close> frees each message the queue owns, ready or unacknowledged, exactly once,
  and no other message.
\<close>

theorem queue_free_frees_once:
  assumes "queue_at qa s q"
  shows "\<exists>s'. queue_free (Some qa) s = Inr s' \<and> queues s' = (queues s)(qa := None) \<and>
    (\<forall>a. msgs s' a = (if a \<in> set (ring_list q) \<union> di_message ` set (unacked_list q) then None else msgs s a))"
  using queue_free_ok [OF assms] by (auto simp: held_def restrict_map_def released_def)

theorem queue_free_frees_once_witness:
  "\<exists>s'. queue_free (Some 10) (demo_state demo_queue) = Inr s' \<and> msgs s' 4 = None \<and>
     msgs s' 5 = Some demo_message"
  using queue_free_frees_once [OF demo_at(1)] by (auto simp: demo_ready demo_pending demo_delivery_def)

subsection \<open>Threads\<close>

text \<open>A new queue with one place, and the states of the run that loses a wake-up.\<close>

definition small_queue :: "addr slots \<Rightarrow> nat \<Rightarrow> DeliveryInfo slots \<Rightarrow> nat \<Rightarrow> u64 \<Rightarrow> nat \<Rightarrow> Queue" where
  "small_queue arr n unacked k tag waiting =
     \<lparr>q_name = Some ''test'', messages = arr, capacity = 1, q_size = n, head = 0, tail = 0,
      not_empty = \<lparr>waiters = waiting, woken = 0\<rparr>, not_full = cond_init, durable = 0,
      unacked_messages = unacked, unacked_capacity = 2, unacked_count = k, next_delivery_tag = tag\<rparr>"

lemma small_new: "queue_new 10 (demo_state (small_queue [None] 0 [None, None] 0 1 0))"
  by (simp add: queue_new_def queue_at_def queue_ok_def ring_ok_def ledger_ok_def held_def ring_list_def
      unacked_list_def small_queue_def sizeof_ptr_def sizeof_DeliveryInfo_def ring_index_def cond_init_def)

lemma put_demo [simp]: "put_queue 10 q (demo_state q') = demo_state q"
  by (simp add: put_queue_def demo_state_def)

lemma small_enqueue:
  "queue_try_enqueue (Some 10) (Some 1) (demo_state (small_queue [None] 0 u k t w)) =
     Inr (True, demo_state ((small_queue [Some 1] 1 u k t w)\<lparr>not_empty := cond_signal \<lparr>waiters = w, woken = 0\<rparr>\<rparr>))"
  by (simp add: queue_try_enqueue_def small_queue_def ring_put_def slot_put_def c_mod_def sz_add_def)

lemma small_reach_1:
  "reach (queue_new 10) (queue_thread 10 requeues) (demo_state (small_queue [Some 1] 1 [None, None] 0 1 0))"
proof (rule reach_step)
  show "reach (queue_new 10) (queue_thread 10 requeues) (demo_state (small_queue [None] 0 [None, None] 0 1 0))"
    using small_new by (rule reach_init)
  show "queue_thread 10 requeues (demo_state (small_queue [None] 0 [None, None] 0 1 0))
      (demo_state (small_queue [Some 1] 1 [None, None] 0 1 0))"
    by (rule queue_thread.try_enqueue [where m = 1 and q = "small_queue [None] 0 [None, None] 0 1 0" and r = True])
      (simp_all only: small_enqueue, simp_all add: small_queue_def held_def ring_list_def unacked_list_def cond_signal_def)
qed

text \<open>
  C8. Any number of threads using a queue keep it safe: in every state reachable from a new
  queue by any interleaving of calls (timeouts only while there is room), the queue is well
  formed, holds at most its capacity, owns every message once, and acknowledging, rejecting
  or freeing next cannot fault.
\<close>

theorem queue_threads_safe:
  assumes "reach (queue_new qa) (queue_thread qa requeues) s"
  shows "\<exists>q. queue_at qa s q \<and> length (a_ready (abs_queue q)) \<le> a_capacity (abs_queue q) \<and>
    distinct (a_ready (abs_queue q) @ map (snd \<circ> snd) (a_pending (abs_queue q))) \<and>
    (\<forall>tag. \<exists>x. queue_ack (Some qa) tag s = Inr x) \<and>
    (\<forall>tag requeue. \<exists>x. queue_reject (Some qa) tag requeue s = Inr x) \<and> (\<exists>x. queue_free (Some qa) s = Inr x)"
proof -
  from threads.reach_inv [OF assms] obtain q where at: "queue_at qa s q" by (auto simp: threads_inv_def)
  have "\<exists>x. queue_ack (Some qa) tag s = Inr x" for tag
    using ack_refines [OF at] by (metis prod_cases3)
  moreover have "\<exists>x. queue_reject (Some qa) tag requeue s = Inr x" for tag requeue
    using reject_refines [OF at] by (metis prod_cases3)
  moreover have "\<exists>x. queue_free (Some qa) s = Inr x" using queue_free_ok [OF at] by simp
  moreover have "distinct (a_ready (abs_queue q) @ map (snd \<circ> snd) (a_pending (abs_queue q)))"
    using queue_atD(5) [OF at] by (simp add: abs_queue_def held_def pending_of_def comp_def)
  ultimately show ?thesis
    using at ring_okD(6) [OF queue_atD(3) [OF at]] by (intro exI [of _ q]) (simp add: abs_queue_def)
qed

theorem queue_threads_safe_witness:
  "\<exists>q. queue_at 10 (demo_state (small_queue [Some 1] 1 [None, None] 0 1 0)) q \<and>
     length (a_ready (abs_queue q)) \<le> a_capacity (abs_queue q)"
  using queue_threads_safe [OF small_reach_1 [of True]] by blast

text \<open>
  C22. Without requeueing no wake-up is lost: in every reachable state, if a consumer sleeps
  then for every ready message another consumer has been woken and is about to run, and if a
  producer sleeps then for every free place another producer is.
\<close>

theorem queue_threads_no_lost_wakeup:
  assumes "reach (queue_new qa) (queue_thread qa False) s" and "queues s qa = Some q"
  shows "(0 < waiters (not_empty q) \<longrightarrow> q_size q \<le> woken (not_empty q)) \<and>
    (0 < waiters (not_full q) \<longrightarrow> capacity q - q_size q \<le> woken (not_full q))"
  using threads.reach_inv [OF assms(1)] assms(2)
  by (auto simp: threads_inv_def queue_at_def empty_signalled_def full_signalled_def)

theorem queue_threads_no_lost_wakeup_witness:
  "\<exists>s q. reach (queue_new 10) (queue_thread 10 False) s \<and> queues s 10 = Some q \<and> 0 < waiters (not_full q) \<and>
     capacity q - q_size q \<le> woken (not_full q)"
proof -
  let ?q1 = "small_queue [Some 1] 1 [None, None] 0 1 0"
  let ?q2 = "?q1\<lparr>not_full := \<lparr>waiters = 1, woken = 0\<rparr>\<rparr>"
  have "queue_enqueue (Some 10) (Some 2) (demo_state ?q1) = Inr (Blocks, demo_state ?q2)"
    by (simp add: queue_enqueue_def small_queue_def cond_wait_def cond_init_def)
  then have "queue_thread 10 False (demo_state ?q1) (demo_state ?q2)"
    by (rule queue_thread.enqueue [rotated 3])
      (simp_all, simp add: small_queue_def held_def ring_list_def unacked_list_def ring_index_def)
  with small_reach_1 have r: "reach (queue_new 10) (queue_thread 10 False) (demo_state ?q2)"
    by (blast intro: reach_step)
  from queue_threads_no_lost_wakeup [OF r, of ?q2] r show ?thesis
    by (intro exI [of _ "demo_state ?q2"] exI [of _ ?q2]) simp
qed

text \<open>
  C23. Requeueing loses wake-ups: there is a run (one message put in, delivered, a second
  consumer falling asleep, the delivery rejected with requeue) at whose end the queue holds
  a message, a consumer sleeps waiting for one, and nothing has woken it.
\<close>

theorem queue_requeue_loses_wakeup:
  "\<exists>s q. reach (queue_new 10) (queue_thread 10 True) s \<and> queues s 10 = Some q \<and>
     waiters (not_empty q) = 1 \<and> woken (not_empty q) = 0 \<and> q_size q = 1"
proof -
  let ?d = "\<lparr>di_message = 1, delivery_tag = 1, delivery_time = 100, status = MESSAGE_STATUS_DELIVERED\<rparr>"
  let ?a = "\<lparr>di_message = 1, delivery_tag = 1, delivery_time = 100, status = MESSAGE_STATUS_ACKNOWLEDGED\<rparr>"
  let ?q1 = "small_queue [Some 1] 1 [None, None] 0 1 0"
  let ?q2 = "small_queue [Some 1] 0 [Some ?d, None] 1 2 0"
  let ?q3 = "small_queue [Some 1] 0 [Some ?d, None] 1 2 1"
  let ?q4 = "small_queue [Some 1] 1 [Some ?a, None] 0 2 1"
  have "queue_try_dequeue (Some 10) (demo_state ?q1) = Inr (Some (1, 1), demo_state ?q2)"
    by (simp add: queue_try_dequeue_def take_delivery_def ring_take_def slot_get_def slot_put_def c_mod_def
        sz_add_def sz_sub_def add_to_unacked_def small_queue_def cond_signal_def cond_init_def)
  then have 1: "queue_thread 10 True (demo_state ?q1) (demo_state ?q2)"
    by (rule queue_thread.try_dequeue [rotated 2]) (simp_all, simp add: small_queue_def)
  have "queue_dequeue (Some 10) (demo_state ?q2) = Inr (Blocks, demo_state ?q3)"
    by (simp add: queue_dequeue_def small_queue_def cond_wait_def)
  then have 2: "queue_thread 10 True (demo_state ?q2) (demo_state ?q3)"
    by (rule queue_thread.dequeue [rotated 2]) (simp_all, simp add: small_queue_def)
  have "queue_reject (Some 10) 1 True (demo_state ?q3) = Inr (True, demo_state ?q4)"
    by (simp add: queue_reject_def small_queue_def find_tag.simps slot_get_def slot_put_def mark_acknowledged_def
        cleanup_def compact.simps ring_put_front_def c_mod_def sz_add_def sz_sub_def)
  then have 3: "queue_thread 10 True (demo_state ?q3) (demo_state ?q4)"
    by (rule queue_thread.reject) simp
  have "reach (queue_new 10) (queue_thread 10 True) (demo_state ?q4)"
    using 1 2 3 small_reach_1 [of True] by (blast intro: reach_step)
  then show ?thesis
    by (intro exI [of _ "demo_state ?q4"] exI [of _ ?q4]) (simp add: small_queue_def)
qed

end
