(* ===== verification/Wire_Properties.thy ===== *)
theory Wire_Properties
  imports Wire_Roundtrip Queue_Properties
begin

text \<open>
  The properties of the wire functions of \<open>src/core/connection.c\<close>: what is sent is what is
  received, in order, when the kernel handles every request in full; what is on the wire
  when it does not; and the lengths at which the code breaks.
\<close>

text \<open>Sockets whose kernel handles every request in full.\<close>

definition full_net :: "(int \<Rightarrow> byte list) \<Rightarrow> sockets" where
  "full_net i = \<lparr>inp = i, out = (\<lambda>_. []), send_limit = (\<lambda>_. Some (2 ^ 32)), send_calls = 0,
     recv_limit = (\<lambda>_. Some (2 ^ 32)), recv_calls = 0\<rparr>"

lemma full_net_simps [simp]: "full_sends (full_net i)" "full_recvs (full_net i)" "inp (full_net i) = i"
  "out (full_net i) = (\<lambda>_. [])" "recv_calls (full_net i) = 0"
  by (simp_all add: full_net_def full_sends_def full_recvs_def)

lemma demo_wire [simp]: "wire_ok demo_message"
  using demo_complete unfolding wire_ok_def by (simp add: demo_message_def)



text \<open>
  A body of \<open>2 ^ 32\<close> bytes or more is sent without an error but cut to its size modulo
  \<open>2 ^ 32\<close>: the receiver gets a well-formed, shorter message.
\<close>

theorem wire_truncates_long_body:
  assumes "full_sends net" and "0 \<le> fd" and "msgs s a = Some m" and "msg_complete m"
    and "length (the (exchange m)) < 2 ^ 32 - 1" and "length (the (routing_key m)) < 2 ^ 32 - 1"
    and "body_size m = 2 ^ 32 + k" and "0 < k" and "k < 2 ^ 32"
    and "sys_fine (t :: mem)" and "full_recvs net2" and "0 \<le> fd2"
  shows "\<exists>net'. send_message_data fd (Some a) s net = Inr (True, net') \<and>
    (inp net2 fd2 = drop (length (out net fd)) (out net' fd) \<longrightarrow>
       (\<exists>t' n'. receive_message_data fd2 t net2 = Inr (Some (brk t), t', n') \<and>
          msgs t' = (msgs t)(brk t \<mapsto> m\<lparr>body := map_option (take k) (body m), body_size := k\<rparr>)))"
proof -
  have cut: "cut_body m = m\<lparr>body := map_option (take k) (body m), body_size := k\<rparr>"
    using assms(7-9) by (simp add: cut_body_def Let_def)
  have w: "wire_ok (cut_body m)" by (rule cut_body_wire_ok [OF assms(4-6)])
  from send_message_full [OF assms(1-6)] obtain n where
    s: "send_message_data fd (Some a) s net = Inr (True, sent fd (wire_image (cut_body m)) n net)" by blast
  have "\<exists>t' n'. receive_message_data fd2 t net2 = Inr (Some (brk t), t', n') \<and> msgs t' = (msgs t)(brk t \<mapsto> cut_body m)"
    if "inp net2 fd2 = wire_image (cut_body m)"
  proof -
    have "parse_message (inp net2 fd2) = Some (cut_body m, [])"
      using message_codec.parse_image [OF w, of "[]"] by (simp add: that)
    from receive_message_full [OF assms(11,10,12) this] show ?thesis by force
  qed
  with s show ?thesis unfolding cut by simp
qed

definition long_message :: Message where
  "long_message = demo_message\<lparr>body := Some (replicate (2 ^ 32 + 1) CHR ''x''), body_size := 2 ^ 32 + 1\<rparr>"

lemma long_complete: "msg_complete long_message"
proof -
  have "replicate (2 ^ 32 + 1) CHR ''x'' \<noteq> []" by (metis length_0_conv length_replicate add_is_0 zero_neq_one)
  then show ?thesis
    using demo_complete unfolding msg_complete_def msg_ok_def long_message_def
    by (simp add: demo_message_def)
qed

theorem wire_truncates_long_body_witness:
  "\<exists>net'. send_message_data 3 (Some 1) ((demo_state demo_queue)\<lparr>msgs := [1 \<mapsto> long_message]\<rparr>) (full_net (\<lambda>_. [])) =
     Inr (True, net')"
proof -
  have "length (the (exchange long_message)) < 2 ^ 32 - 1" "length (the (routing_key long_message)) < 2 ^ 32 - 1"
    "body_size long_message = 2 ^ 32 + 1"
    by (simp_all add: long_message_def demo_message_def)
  from wire_truncates_long_body [of "full_net (\<lambda>_. [])" 3 "(demo_state demo_queue)\<lparr>msgs := [1 \<mapsto> long_message]\<rparr>" 1
      long_message, OF _ _ _ long_complete this, of "mem.truncate (demo_state demo_queue)" "full_net (\<lambda>_. [])" 3]
  show ?thesis by (auto simp: mem.truncate_def sys_fine_def)
qed

text \<open>As many calls of \<open>receive_message_data\<close> in a row.\<close>

fun receive_all :: "int \<Rightarrow> nat \<Rightarrow> mem \<Rightarrow> sockets \<Rightarrow> fault + ptr list \<times> mem \<times> sockets" where
  "receive_all fd 0 s n = Inr ([], s, n)"
| "receive_all fd (Suc k) s n =
     ebind (receive_message_data fd s n) (\<lambda>(p, s, n).
     ebind (receive_all fd k s n) (\<lambda>(ps, s, n). Inr (p # ps, s, n)))"

lemma receive_all_parses:
  assumes "full_recvs n" and "sys_fine s" and "0 \<le> fd" and "heap_ok s"
    and "parse_many parse_message k (inp n fd) = Some (ms, rest)" and "list_all msg_ok ms"
  shows "\<exists>s' n'. receive_all fd k s n = Inr (map Some [brk s..<brk s + k], s', n') \<and>
    map (msgs s') [brk s..<brk s + k] = map Some ms \<and> inp n' fd = rest \<and>
    (\<forall>a<brk s. msgs s' a = msgs s a)"
  using assms
proof (induction k arbitrary: s n ms)
  case (Suc k)
  then obtain m r ms' where p: "parse_message (inp n fd) = Some (m, r)"
    "parse_many parse_message k r = Some (ms', rest)" "ms = m # ms'"
    by (auto split: bind_splits)
  from receive_message_full [OF Suc.prems(1-3) p(1)] obtain c j where
    1: "receive_message_data fd s n = Inr (Some (brk s), s\<lparr>sys_calls := c, msgs := (msgs s)(brk s \<mapsto> m),
      brk := Suc (brk s)\<rparr>, consumed fd r j n)" by blast
  define s1 where "s1 = s\<lparr>sys_calls := c, msgs := (msgs s)(brk s \<mapsto> m), brk := Suc (brk s)\<rparr>"
  have "msg_ok m" "list_all msg_ok ms'" using Suc.prems(6) p(3) by simp_all
  then have h: "heap_ok s1" unfolding s1_def by (intro heap_ok_new Suc.prems(4))
  have "sys_fine s1" using Suc.prems(2) by (simp add: s1_def sys_fine_def)
  from Suc.IH [OF _ this Suc.prems(3) h _ \<open>list_all msg_ok ms'\<close>, of "consumed fd r j n"] p(2) Suc.prems(1)
  obtain s2 n2 where 2: "receive_all fd k s1 (consumed fd r j n) = Inr (map Some [Suc (brk s)..<Suc (brk s) + k], s2, n2)"
    "map (msgs s2) [Suc (brk s)..<Suc (brk s) + k] = map Some ms'" "inp n2 fd = rest"
    "\<forall>a<Suc (brk s). msgs s2 a = msgs s1 a"
    by (auto simp: s1_def)
  have u: "[brk s..<brk s + Suc k] = brk s # [Suc (brk s)..<Suc (brk s) + k]" by (simp add: upt_conv_Cons)
  have "receive_all fd (Suc k) s n = Inr (map Some [brk s..<brk s + Suc k], s2, n2)"
    using 1 2(1) unfolding u s1_def [symmetric] by simp
  moreover have "map (msgs s2) [brk s..<brk s + Suc k] = map Some ms"
    using 2(2,4) p(3) unfolding u by (simp add: s1_def)
  moreover have "\<forall>a<brk s. msgs s2 a = msgs s a" using 2(4) by (simp add: s1_def)
  ultimately show ?case using 2(3) by blast
qed simp



text \<open>
  Whatever number of bytes the kernel accepts from each \<open>send\<close>, what goes on the wire is
  a prefix of the message's image, and the result is 1 exactly when it is the whole image;
  a call that fails may leave part of a message on the wire.
\<close>

theorem wire_send_prefix:
  assumes "0 \<le> fd" and "msgs s a = Some m" and "msg_complete m"
    and "length (the (exchange m)) < 2 ^ 32 - 1" and "length (the (routing_key m)) < 2 ^ 32 - 1"
  shows "\<exists>ok net' k. send_message_data fd (Some a) s net = Inr (ok, net') \<and>
    out net' = (out net)(fd := out net fd @ take k (wire_image (cut_body m))) \<and>
    k \<le> length (wire_image (cut_body m)) \<and> (ok \<longleftrightarrow> k = length (wire_image (cut_body m)))"
proof -
  from send_message_buffers [OF assms] obtain bufs where
    b: "send_message_data fd (Some a) s net = Inr (send_fields fd bufs net)"
    "concat bufs = wire_image (cut_body m)" "bufs \<noteq> []" "last bufs \<noteq> []" by blast
  from send_fields_prefix [OF b(3,4), of fd net] b(1,2) show ?thesis by auto
qed

theorem wire_send_prefix_witness:
  "\<exists>ok net' k. send_message_data 3 (Some 1) (demo_state demo_queue) (full_net (\<lambda>_. [])) = Inr (ok, net') \<and>
     out net' 3 = take k (wire_image (cut_body demo_message))"
  using wire_send_prefix [of 3 "demo_state demo_queue" 1 demo_message "full_net (\<lambda>_. [])"] demo_wire
  by (auto simp: wire_ok_def)

lemma magic_bytes: "u32_bytes MESSAGE_MAGIC = [CHR 0x51, CHR 0x4D, CHR 0x41, CHR 0x52]"
proof -
  have "bytes_word [CHR 0x51, CHR 0x4D, CHR 0x41, CHR 0x52] = MESSAGE_MAGIC"
    by (simp add: bytes_word_def MESSAGE_MAGIC_def)
  then show ?thesis using u32_bytes_word [of "[CHR 0x51, CHR 0x4D, CHR 0x41, CHR 0x52]"] by simp
qed

lemma magic_first_byte:
  assumes "bytes_word bs = MESSAGE_MAGIC" and "length bs = 4"
  shows "bs ! 0 = CHR 0x51"
  using u32_bytes_word [OF assms(2)] unfolding assms(1) magic_bytes by auto

lemma recv_at:
  assumes "recv_limit n (recv_calls n) = Some j"
  shows "recv_into room fd len n =
    (let bs = take (min j len) (inp n fd) in
     if length bs > room then Inl (OutOfBounds room)
     else Inr (if length bs = len then Some bs else None, consumed fd (drop (min j len) (inp n fd)) 1 n))"
  using assms by (simp add: recv_into_def c_recv_def consumed_def Let_def)

text \<open>
  C35. A \<open>recv\<close> that returns only part of the magic number is taken for a failure, and the
  bytes it returned are lost: the call returns NULL, and so does the next one on the same
  descriptor, although every byte of the message arrived, because it reads from the middle.
\<close>

theorem wire_short_read_desync:
  assumes "0 \<le> fd" and "wire_ok m" and "inp n fd = wire_image m @ rest"
    and "recv_limit n (recv_calls n) = Some k" and "0 < k" and "k < 4"
    and "recv_limit n (Suc (recv_calls n)) = Some j" and "4 \<le> j"
  shows "\<exists>n1 n2. receive_message_data fd s n = Inr (None, s, n1) \<and> inp n1 fd = drop k (wire_image m) @ rest \<and>
    receive_message_data fd s n1 = Inr (None, s, n2)"
proof -
  define n1 where "n1 = consumed fd (drop k (inp n fd)) 1 n"
  let ?w = "string_image (the (exchange m)) @ string_image (the (routing_key m)) @
     u32_bytes (word_of_nat (body_size m)) @ body_bytes m @ properties_image m @ rest"
  have img: "inp n fd = [CHR 0x51, CHR 0x4D, CHR 0x41, CHR 0x52] @ ?w"
    by (simp add: assms(3) wire_image_def magic_bytes)
  have len: "4 \<le> length (drop k (inp n fd))" "4 \<le> length (wire_image m)"
    using assms(6) unfolding assms(3) wire_image_def by (simp_all add: string_image_def)
  have "recv_into 4 fd 4 n = Inr (None, n1)"
    using assms(4-6) img by (simp add: recv_at n1_def Let_def)
  then have 1: "receive_message_data fd s n = Inr (None, s, n1)"
    using assms(1) by (simp add: receive_message_data_def)
  have i1: "inp n1 fd = drop k (wire_image m) @ rest"
    using len assms(6) by (simp add: n1_def assms(3))
  let ?x = "take 4 (inp n1 fd)"
  have x: "length ?x = 4" using len by (simp add: n1_def)
  have "recv_limit n1 (recv_calls n1) = Some j" using assms(7) by (simp add: n1_def consumed_def)
  from recv_at [OF this, of 4 fd 4] assms(8) x obtain n2 where
    2: "recv_into 4 fd 4 n1 = Inr (Some ?x, n2)" by (simp add: Let_def)
  have "k = 1 \<or> k = 2 \<or> k = 3" using assms(5,6) by auto
  then have "?x ! 0 \<noteq> CHR 0x51" using img by (auto simp: n1_def numeral_2_eq_2 numeral_3_eq_3)
  then have "bytes_word ?x \<noteq> MESSAGE_MAGIC" using magic_first_byte [OF _ x] by auto
  then have "receive_message_data fd s n1 = Inr (None, s, n2)"
    using 2 assms(1) by (simp add: receive_message_data_def)
  with 1 i1 show ?thesis by blast
qed

theorem wire_short_read_desync_witness:
  "\<exists>n1 n2. receive_message_data 3 (demo_state demo_queue)
       ((full_net (\<lambda>_. wire_image demo_message))\<lparr>recv_limit := (\<lambda>n. if n = 0 then Some 2 else Some 4096)\<rparr>) =
       Inr (None, demo_state demo_queue, n1) \<and>
     receive_message_data 3 (demo_state demo_queue) n1 = Inr (None, demo_state demo_queue, n2)"
  using wire_short_read_desync [of 3 demo_message
      "(full_net (\<lambda>_. wire_image demo_message))\<lparr>recv_limit := (\<lambda>n. if n = 0 then Some 2 else Some 4096)\<rparr>" "[]" 2 4096
      "demo_state demo_queue"]
  by (auto simp: full_net_def)

text \<open>
  C34. A length field of \<open>0xFFFFFFFF\<close> makes the receiver's buffer size wrap around to 0: one
  more byte from the peer is then written outside the buffer.
\<close>

theorem wire_length_overflow:
  assumes "0 \<le> fd" and "full_recvs n" and "sys_fine s"
    and "inp n fd = u32_bytes MESSAGE_MAGIC @ u32_bytes (- 1) @ c # rest"
  shows "receive_message_data fd s n = Inl (OutOfBounds 0)"
proof -
  have full: "\<exists>j\<ge>2 ^ 32. recv_limit (consumed fd bs k n) (recv_calls (consumed fd bs k n)) = Some j" for bs k
    using assms(2) by (auto simp: consumed_def full_recvs_def)
  have 1: "recv_into 4 fd 4 n = Inr (Some (u32_bytes MESSAGE_MAGIC), consumed fd (u32_bytes (- 1) @ c # rest) 1 n)"
    by (rule recv_into_full [OF assms(2)]) (simp_all add: assms(4))
  define n1 where "n1 = consumed fd (u32_bytes (- 1) @ c # rest) 1 n"
  have 2: "recv_into 4 fd 4 n1 = Inr (Some (u32_bytes (- 1)), consumed fd (c # rest) 1 n1)"
    by (rule recv_into_full) (simp_all add: n1_def assms(2))
  define n2 where "n2 = consumed fd (c # rest) 1 n1"
  have n2: "n2 = consumed fd (c # rest) (Suc (Suc 0)) n" by (simp add: n2_def n1_def)
  obtain j where j: "recv_limit n2 (recv_calls n2) = Some j" "2 ^ 32 \<le> j"
    using full [of "c # rest" "Suc (Suc 0)"] unfolding n2 by blast
  have u: "unat (- 1 :: u32) = 2 ^ 32 - 1" by (simp add: unsigned_minus_1_eq_mask mask_eq_exp_minus_1)
  have 3: "recv_into 0 fd (unat (- 1 :: u32)) n2 = Inl (OutOfBounds 0)"
  proof -
    have i: "inp n2 fd = c # rest" by (simp add: n2)
    have "min j (2 ^ 32 - 1) \<noteq> 0" using j(2) by simp
    then show ?thesis unfolding recv_at [OF j(1)] i u Let_def by (cases "min j (2 ^ 32 - 1)") auto
  qed
  have "receive_string fd s n1 = Inl (OutOfBounds 0)"
    using 2 3 assms(3) unfolding n2_def [symmetric]
    by (simp add: receive_string_def sys_malloc_def sys_fine_def Let_def)
  then show ?thesis
    using 1 assms(1) unfolding n1_def [symmetric] by (simp add: receive_message_data_def)
qed

theorem wire_length_overflow_witness:
  "receive_message_data 3 (demo_state demo_queue)
     (full_net (\<lambda>_. u32_bytes MESSAGE_MAGIC @ u32_bytes (- 1) @ ''A'')) = Inl (OutOfBounds 0)"
  using wire_length_overflow [of 3 "full_net (\<lambda>_. u32_bytes MESSAGE_MAGIC @ u32_bytes (- 1) @ ''A'')"
      "demo_state demo_queue" "CHR ''A''" "[]"] by simp

end
