(* ===== verification/Connection_Properties.thy ===== *)
theory Connection_Properties
  imports Connection_Threads Wire_Properties
begin

text \<open>
  The properties of client connections (\<open>src/core/connection.c\<close>), each with an instance on a
  connection at address 7 whose socket is descriptor 3.
\<close>

definition demo_connection :: Connection where
  "demo_connection = \<lparr>socket_fd = 3, host = Some ''localhost'', port = 5672,
     conn_status = CONNECTION_STATUS_CONNECTED, receiver_thread = True, conn_running = 1,
     on_connect = Some 60, on_disconnect = Some 61, on_message = Some 62, callback_context = Some 63\<rparr>"

definition demo_cmem :: "Connection \<Rightarrow> int list \<Rightarrow> sockets \<Rightarrow> cmem" where
  "demo_cmem c fds n = \<lparr>msgs = Map.empty, brk = 50, sys_ok = (\<lambda>_. True), sys_calls = 0,
     queues = Map.empty, clock = 100, connections = [7 \<mapsto> c], socks = n, open_fds = fds, receivers = (if receiver_thread c then [7] else []),
     callbacks = [], errno = OTHER_ERRNO\<rparr>"

lemma demo_cmem_simps [simp]:
  "connections (demo_cmem c fds n) = [7 \<mapsto> c]" "socks (demo_cmem c fds n) = n" "open_fds (demo_cmem c fds n) = fds"
  "callbacks (demo_cmem c fds n) = []" "errno (demo_cmem c fds n) = OTHER_ERRNO" "sys_fine (demo_cmem c fds n)"
  "msgs (demo_cmem c fds n) = Map.empty" "brk (demo_cmem c fds n) = 50" "sys_ok (demo_cmem c fds n) i"
  "receivers (demo_cmem c fds n) = (if receiver_thread c then [7] else [])"
  by (simp_all add: demo_cmem_def sys_fine_def)

lemma demo_connection_simps [simp]:
  "socket_fd demo_connection = 3" "conn_status demo_connection = CONNECTION_STATUS_CONNECTED"
  "receiver_thread demo_connection" "conn_running demo_connection = 1" "on_message demo_connection = Some 62"
  "host demo_connection = Some ''localhost''"
  "callback_context demo_connection = Some 63" "on_disconnect demo_connection = Some 61"
  by (simp_all add: demo_connection_def)

lemma conn_reach: "conn_fresh a s0 \<Longrightarrow> (conn_step a)\<^sup>*\<^sup>* s0 s \<Longrightarrow> conn_inv a s"
  using conn.steps_inv conn.inv_init by blast

subsection \<open>The interface\<close>


definition fresh_connection :: Connection where
  "fresh_connection = \<lparr>socket_fd = -1, host = Some ''localhost'', port = 5672,
     conn_status = CONNECTION_STATUS_DISCONNECTED, receiver_thread = False, conn_running = 0,
     on_connect = None, on_disconnect = None, on_message = None, callback_context = None\<rparr>"

definition fine_env :: "int \<Rightarrow> connect_env" where
  "fine_env fd = \<lparr>env_socket = fd, env_resolved = True, env_connect = True, env_select = 1, env_so_error = False\<rparr>"

lemma fresh_demo: "conn_fresh 50 ((demo_cmem fresh_connection [] (full_net (\<lambda>_. [])))
    \<lparr>connections := [7 \<mapsto> fresh_connection, 50 \<mapsto> fresh_connection], brk := 51, sys_calls := 3\<rparr>)"
  unfolding conn_fresh_def
  by (rule exI [of _ "''localhost''"], rule exI [of _ 5672], rule exI [of _ "demo_cmem fresh_connection [] (full_net (\<lambda>_. []))"])
    (simp add: connection_create_def sys_malloc_def strdup_def sys_try_def Let_def put_conn_def demo_cmem_def
      fresh_connection_def sys_fine_def cstr_def NUL_def fun_eq_iff)




subsection \<open>The receiver\<close>

text \<open>
  A message that arrives in full on a connected connection is handed over exactly once:
  with a callback set, the callback gets it, allocated, complete and equal to what the
  stream holds; without one it is freed again and the messages are as before. The thread
  goes on in both cases and nothing else of the connection changes.
\<close>

theorem connection_receiver_delivers:
  assumes "connections s a = Some c" and "conn_running c \<noteq> 0" and "0 \<le> socket_fd c"
    and "full_recvs (socks s)" and "sys_fine s" and "heap_ok s"
    and "parse_message (inp (socks s) (socket_fd c)) = Some (m, rest)"
  shows "\<exists>s'. connection_receiver_thread err a s = Inr (True, s') \<and> connections s' = connections s \<and>
    open_fds s' = open_fds s \<and> inp (socks s') (socket_fd c) = rest \<and>
    (case on_message c of
       None \<Rightarrow> msgs s' = msgs s \<and> callbacks s' = callbacks s
     | Some f \<Rightarrow> msgs s' = (msgs s)(brk s \<mapsto> m) \<and>
         callbacks s' = callbacks s @ [Message_Callback f (callback_context c) (brk s)])"
proof -
  from receive_message_full [OF assms(4,5,3,7)] obtain k n where
    r: "receive_message_data (socket_fd c) s (socks s) = Inr (Some (brk s), s\<lparr>sys_calls := k,
      msgs := (msgs s)(brk s \<mapsto> m), brk := Suc (brk s)\<rparr>, consumed (socket_fd c) rest n (socks s))"
    by blast
  have fresh: "msgs s (brk s) = None" by (rule brk_fresh [OF assms(6)])
  show ?thesis
  proof (cases "on_message c")
    case None
    with r assms(1,2) fresh show ?thesis
      by (simp add: connection_receiver_thread_def receiver_pass_def message_free_def Let_def fun_upd_idem)
  next
    case (Some f)
    with r assms(1,2) show ?thesis
      by (simp add: connection_receiver_thread_def receiver_pass_def Let_def) (simp add: call_back_def)
  qed
qed

theorem connection_receiver_delivers_witness:
  "\<exists>s'. connection_receiver_thread OTHER_ERRNO 7
       (demo_cmem demo_connection [3] (full_net (\<lambda>_. wire_image demo_message @ ''rest''))) = Inr (True, s') \<and>
     callbacks s' = [Message_Callback 62 (Some 63) 50] \<and> msgs s' 50 = Some demo_message"
proof -
  let ?s = "demo_cmem demo_connection [3] (full_net (\<lambda>_. wire_image demo_message @ ''rest''))"
  have "parse_message (inp (socks ?s) 3) = Some (demo_message, ''rest'')"
    using message_codec.parse_image [OF demo_wire, of "''rest''"] by simp
  moreover have "heap_ok ?s" by (simp add: heap_ok_def)
  ultimately show ?thesis
    using connection_receiver_delivers [of ?s 7 demo_connection demo_message "''rest''" OTHER_ERRNO] by auto
qed

text \<open>
  C30. A connection lost to the peer leaks its descriptor. The receiver reports the loss and
  ends with the socket still open; disconnecting then returns 1 without doing anything; and
  connecting again overwrites the descriptor, so that after a further disconnection the old
  one is still open and the old thread has never been joined, while nothing refers to
  either.
\<close>

theorem connection_lost_leaks_descriptor:
  assumes "connections s a = Some c" and "conn_status c = CONNECTION_STATUS_CONNECTED" and "conn_running c \<noteq> 0"
    and "0 \<le> socket_fd c" and "open_fds s = [socket_fd c]" and "receivers s = [a]" and "host c = Some h"
    and "recv_limit (socks s) (recv_calls (socks s)) = None" and "err \<in> {ECONNRESET, ENOTCONN, EPIPE}"
    and "sys_fine s" and "0 \<le> fd" and "fd \<noteq> socket_fd c"
  shows "\<exists>s1 s2 s3. connection_receiver_thread err a s = Inr (False, s1) \<and>
    connection_get_status (Some a) s1 = Inr CONNECTION_STATUS_DISCONNECTED \<and>
    connection_disconnect (Some a) s1 = Inr (True, s1) \<and> open_fds s1 = [socket_fd c] \<and>
    connection_connect (fine_env fd) (Some a) s1 = Inr (True, s2) \<and> open_fds s2 = [socket_fd c, fd] \<and>
    connection_disconnect (Some a) s2 = Inr (True, s3) \<and> open_fds s3 = [socket_fd c] \<and> receivers s3 = [a] \<and>
    map_option socket_fd (connections s3 a) = Some (- 1)"
proof -
  define n where "n = (socks s)\<lparr>recv_calls := Suc (recv_calls (socks s))\<rparr>"
  have "receive_message_data (socket_fd c) s (socks s) = Inr (None, s, n)"
    using assms(4,8) by (simp add: receive_message_data_def recv_into_def c_recv_def n_def Let_def)
  moreover have "errno_after err s s n = err"
    using assms(8) by (simp add: errno_after_def n_def)
  moreover define c1 where "c1 = c\<lparr>conn_running := 0, conn_status := CONNECTION_STATUS_DISCONNECTED\<rparr>"
  moreover define s1 where "s1 = call_back (\<lambda>f. Disconnect_Callback f (callback_context c)) (on_disconnect c)
      (put_conn a c1 (s\<lparr>socks := n, errno := err\<rparr>))"
  ultimately have 1: "connection_receiver_thread err a s = Inr (False, s1)"
    using assms(1,3,9) by (auto simp: connection_receiver_thread_def receiver_pass_def Let_def)
  have s1: "connections s1 = (connections s)(a \<mapsto> c1)" "open_fds s1 = [socket_fd c]" "receivers s1 = [a]"
    "conn_status c1 = CONNECTION_STATUS_DISCONNECTED" "host c1 = Some h" "socket_fd c1 = socket_fd c"
    using assms(5-7) by (simp_all add: s1_def c1_def)
  have fine: "sys_ok s1 i" for i
    using assms(10) by (simp add: s1_def call_back_def put_conn_def sys_fine_def split: option.split)
  have "\<exists>s2 c2. connection_connect (fine_env fd) (Some a) s1 = Inr (True, s2) \<and> open_fds s2 = [socket_fd c, fd] \<and>
      receivers s2 = [a, a] \<and> connections s2 a = Some c2 \<and> conn_status c2 = CONNECTION_STATUS_CONNECTED \<and>
      receiver_thread c2 \<and> socket_fd c2 = fd"
    using s1 fine assms(11) by (simp add: connection_connect_def fine_env_def sys_try_def Let_def)
  then obtain s2 c2 where 2: "connection_connect (fine_env fd) (Some a) s1 = Inr (True, s2)"
    "open_fds s2 = [socket_fd c, fd]" "receivers s2 = [a, a]" "connections s2 a = Some c2"
    "conn_status c2 = CONNECTION_STATUS_CONNECTED" "receiver_thread c2" "socket_fd c2 = fd" by blast
  then have "\<exists>s3. connection_disconnect (Some a) s2 = Inr (True, s3) \<and> open_fds s3 = [socket_fd c] \<and>
      receivers s3 = [a] \<and> map_option socket_fd (connections s3 a) = Some (- 1)"
    using assms(11,12) by (simp add: connection_disconnect_def disconnect_finish_def Let_def)
  with 1 2 s1 show ?thesis
    by (auto simp: connection_get_status_def connection_disconnect_def disconnect_finish_def)
qed

theorem connection_lost_leaks_descriptor_witness:
  "\<exists>s1 s2. connection_receiver_thread ECONNRESET 7
       (demo_cmem demo_connection [3] ((full_net (\<lambda>_. []))\<lparr>recv_limit := (\<lambda>_. None)\<rparr>)) = Inr (False, s1) \<and>
     connection_connect (fine_env 4) (Some 7) s1 = Inr (True, s2) \<and> open_fds s2 = [3, 4]"
  using connection_lost_leaks_descriptor [of "demo_cmem demo_connection [3] ((full_net (\<lambda>_. []))\<lparr>recv_limit := (\<lambda>_. None)\<rparr>)"
      7 demo_connection "''localhost''" ECONNRESET 4]
  by auto

text \<open>Passes of the receiver, as long as the thread runs.\<close>

fun receiver_passes :: "errno_value \<Rightarrow> addr \<Rightarrow> nat \<Rightarrow> cmem \<Rightarrow> fault + bool \<times> cmem" where
  "receiver_passes err a 0 s = Inr (True, s)"
| "receiver_passes err a (Suc k) s =
     ebind (connection_receiver_thread err a s) (\<lambda>(goes_on, s).
     if goes_on then receiver_passes err a k s else Inr (False, s))"

text \<open>
  C31. An orderly close by the peer is never noticed: once \<open>recv\<close> returns 0, the receiver goes
  round its loop forever, because \<open>errno\<close> is not set by that; after any number of passes
  the connection still counts as connected and \<open>on_disconnect\<close> has not been called.
\<close>

theorem connection_eof_unnoticed:
  assumes "connections s a = Some c" and "conn_running c \<noteq> 0" and "0 \<le> socket_fd c"
    and "inp (socks s) (socket_fd c) = []" and "\<forall>i. recv_limit (socks s) i \<noteq> None"
    and "errno s \<notin> {ECONNRESET, ENOTCONN, EPIPE}"
  shows "\<exists>s'. receiver_passes err a k s = Inr (True, s') \<and> connections s' = connections s \<and>
    callbacks s' = callbacks s \<and> msgs s' = msgs s"
  using assms
proof (induction k arbitrary: s)
  case (Suc k)
  obtain j where j: "recv_limit (socks s) (recv_calls (socks s)) = Some j" using Suc.prems(5) by blast
  define n where "n = consumed (socket_fd c) [] 1 (socks s)"
  have "receive_message_data (socket_fd c) s (socks s) = Inr (None, s, n)"
    using Suc.prems(3,4) recv_at [OF j, of 4 "socket_fd c" 4]
    by (simp add: receive_message_data_def n_def Let_def)
  moreover have "recv_limit n = recv_limit (socks s)" by (simp add: n_def consumed_def)
  then have "\<forall>i. recv_limit n i \<noteq> None" using Suc.prems(5) by simp
  then have "\<not> list_ex (\<lambda>i. recv_limit n i = None) [recv_calls (socks s)..<recv_calls n]"
    unfolding list_ex_iff by blast
  then have "errno_after err s s n = errno s" by (simp add: errno_after_def)
  moreover define s1 where "s1 = s\<lparr>socks := n, errno := errno s\<rparr>"
  ultimately have 1: "connection_receiver_thread err a s = Inr (True, s1)"
    using Suc.prems(1,2,6) by (simp add: connection_receiver_thread_def receiver_pass_def Let_def)
  have "inp n (socket_fd c) = []" by (simp add: n_def)
  with Suc.IH [of s1] Suc.prems \<open>recv_limit n = _\<close> obtain s2 where
    "receiver_passes err a k s1 = Inr (True, s2)" "connections s2 = connections s" "callbacks s2 = callbacks s"
    "msgs s2 = msgs s"
    by (auto simp: s1_def)
  with 1 show ?case by simp
qed simp

theorem connection_eof_unnoticed_witness:
  "\<exists>s'. receiver_passes OTHER_ERRNO 7 1000 (demo_cmem demo_connection [3] (full_net (\<lambda>_. []))) = Inr (True, s') \<and>
     callbacks s' = []"
  using connection_eof_unnoticed [of "demo_cmem demo_connection [3] (full_net (\<lambda>_. []))" 7 demo_connection OTHER_ERRNO 1000]
  by (auto simp: full_net_def)

subsection \<open>Threads\<close>


lemma demo_joining:
  "(conn_thread 7 quiet)\<^sup>*\<^sup>* (Caller_Idle, Loop_Top, demo_cmem demo_connection [3] n)
     (Caller_Joining, In_Recv 3, put_conn 7 (demo_connection\<lparr>conn_running := 0\<rparr>) (demo_cmem demo_connection [3] n))"
proof -
  let ?s = "demo_cmem demo_connection [3] n"
  have "conn_thread 7 quiet (Caller_Idle, Loop_Top, ?s) (Caller_Idle, In_Recv (socket_fd demo_connection), ?s)"
    by (rule conn_thread.test) simp_all
  moreover have "conn_thread 7 quiet (Caller_Idle, In_Recv 3, ?s)
      (Caller_Joining, In_Recv 3, put_conn 7 (demo_connection\<lparr>conn_running := 0\<rparr>) ?s)"
    by (rule conn_thread.begin_disconnect) simp_all
  ultimately show ?thesis by (simp add: converse_rtranclp_into_rtranclp)
qed




end
