(* ===== verification/Client_Races.thy ===== *)
theory Client_Races
  imports Client_Runs
begin

text \<open>
  \<open>Client::get\<close> of \<open>src/wrapper/client.cpp\<close> beside the receiver's \<open>onMessageCallback\<close>. The two
  threads share \<open>messagePromise\<close>, a pointer to a local variable of \<open>get\<close>, without a lock; here
  the callback is cut at its accesses to that pointer. Run alone, the steps are the callback.
\<close>

datatype callback_pc = Cb_Test | Cb_Read | Cb_Set addr | Cb_Clear | Cb_Done

definition callback_step ::
    "('z clmem_scheme) consumer_code \<Rightarrow> addr \<Rightarrow> addr \<Rightarrow> callback_pc \<Rightarrow> 'z clmem_scheme
      \<Rightarrow> fault + callback_pc \<times> 'z clmem_scheme" where
  "callback_step code ca message pc s =
     (case pc of
        Cb_Test \<Rightarrow>
          ebind (deref (contexts s) (Some ca)) (\<lambda>c.
          if messagePromise c \<noteq> None then Inr (Cb_Read, s)
          else ebind (onMessageCallback code (Some ca) (Some message) s) (\<lambda>s. Inr (Cb_Done, s)))
      | Cb_Read \<Rightarrow>
          ebind (deref (contexts s) (Some ca)) (\<lambda>c.
          case messagePromise c of None \<Rightarrow> Inl NullDeref | Some p \<Rightarrow> Inr (Cb_Set p, s))
      | Cb_Set p \<Rightarrow>
          ebind (deref (contexts s) (Some ca)) (\<lambda>c.
          case message_wrap (Some message) True (lastDeliveryTag c) of
            Throw e \<Rightarrow> ebind (message_free (Some message) s) (\<lambda>s. Inr (Cb_Done, s))
          | Value w \<Rightarrow>
              ebind (set_value p w s) (\<lambda>(r, left, s).
              ebind (message_destroy left s) (\<lambda>s.
              case r of
                Throw e \<Rightarrow> ebind (message_free (Some message) s) (\<lambda>s. Inr (Cb_Done, s))
              | Value _ \<Rightarrow> Inr (Cb_Clear, s))))
      | Cb_Clear \<Rightarrow>
          ebind (deref (contexts s) (Some ca)) (\<lambda>c.
          Inr (Cb_Done, put_context ca (c\<lparr>messagePromise := None\<rparr>) s))
      | Cb_Done \<Rightarrow> Inr (Cb_Done, s))"

lemma callback_alone:
  "for_loop (\<lambda>_ (pc, s). callback_step code ca message pc s) [0..<4] (Cb_Test, s) =
     ebind (onMessageCallback code (Some ca) (Some message) s) (\<lambda>s. Inr (Cb_Done, s))"
proof (cases "contexts s ca")
  case None
  then show ?thesis by (simp add: upt_rec callback_step_def onMessageCallback_def)
next
  case (Some c)
  show ?thesis
  proof (cases "messagePromise c")
    case None
    then show ?thesis
      using Some by (cases "onMessageCallback code (Some ca) (Some message) s") (simp_all add: upt_rec callback_step_def)
  next
    case p: (Some p)
    let ?w = "\<lparr>m_msg = Some message, m_owned = True, m_deliveryTag = lastDeliveryTag c\<rparr>"
    consider (gone) "promises s p = None" | (unset) "promises s p = Some None" | (set) x where "promises s p = Some (Some x)"
      by (cases "promises s p"; cases "the (promises s p)") auto
    then show ?thesis
    proof cases
      case gone
      then show ?thesis
        using Some p by (simp add: upt_rec callback_step_def onMessageCallback_def message_wrap_def set_value_def)
    next
      case unset
      then show ?thesis
        using Some p
        by (simp add: upt_rec callback_step_def onMessageCallback_def message_wrap_def set_value_def message_move_eq
            message_destroy_def moved_from_def)
    next
      case set
      then show ?thesis
        using Some p
        by (cases "message_free (Some message) s")
          (simp_all add: upt_rec callback_step_def onMessageCallback_def message_wrap_def set_value_def message_destroy_def
            ebind_assoc del: ebind_Inr_iff)
    qed
  qed
qed

text \<open>A call of \<open>get\<close> waits on the promise \<open>p\<close> while the receiver has a message for it.\<close>

definition get_waits :: "addr \<Rightarrow> addr \<Rightarrow> ClientContext \<Rightarrow> 'z clmem_scheme \<Rightarrow> bool" where
  "get_waits ca p ctx s \<longleftrightarrow>
     contexts s ca = Some ctx \<and> messagePromise ctx = Some p \<and> promises s p = Some None"

text \<open>The call times out between two accesses of the callback.\<close>

lemma timeout_race:
  assumes w: "get_waits ca p ctx s"
  shows "\<exists>e s1. callback_step code ca m Cb_Test s = Inr (Cb_Read, s) \<and>
    callback_step code ca m Cb_Read s = Inr (Cb_Set p, s) \<and>
    get_end (Some ca) p s = Inr (Throw e, s1) \<and>
    callback_step code ca m Cb_Read s1 = Inl NullDeref \<and>
    callback_step code ca m (Cb_Set p) s1 = Inl (UseAfterFree p)"
  using w
  by (simp add: get_waits_def callback_step_def get_end_def put_context_def message_wrap_def set_value_def)

text \<open>
  The call returns with the message before the callback resets the pointer, and the next call
  starts: the reset hits the new promise.
\<close>

lemma reset_race:
  fixes s :: "'z clmem_scheme"
  assumes w: "get_waits ca p ctx s" and c: "connected_client con this s" "clients s this = Some c" "m_context c = Some ca"
    and old: "promises s (brk s) = None"
  shows "\<exists>s1 s2 s3 s4 e s5.
    callback_step code ca m (Cb_Set p) s = Inr (Cb_Clear, s1) \<and>
    get_end (Some ca) p s1 = Inr (Value (wrapper_of m (lastDeliveryTag ctx)), s2) \<and>
    get_begin this q s2 = Inr (Value (Some ca, brk s), s3) \<and>
    callback_step code ca m Cb_Clear s3 = Inr (Cb_Done, s4) \<and>
    get_waits ca (brk s) (ctx\<lparr>currentQueue := q, messagePromise := Some (brk s)\<rparr>) s3 \<and>
    contexts s4 ca = Some (ctx\<lparr>currentQueue := q, messagePromise := None\<rparr>) \<and>
    (ctx_consumer ctx = None \<longrightarrow> (\<forall>m'. callback_step code ca m' Cb_Test s4 =
       ebind (message_free (Some m') s4) (\<lambda>s. Inr (Cb_Done, s)))) \<and>
    get_end (Some ca) (brk s) s4 = Inr (Throw e, s5)"
proof -
  define s1 where "s1 = s\<lparr>promises := (promises s)(p \<mapsto> Some (wrapper_of m (lastDeliveryTag ctx)))\<rparr>"
  define s2 where "s2 = s1\<lparr>promises := (promises s)(p := None)\<rparr>"
  define s3 where "s3 = put_context ca (ctx\<lparr>currentQueue := q, messagePromise := Some (brk s)\<rparr>)
      (s2\<lparr>brk := Suc (brk s), promises := (promises s2)(brk s \<mapsto> None)\<rparr>)"
  define s4 where "s4 = put_context ca (ctx\<lparr>currentQueue := q, messagePromise := None\<rparr>) s3"
  have ctx: "contexts s ca = Some ctx" "messagePromise ctx = Some p" "promises s p = Some None" and ne: "brk s \<noteq> p"
    using w old by (auto simp: get_waits_def)
  have 1: "callback_step code ca m (Cb_Set p) s = Inr (Cb_Clear, s1)"
    using ctx by (simp add: callback_step_def message_wrap_def set_value_def message_move_eq message_destroy_def
        moved_from_def s1_def wrapper_of_def)
  have 2: "get_end (Some ca) p s1 = Inr (Value (wrapper_of m (lastDeliveryTag ctx)), s2)"
    by (simp add: get_end_def s1_def s2_def)
  have "connected_client con this s2" 
    by (subst connected_client_same [of s2 s]) (simp_all add: s2_def s1_def c(1))
  moreover have s2: "clients s2 this = Some c" "contexts s2 ca = Some ctx" "brk s2 = brk s"
    using c(2) ctx by (simp_all add: s2_def s1_def)
  ultimately have 3: "get_begin this q s2 = Inr (Value (Some ca, brk s), s3)"
    using c(3) by (simp add: get_begin_def if_connected_runs s3_def Let_def)
  have s3: "contexts s3 ca = Some (ctx\<lparr>currentQueue := q, messagePromise := Some (brk s)\<rparr>)" "promises s3 (brk s) = Some None"
    by (simp_all add: s3_def put_context_def)
  then have 4: "callback_step code ca m Cb_Clear s3 = Inr (Cb_Done, s4)" by (simp add: callback_step_def s4_def)
  have s4: "contexts s4 ca = Some (ctx\<lparr>currentQueue := q, messagePromise := None\<rparr>)" "promises s4 (brk s) = Some None"
    using s3 by (simp_all add: s4_def put_context_def)
  have "get_waits ca (brk s) (ctx\<lparr>currentQueue := q, messagePromise := Some (brk s)\<rparr>) s3"
    using s3 by (simp add: get_waits_def)
  moreover have "callback_step code ca m' Cb_Test s4 = ebind (message_free (Some m') s4) (\<lambda>s. Inr (Cb_Done, s))"
    if "ctx_consumer ctx = None" for m'
    using that s4 by (simp add: callback_step_def onMessageCallback_def ebind_assoc)
  moreover have "\<exists>e s5. get_end (Some ca) (brk s) s4 = Inr (Throw e, s5)" using s4 by (simp add: get_end_def Let_def)
  ultimately show ?thesis using 1 2 3 4 s4(1) by blast
qed

end
