(* ===== verification/Client_Properties.thy ===== *)
theory Client_Properties
  imports Consumer_Runs Connection_Properties Client_Races
begin

text \<open>
  The properties of the C++ wrapper (\<open>src/wrapper/client.cpp\<close>) and of the example programs.
  The instances start in an empty process whose next address is 50; the client object is at
  address 7 and its socket is descriptor 3.
\<close>

definition empty_process :: "sockets \<Rightarrow> exmem" where
  "empty_process n = \<lparr>msgs = Map.empty, brk = 50, sys_ok = (\<lambda>_. True), sys_calls = 0,
     queues = Map.empty, clock = 100, connections = Map.empty, socks = n, open_fds = [], receivers = [],
     callbacks = [], errno = OTHER_ERRNO, clients = Map.empty, contexts = Map.empty, promises = Map.empty,
     ack_consumers = Map.empty\<rparr>"

lemma empty_process_simps [simp]:
  "msgs (empty_process n) = Map.empty" "brk (empty_process n) = 50" "sys_fine (empty_process n)" "socks (empty_process n) = n"
  "open_fds (empty_process n) = []" "clients (empty_process n) = Map.empty" "connections (empty_process n) = Map.empty"
  "contexts (empty_process n) = Map.empty" "receivers (empty_process n) = []" "ack_consumers (empty_process n) = Map.empty"
  "queues (empty_process n) = Map.empty" "fresh_process this (empty_process n)"
  by (simp_all add: empty_process_def sys_fine_def fresh_process_def)

lemma fine_env_reaches [simp]: "reaches (fine_env 3)" "env_socket (fine_env fd) = fd"
  by (simp_all add: reaches_def fine_env_def)

subsection \<open>Message wrappers\<close>

lemma destroy_all:
  "wrappers_inv D (ws, s) \<Longrightarrow> \<exists>s'. for_loop message_destroy ws s = Inr s' \<and> dom (msgs s') = D"
proof (induction ws arbitrary: s)
  case (Cons w ws)
  from release_inv [OF Cons.prems, of w ws] obtain s1 where "message_destroy w s = Inr s1" "wrappers_inv D (ws, s1)"
    by auto
  with Cons.IH show ?case by auto
qed (simp add: wrappers_inv_def)


definition empty_mem :: mem where
  "empty_mem = \<lparr>msgs = Map.empty, brk = 50, sys_ok = (\<lambda>_. True), sys_calls = 0\<rparr>"


subsection \<open>Publishing\<close>


text \<open>A connected client with the given context.\<close>

definition wired_connection :: Connection where
  "wired_connection = demo_connection\<lparr>on_connect := Some onConnectCallback_fn, on_disconnect := Some onDisconnectCallback_fn,
     on_message := Some onMessageCallback_fn, callback_context := Some 51\<rparr>"

definition client_process :: "ClientContext \<Rightarrow> sockets \<Rightarrow> exmem" where
  "client_process ctx n = (empty_process n)\<lparr>brk := 53, msgs := [52 \<mapsto> demo_message], connections := [50 \<mapsto> wired_connection],
     contexts := [51 \<mapsto> ctx], clients := [7 \<mapsto> \<lparr>m_conn = Some 50, m_consumer = None, m_context = Some 51,
       m_autoAck = False, m_queues = Map.empty\<rparr>], open_fds := [3], receivers := [50]\<rparr>"

lemma client_process_simps [simp]:
  "msgs (client_process ctx n) = [52 \<mapsto> demo_message]" "brk (client_process ctx n) = 53" "sys_fine (client_process ctx n)"
  "socks (client_process ctx n) = n" "connections (client_process ctx n) = [50 \<mapsto> wired_connection]"
  "contexts (client_process ctx n) = [51 \<mapsto> ctx]" "clients (client_process ctx n) = [7 \<mapsto> \<lparr>m_conn = Some 50, m_consumer = None,
     m_context = Some 51, m_autoAck = False, m_queues = Map.empty\<rparr>]"
  by (simp_all add: client_process_def empty_process_def sys_fine_def)

lemma wired_connection_simps [simp]: "conn_status wired_connection = CONNECTION_STATUS_CONNECTED" "socket_fd wired_connection = 3"
  by (simp_all add: wired_connection_def)


subsection \<open>Reachable states\<close>

text \<open>
  C14. Acknowledging never works. Whatever a client has done since its construction
  (connecting, disconnecting, publishing, consuming, getting, declaring queues, exchanges
  and bindings, receiving, in any order and with any consumer code that uses the client only
  to publish, acknowledge and reject), \<open>ack\<close> and \<open>reject\<close> of any message throw and change
  nothing: the client's table of queues stays empty.
\<close>

theorem client_ack_never_works:
  assumes "client_new this options s0 = Inr (Value (), s1)" and "sys_fine s0"
    and "tame code" and "(client_step code this)\<^sup>*\<^sup>* s1 s"
  shows "(\<exists>e. ack this w s = Inr (Throw e, s)) \<and> (\<exists>e. reject this w requeue s = Inr (Throw e, s))"
proof -
  have "client_fresh this s1" using assms(1,2) unfolding client_fresh_def by blast
  then have "client_inv this s" using client_reach [OF _ assms(3,4)] by blast
  then obtain c a ca ctx con where "client_objects c a ca ctx this s" "connections s a = Some con"
    by (auto simp: client_inv_def client_wired_def)
  from ack_throws [OF this] show ?thesis by blast
qed

lemma connected_run:
  fixes s0 :: exmem
  assumes "fresh_process 7 s0" and "open_fds s0 = []" and "brk s0 = 50"
  shows "\<exists>s1 s. client_new 7 default_options s0 = Inr (Value (), s1) \<and> client_connect (fine_env 3) 7 s1 = Inr (True, s) \<and>
     (client_step code 7)\<^sup>*\<^sup>* s1 s \<and> holds_client s0 7 CONNECTION_STATUS_CONNECTED 3 new_context s \<and> same_rest s0 s"
proof -
  from new_holds [OF assms(1), of default_options 3] obtain s1 where
    1: "client_new 7 default_options s0 = Inr (Value (), s1)"
      "holds_client s0 7 CONNECTION_STATUS_DISCONNECTED 3 new_context s1" "same_rest s0 s1" by blast
  from connect_holds [OF 1(2), of "fine_env 3"] assms(2) obtain s where
    2: "client_connect (fine_env 3) 7 s1 = Inr (True, s)"
      "holds_client s0 7 CONNECTION_STATUS_CONNECTED 3 new_context s" "same_rest s1 s"
    by auto
  moreover have "(client_step code 7)\<^sup>*\<^sup>* s1 s" using client_step.connect [OF 2(1)] by blast
  ultimately show ?thesis using 1 by (auto simp: same_rest_def)
qed

theorem client_ack_never_works_witness:
  "\<exists>s1 s e e'. client_new 7 default_options (empty_process (full_net (\<lambda>_. []))) = Inr (Value (), s1) \<and>
     client_connect (fine_env 3) 7 s1 = Inr (True, s) \<and> ack 7 (wrapper_of 9 5) s = Inr (Throw e, s) \<and>
     reject 7 (wrapper_of 9 5) True s = Inr (Throw e', s)"
  using connected_run [of "empty_process (full_net (\<lambda>_. []))" "ack_onMessage True"]
    client_ack_never_works [OF _ empty_process_simps(3) tame_ack_onMessage] by (simp, meson)



text \<open>
  C37. A consumer that throws. When \<open>onMessage\<close> leaves its parameter as it was, the message is
  freed by the parameter's destructor and again by the \<open>catch\<close> block: a double free. When it
  has moved the message elsewhere before it throws, the \<open>catch\<close> block frees what the new
  owner still holds.
\<close>

theorem client_handler_exception:
  assumes "contexts s ca = Some ctx" and "messagePromise ctx = None" and "ctx_consumer ctx = Some k"
    and "code k (wrapper_of a (lastDeliveryTag ctx)) s = Inr (Throw e, left, t)" and "msgs t a = Some m"
  shows "(left = wrapper_of a (lastDeliveryTag ctx) \<longrightarrow> onMessageCallback code (Some ca) (Some a) s = Inl (DoubleFree a)) \<and>
    (left = moved_from \<longrightarrow> onMessageCallback code (Some ca) (Some a) s = Inr (t\<lparr>msgs := (msgs t)(a := None)\<rparr>))"
  using callback_consumer [OF assms(1-3), of code a] assms(4,5)
  by (auto simp: message_destroy_def wrapper_of_def moved_from_def message_free_def)

text \<open>Consumer code that throws on an empty exchange name, after reading it.\<close>

definition throwing :: "('z clmem_scheme) consumer_code" where
  "throwing k w s = ebind (getExchange w s) (\<lambda>ex. Inr (if ex = [] then Value () else Throw ''unknown exchange'', w, s))"

theorem client_handler_exception_witness:
  "onMessageCallback throwing (Some 51) (Some 52) (client_process (new_context\<lparr>ctx_consumer := Some 9\<rparr>) (full_net (\<lambda>_. []))) =
     Inl (DoubleFree 52)"
proof -
  let ?s = "client_process (new_context\<lparr>ctx_consumer := Some 9\<rparr>) (full_net (\<lambda>_. []))"
  have "throwing 9 (wrapper_of 52 0) ?s = Inr (Throw ''unknown exchange'', wrapper_of 52 0, ?s)"
    by (simp add: throwing_def getExchange_def wrapper_of_def demo_message_def)
  with client_handler_exception [of ?s 51 "new_context\<lparr>ctx_consumer := Some 9\<rparr>" 9 throwing 52 "''unknown exchange''"
      "wrapper_of 52 0" ?s demo_message]
  show ?thesis by (simp add: new_context_def)
qed

subsection \<open>Getting a message\<close>

text \<open>
  \<open>get\<close>: when a whole message arrives while the call waits, the call returns it, with
  every field as the bytes had it, allocated and owned by the wrapper in the future; when
  none arrives, it throws. In both cases the client no longer points to the promise, which
  was a local variable of the call, and nothing else has changed.
\<close>

theorem client_get_delivers:
  assumes "clients s this = Some c" and "m_conn c = Some a" and "m_context c = Some ca" and "contexts s ca = Some ctx"
    and "connections s a = Some con" and "conn_status con = CONNECTION_STATUS_CONNECTED" and "0 \<le> socket_fd con"
    and "conn_running con \<noteq> 0" and "on_message con = Some onMessageCallback_fn" and "callback_context con = Some ca"
    and "sys_fine s" and "full_recvs (socks s)" and "parse_message (inp (socks s) (socket_fd con)) = Some (m, rest)"
    and "promises s (brk s) = None"
  shows "\<exists>p t. get_begin this q s = Inr (Value (Some ca, p), t) \<and>
    (\<exists>b t1 t2. client_receive code err a t = Inr (True, t1) \<and> get_end (Some ca) p t1 = Inr (Value (wrapper_of b (lastDeliveryTag ctx)), t2) \<and>
       msgs t2 = (msgs s)(b \<mapsto> m) \<and> inp (socks t2) (socket_fd con) = rest \<and> promises t2 = promises s \<and>
       contexts t2 = (contexts s)(ca \<mapsto> ctx\<lparr>currentQueue := q, messagePromise := None\<rparr>)) \<and>
    (\<exists>e t2. get_end (Some ca) p t = Inr (Throw e, t2) \<and> msgs t2 = msgs s \<and> promises t2 = promises s \<and>
       contexts t2 = (contexts s)(ca \<mapsto> ctx\<lparr>currentQueue := q, messagePromise := None\<rparr>))"
proof -
  define p where "p = brk s"
  define ctx1 where "ctx1 = ctx\<lparr>currentQueue := q, messagePromise := Some p\<rparr>"
  define t where "t = s\<lparr>brk := Suc p, promises := (promises s)(p \<mapsto> None), contexts := (contexts s)(ca \<mapsto> ctx1)\<rparr>"
  have "connected_client con this s" using assms(1,2,5-7) by (simp add: connected_client_def)
  then have 1: "get_begin this q s = Inr (Value (Some ca, p), t)"
    using assms(3,4) by (simp add: get_begin_def if_connected_runs [OF _ assms(1)] put_context_def t_def p_def ctx1_def Let_def)
  have none: "(promises s)(p := None) = promises s" using assms(14) by (simp add: p_def fun_upd_idem)
  have t: "connections t a = Some con" "full_recvs (socks t)" "sys_fine t" "contexts t ca = Some ctx1"
    "parse_message (inp (socks t) (socket_fd con)) = Some (m, rest)"
    using assms(5,11-13) by (simp_all add: t_def sys_fine_def)
  from receive_runs [OF t(1) assms(8,7,9) t(2,3,5), of code err] assms(10) obtain k n e where
    r: "client_receive code err a t = ebind (onMessageCallback code (Some ca) (Some (brk t))
      (t\<lparr>sys_calls := k, msgs := (msgs t)(brk t \<mapsto> m), brk := Suc (brk t), socks := consumed (socket_fd con) rest n (socks t),
         errno := e, callbacks := callbacks t @ [Message_Callback onMessageCallback_fn (Some ca) (brk t)]\<rparr>))
      (\<lambda>s. Inr (True, s))" by auto
  define u where "u = t\<lparr>sys_calls := k, msgs := (msgs t)(brk t \<mapsto> m), brk := Suc (brk t),
      socks := consumed (socket_fd con) rest n (socks t), errno := e,
      callbacks := callbacks t @ [Message_Callback onMessageCallback_fn (Some ca) (brk t)]\<rparr>"
  define t1 where "t1 = put_context ca (ctx1\<lparr>messagePromise := None\<rparr>)
      (u\<lparr>promises := (promises u)(p \<mapsto> Some (wrapper_of (brk t) (lastDeliveryTag ctx)))\<rparr>)"
  have "contexts u ca = Some ctx1" "promises u p = Some None" by (simp_all add: u_def t_def)
  then have "onMessageCallback code (Some ca) (Some (brk t)) u = Inr t1"
    by (simp add: onMessageCallback_def set_value_def message_move_eq message_destroy_def moved_from_def t1_def ctx1_def)
  then have 2: "client_receive code err a t = Inr (True, t1)" using r [folded u_def] by simp
  have 3: "get_end (Some ca) p t1 = Inr (Value (wrapper_of (brk t) (lastDeliveryTag ctx)), t1\<lparr>promises := (promises t1)(p := None)\<rparr>)"
    by (simp add: get_end_def t1_def put_context_def Let_def)
  have "\<exists>b t1 t2. client_receive code err a t = Inr (True, t1) \<and> get_end (Some ca) p t1 = Inr (Value (wrapper_of b (lastDeliveryTag ctx)), t2) \<and>
       msgs t2 = (msgs s)(b \<mapsto> m) \<and> inp (socks t2) (socket_fd con) = rest \<and> promises t2 = promises s \<and>
       contexts t2 = (contexts s)(ca \<mapsto> ctx\<lparr>currentQueue := q, messagePromise := None\<rparr>)"
    by (rule exI, rule exI, rule exI, rule conjI [OF 2], rule conjI [OF 3])
      (simp add: t1_def put_context_def u_def t_def ctx1_def none)
  moreover have "\<exists>e t2. get_end (Some ca) p t = Inr (Throw e, t2) \<and> msgs t2 = msgs s \<and> promises t2 = promises s \<and>
       contexts t2 = (contexts s)(ca \<mapsto> ctx\<lparr>currentQueue := q, messagePromise := None\<rparr>)"
    by (simp add: get_end_def t_def put_context_def Let_def ctx1_def none)
  ultimately show ?thesis using 1 by blast
qed

theorem client_get_delivers_witness:
  "\<exists>p t b t1 t2. get_begin 7 ''q'' (client_process new_context (full_net (\<lambda>_. wire_image demo_message))) = Inr (Value (Some 51, p), t) \<and>
     client_receive throwing OTHER_ERRNO 50 t = Inr (True, t1) \<and> get_end (Some 51) p t1 = Inr (Value (wrapper_of b 0), t2) \<and>
     msgs t2 b = Some demo_message"
proof -
  let ?s = "client_process new_context (full_net (\<lambda>_. wire_image demo_message))"
  have "parse_message (inp (socks ?s) 3) = Some (demo_message, [])"
    using message_codec.parse_image [OF demo_wire, of "[]"] by simp
  moreover have "promises ?s = Map.empty" "conn_running wired_connection \<noteq> 0" "on_message wired_connection = Some onMessageCallback_fn"
    "callback_context wired_connection = Some 51" "lastDeliveryTag new_context = 0"
    by (simp_all add: client_process_def empty_process_def wired_connection_def new_context_def)
  ultimately show ?thesis
    using client_get_delivers [of ?s 7 _ 50 51 new_context wired_connection demo_message "[]" "''q''" throwing OTHER_ERRNO]
    by fastforce
qed

text \<open>
  C36. \<open>get\<close> and the receiver's callback race for \<open>messagePromise\<close>. Run without interference the
  callback is its steps. If the call times out while the callback is between its test of the
  pointer and its use of it, the receiver dereferences NULL or sets the value of a promise
  that no longer exists. If the call returns with the message before the callback resets the
  pointer and the next call has started, the reset takes away that call's promise: it waits
  in vain, and without a consumer the messages that arrive meanwhile are freed.
\<close>

theorem client_get_race:
  assumes "get_waits ca p ctx s" and "connected_client con this s" and "clients s this = Some c" and "m_context c = Some ca"
    and "promises s (brk s) = None" and "ctx_consumer ctx = None"
  shows "for_loop (\<lambda>_ (pc, s). callback_step code ca m pc s) [0..<4] (Cb_Test, s) =
      ebind (onMessageCallback code (Some ca) (Some m) s) (\<lambda>s. Inr (Cb_Done, s)) \<and>
    (\<exists>e s1. callback_step code ca m Cb_Test s = Inr (Cb_Read, s) \<and>
       callback_step code ca m Cb_Read s = Inr (Cb_Set p, s) \<and> get_end (Some ca) p s = Inr (Throw e, s1) \<and>
       callback_step code ca m Cb_Read s1 = Inl NullDeref \<and>
       callback_step code ca m (Cb_Set p) s1 = Inl (UseAfterFree p)) \<and>
    (\<exists>s1 s2 s3 s4 e s5. callback_step code ca m (Cb_Set p) s = Inr (Cb_Clear, s1) \<and>
       get_end (Some ca) p s1 = Inr (Value (wrapper_of m (lastDeliveryTag ctx)), s2) \<and>
       get_begin this q s2 = Inr (Value (Some ca, brk s), s3) \<and>
       callback_step code ca m Cb_Clear s3 = Inr (Cb_Done, s4) \<and>
       (\<forall>m'. callback_step code ca m' Cb_Test s4 = ebind (message_free (Some m') s4) (\<lambda>s. Inr (Cb_Done, s))) \<and>
       get_end (Some ca) (brk s) s4 = Inr (Throw e, s5))"
  using callback_alone timeout_race [OF assms(1), of code m] reset_race [OF assms(1-5), of code m q] assms(6) by blast

theorem client_get_race_witness:
  "\<exists>p t s1 e. get_begin 7 ''q'' (client_process new_context (full_net (\<lambda>_. []))) = Inr (Value (Some 51, p), t) \<and>
     callback_step throwing 51 52 Cb_Read t = Inr (Cb_Set p, t) \<and> get_end (Some 51) p t = Inr (Throw e, s1) \<and>
     callback_step throwing 51 52 (Cb_Set p) s1 = Inl (UseAfterFree p)"
proof -
  let ?s = "client_process new_context (full_net (\<lambda>_. []))"
  let ?ctx = "new_context\<lparr>currentQueue := ''q'', messagePromise := Some 53\<rparr>"
  define t where "t = put_context 51 ?ctx (?s\<lparr>brk := 54, promises := [53 \<mapsto> None]\<rparr>)"
  have conn: "connected_client wired_connection 7 u" if "clients u = clients ?s" "connections u = connections ?s" for u :: exmem
    using that by (simp add: connected_client_def)
  have "promises ?s = Map.empty" by (simp add: client_process_def empty_process_def)
  then have b: "get_begin 7 ''q'' ?s = Inr (Value (Some 51, 53), t)"
  proof -
    obtain c where c: "clients ?s 7 = Some c" "m_context c = Some 51" by simp
    have "connected_client wired_connection 7 ?s" by (rule conn) simp_all
    then show ?thesis
      using c(2) \<open>promises ?s = Map.empty\<close>
      by (simp add: get_begin_def if_connected_runs [OF _ c(1)] t_def Let_def put_context_def del: ebind_Inr_iff)
  qed
  have w: "get_waits 51 53 ?ctx t" by (simp add: get_waits_def t_def put_context_def)
  have "connected_client wired_connection 7 t" by (rule conn) (simp_all add: t_def put_context_def)
  moreover have "clients t 7 = clients ?s 7" "promises t (brk t) = None" "ctx_consumer ?ctx = None"
    by (simp_all add: t_def put_context_def new_context_def)
  ultimately show ?thesis
    using client_get_race [OF w, of wired_connection 7 _ throwing 52 "''r''"] b by fastforce
qed

subsection \<open>The life of a client\<close>

text \<open>
  C38. Moving a client moves its connection: the new object is connected exactly when the old
  one was, the old one is not, destroying the old one touches neither the connection nor the
  context, and destroying the new one then restores the process as it was before the client
  was constructed: no connection, context or descriptor is freed twice or kept.
\<close>

theorem client_move_transfers:
  assumes "fresh_process this s" and "other \<noteq> this" and "clients s other = None" and "env_socket env \<notin> set (open_fds s)"
  shows "\<exists>s1 b s2 s3 s4 s5. client_new this options s = Inr (Value (), s1) \<and> client_connect env this s1 = Inr (b, s2) \<and>
    isConnected this s2 = Inr b \<and> client_move other this s2 = Inr s3 \<and> isConnected other s3 = Inr b \<and>
    isConnected this s3 = Inr False \<and> client_destroy this s3 = Inr s4 \<and>
    connections s4 = connections s2 \<and> contexts s4 = contexts s2 \<and> open_fds s4 = open_fds s2 \<and>
    client_destroy other s4 = Inr s5 \<and> clients s5 = clients s \<and> connections s5 = connections s \<and>
    contexts s5 = contexts s \<and> open_fds s5 = open_fds s \<and> receivers s5 = receivers s"
proof -
  let ?fd = "env_socket env"
  from new_holds [OF assms(1), of options ?fd] obtain s1 where
    1: "client_new this options s = Inr (Value (), s1)" "holds_client s this CONNECTION_STATUS_DISCONNECTED ?fd new_context s1" by blast
  define st where "st = (if reaches env then CONNECTION_STATUS_CONNECTED else CONNECTION_STATUS_FAILED)"
  from connect_holds [OF 1(2) _ assms(4)] obtain s2 where
    2: "client_connect env this s1 = Inr (reaches env, s2)" "holds_client s this st ?fd new_context s2"
    by (auto simp: st_def)
  have st: "(st = CONNECTION_STATUS_CONNECTED) = reaches env" by (simp add: st_def)
  obtain c where c: "clients s2 = (clients s)(this \<mapsto> c)"
    using 2(2) unfolding holds_client_def by blast
  define husk where "husk = c\<lparr>m_conn := None, m_consumer := None, m_context := None, m_queues := Map.empty\<rparr>"
  define s3 where "s3 = put_client other c (put_client this husk s2)"
  have 3: "client_move other this s2 = Inr s3" using c by (simp add: client_move_def s3_def husk_def)
  define s4 where "s4 = s3\<lparr>clients := (clients s3)(this := None)\<rparr>"
  have husk: "clients s3 this = Some husk" "m_conn husk = None" "m_context husk = None"
    using assms(2) by (simp_all add: s3_def put_client_def husk_def)
  then have 4: "client_destroy this s3 = Inr s4" "isConnected this s3 = Inr False"
    by (simp_all add: client_destroy_def client_disconnect_def delete_context_def isConnected_def s4_def)
  have "clients s3 = (clients s)(this \<mapsto> husk, other \<mapsto> c)" using c by (simp add: s3_def put_client_def)
  then have "clients s4 = (clients s)(other \<mapsto> c)"
    using assms(1,2) by (auto simp: s4_def fun_eq_iff fresh_process_def)
  then have h4: "holds_client s other st ?fd new_context s4"
    using 2(2) c unfolding holds_client_def by (auto simp: s4_def s3_def put_client_def sys_fine_def)
  have "fresh_process other s" using assms(1,3) by (simp add: fresh_process_def)
  from destroy_holds [OF h4 assms(4) this] obtain s5 where
    5: "client_destroy other s4 = Inr s5" "clients s5 = clients s" "connections s5 = connections s" "contexts s5 = contexts s"
      "open_fds s5 = open_fds s" "receivers s5 = receivers s" by blast
  have conn: "isConnected x t = Inr (reaches env)" if "holds_client s x st ?fd new_context t" for x t
    using that st by (auto simp: holds_client_def isConnected_def connection_get_status_def simp del: ebind_Inr_iff)
  moreover have "isConnected other s3 = isConnected other s4"
    using assms(2) by (simp add: isConnected_def connection_get_status_def s4_def deref_def cong: if_cong)
  moreover have "connections s4 = connections s2" "contexts s4 = contexts s2" "open_fds s4 = open_fds s2"
    by (simp_all add: s4_def s3_def put_client_def)
  ultimately show ?thesis using 1(1) 2 3 4 5 h4 by metis
qed

theorem client_move_transfers_witness:
  "\<exists>s1 s2 s3. client_new 7 default_options (empty_process (full_net (\<lambda>_. []))) = Inr (Value (), s1) \<and>
     client_connect (fine_env 3) 7 s1 = Inr (True, s2) \<and> client_move 8 7 s2 = Inr s3 \<and>
     isConnected 8 s3 = Inr True \<and> isConnected 7 s3 = Inr False"
proof -
  let ?s = "empty_process (full_net (\<lambda>_. []))"
  from client_move_transfers [of 7 ?s 8 "fine_env 3" default_options] obtain s1 b s2 s3 where
    1: "client_new 7 default_options ?s = Inr (Value (), s1)" "client_connect (fine_env 3) 7 s1 = Inr (b, s2)"
    "client_move 8 7 s2 = Inr s3" "isConnected 8 s3 = Inr b" "isConnected 7 s3 = Inr False"
    by auto
  moreover have "b" using connected_run [of ?s] 1(1,2) by (auto simp: empty_process_def fresh_process_def sys_fine_def)
  ultimately show ?thesis by auto
qed

text \<open>
  A constructor that throws leaks: when the connection has been created and the
  allocation of the context fails, the exception leaves the constructor with the connection
  still allocated, and no client refers to it.
\<close>

theorem client_new_leaks_connection:
  assumes "sys_ok s (sys_calls s)" and "sys_ok s (sys_calls s + 1)" and "sys_ok s (sys_calls s + 2)"
    and "\<not> sys_ok s (sys_calls s + 3)" and "connections s (brk s) = None"
  shows "\<exists>s' con. client_new this options s = Inr (Throw ''std::bad_alloc'', s') \<and> clients s' = clients s \<and>
    contexts s' = contexts s \<and> connections s' = (connections s)(brk s \<mapsto> con) \<and> dom (connections s') \<noteq> dom (connections s)"
proof -
  define con where "con = \<lparr>socket_fd = -1, host = Some (cstr (opt_host options)), port = opt_port options,
    conn_status = CONNECTION_STATUS_DISCONNECTED, receiver_thread = False, conn_running = 0, on_connect = None,
    on_disconnect = None, on_message = None, callback_context = None\<rparr>"
  have "client_new this options s = Inr (Throw ''std::bad_alloc'', s\<lparr>sys_calls := Suc (Suc (Suc (Suc (sys_calls s)))),
      brk := Suc (brk s), connections := (connections s)(brk s \<mapsto> con)\<rparr>)"
    using assms(1-4) [unfolded numeral_3_eq_3 numeral_2_eq_2 One_nat_def add_Suc_right add_0_right]
    by (simp add: client_new_def connection_create_def sys_malloc_def strdup_def sys_try_def Let_def put_conn_def
        con_def del: ebind_Inr_iff)
  moreover have "dom ((connections s)(brk s \<mapsto> con)) \<noteq> dom (connections s)" using assms(5) by auto
  ultimately show ?thesis by auto
qed

theorem client_new_leaks_connection_witness:
  "\<exists>s'. client_new 7 default_options ((empty_process (full_net (\<lambda>_. [])))\<lparr>sys_ok := (\<lambda>n. n < 3)\<rparr>) = Inr (Throw ''std::bad_alloc'', s') \<and>
     dom (connections s') \<noteq> {}"
proof -
  let ?s = "(empty_process (full_net (\<lambda>_. [])))\<lparr>sys_ok := (\<lambda>n. n < 3)\<rparr>"
  have "sys_calls ?s = 0" "sys_ok ?s = (\<lambda>n. n < 3)" "dom (connections ?s) = {}"
    by (simp_all add: empty_process_def)
  with client_new_leaks_connection [of ?s 7 default_options] show ?thesis by auto
qed

subsection \<open>The example programs\<close>


lemma to_string_small: "n < 10 \<Longrightarrow> to_string n = [char_of (48 + n)]"
  by (simp add: to_string.simps [of n])




end
