(* ===== verification/Broker.thy ===== *)
theory Broker
  imports Queue Wire
begin

text \<open>
  The broker, \<open>src/core/broker.c\<close> and \<open>include/core/broker.h\<close>: its records, the module's
  static variables, and every function of the file.

  \<open>bmem\<close> extends the memory of the queues with the broker's own heap objects, the static
  arrays of the client connections and of the consumers, the sockets, the descriptors
  closed so far and the threads created and not yet joined. Everything done under the
  broker's mutex is one state transformer. The threads are given as the steps they repeat:
  \<open>broker_event_loop\<close> and \<open>client_handler_thread\<close> one pass through their loops,
  \<open>broker_network_thread\<close> its start, one accepted connection and its end. What the kernel
  answers to \<open>socket\<close>, \<open>bind\<close>, \<open>listen\<close> and \<open>accept\<close> is an argument of the step.
  Log calls read the objects they print and have no other effect here.
\<close>

subsection \<open>Data\<close>

datatype ExchangeType =
    EXCHANGE_TYPE_DIRECT
  | EXCHANGE_TYPE_FANOUT
  | EXCHANGE_TYPE_TOPIC

record Exchange =
  ex_name :: "string option"
  ex_type :: ExchangeType

record Binding =
  b_exchange :: addr
  b_queue :: addr
  b_routing_key :: "string option"

record Broker =
  br_queues :: "ptr list"
  br_exchanges :: "ptr list"
  br_bindings :: "ptr list"
  queue_count :: nat
  exchange_count :: nat
  binding_count :: nat
  br_running :: u8
  event_loop_thread :: bool

record ClientConnection =
  cc_fd :: int
  is_consumer :: bool
  cc_queue_name :: string
  cc_running :: bool
  cc_broker :: ptr

record ConsumerInfo =
  client_index :: nat
  ci_queue_name :: string

datatype thread =
    Event_Loop addr
  | Network addr
  | Handler nat

record bmem = qmem +
  exchange_heap :: "addr \<rightharpoonup> Exchange"
  binding_heap :: "addr \<rightharpoonup> Binding"
  brokers :: "addr \<rightharpoonup> Broker"
  client_connections :: "ClientConnection list"
  client_fds :: "int list"
  client_count :: nat
  consumers :: "ConsumerInfo list"
  consumer_count :: nat
  broker_listen_fd :: int
  net :: sockets
  closed_fds :: "int list"
  threads :: "thread list"

definition MAX_QUEUES :: nat where "MAX_QUEUES = 16"

definition MAX_EXCHANGES :: nat where "MAX_EXCHANGES = 8"

definition MAX_BINDINGS :: nat where "MAX_BINDINGS = 32"

definition MAX_CONNECTIONS :: nat where "MAX_CONNECTIONS = 100"

text \<open>The static variables before the program has run.\<close>

definition zero_connection :: ClientConnection where
  "zero_connection = \<lparr>cc_fd = 0, is_consumer = False, cc_queue_name = [], cc_running = False, cc_broker = None\<rparr>"

definition zero_consumer :: ConsumerInfo where
  "zero_consumer = \<lparr>client_index = 0, ci_queue_name = []\<rparr>"

definition put_broker :: "addr \<Rightarrow> Broker \<Rightarrow> 'z bmem_scheme \<Rightarrow> 'z bmem_scheme" where
  "put_broker a b s = s\<lparr>brokers := (brokers s)(a \<mapsto> b)\<rparr>"

subsection \<open>Creation, start, stop and destruction\<close>

definition broker_create :: "'z bmem_scheme \<Rightarrow> fault + ptr \<times> 'z bmem_scheme" where
  "broker_create s =
     (let (ok, s) = sys_malloc 536 s in
      if \<not> ok then Inr (None, s)
      else
        let b = \<lparr>br_queues = replicate MAX_QUEUES None, br_exchanges = replicate MAX_EXCHANGES None,
              br_bindings = replicate MAX_BINDINGS None, queue_count = 0, exchange_count = 0,
              binding_count = 0, br_running = 0, event_loop_thread = False\<rparr>;
            (ok, s) = sys_try s in
        if \<not> ok then Inr (None, s)
        else Inr (Some (brk s), put_broker (brk s) b (s\<lparr>brk := Suc (brk s)\<rparr>)))"

text \<open>\<open>pthread_join\<close> on a thread variable that was never assigned is undefined.\<close>

definition broker_stop :: "ptr \<Rightarrow> 'z bmem_scheme \<Rightarrow> fault + bool \<times> 'z bmem_scheme" where
  "broker_stop broker s =
     (case broker of
        None \<Rightarrow> Inr (False, s)
      | Some ba \<Rightarrow>
          ebind (deref (brokers s) broker) (\<lambda>b.
          if br_running b = 0 then Inr (True, s)
          else if \<not> event_loop_thread b then Inl (UninitRead ba)
          else
            Inr (True, (put_broker ba (b\<lparr>br_running := 0\<rparr>) s)
              \<lparr>threads := remove1 (Event_Loop ba) (threads s)\<rparr>)))"

definition broker_start :: "ptr \<Rightarrow> 'z bmem_scheme \<Rightarrow> fault + bool \<times> 'z bmem_scheme" where
  "broker_start broker s =
     (case broker of
        None \<Rightarrow> Inr (False, s)
      | Some ba \<Rightarrow>
          ebind (deref (brokers s) broker) (\<lambda>b.
          if br_running b \<noteq> 0 then Inr (True, s)
          else
            let s = put_broker ba (b\<lparr>br_running := 1\<rparr>) s;
                (ok, s) = sys_try s in
            if \<not> ok then Inr (False, put_broker ba (b\<lparr>br_running := 0\<rparr>) s)
            else
              let s = s\<lparr>threads := threads s @ [Network ba]\<rparr>;
                  (ok, s) = sys_try s in
              if \<not> ok then Inr (False, put_broker ba (b\<lparr>br_running := 0\<rparr>) s)
              else
                Inr (True, (put_broker ba (b\<lparr>br_running := 1, event_loop_thread := True\<rparr>) s)
                  \<lparr>threads := threads s @ [Event_Loop ba]\<rparr>)))"

definition free_queue_at :: "Broker \<Rightarrow> nat \<Rightarrow> 'z bmem_scheme \<Rightarrow> fault + 'z bmem_scheme" where
  "free_queue_at b i s = ebind (arr_get (br_queues b) i) (\<lambda>p. queue_free p s)"

definition free_exchange_at :: "Broker \<Rightarrow> nat \<Rightarrow> 'z bmem_scheme \<Rightarrow> fault + 'z bmem_scheme" where
  "free_exchange_at b i s =
     ebind (arr_get (br_exchanges b) i) (\<lambda>p.
     ebind (deref (exchange_heap s) p) (\<lambda>e.
     Inr (s\<lparr>exchange_heap := (exchange_heap s)(the p := None)\<rparr>)))"

definition free_binding_at :: "Broker \<Rightarrow> nat \<Rightarrow> 'z bmem_scheme \<Rightarrow> fault + 'z bmem_scheme" where
  "free_binding_at b i s =
     ebind (arr_get (br_bindings b) i) (\<lambda>p.
     ebind (deref (binding_heap s) p) (\<lambda>e.
     Inr (s\<lparr>binding_heap := (binding_heap s)(the p := None)\<rparr>)))"

definition broker_free :: "ptr \<Rightarrow> 'z bmem_scheme \<Rightarrow> fault + 'z bmem_scheme" where
  "broker_free broker s =
     (case broker of
        None \<Rightarrow> Inr s
      | Some ba \<Rightarrow>
          ebind (deref (brokers s) broker) (\<lambda>b.
          ebind (if br_running b \<noteq> 0 then broker_stop broker s else Inr (True, s)) (\<lambda>(r, s).
          ebind (for_loop (free_queue_at b) [0..<queue_count b] s) (\<lambda>s.
          ebind (for_loop (free_exchange_at b) [0..<exchange_count b] s) (\<lambda>s.
          ebind (for_loop (free_binding_at b) [0..<binding_count b] s) (\<lambda>s.
          Inr (s\<lparr>brokers := (brokers s)(ba := None)\<rparr>)))))))"

subsection \<open>Queues, exchanges and bindings\<close>

text \<open>The searches of the functions that follow: a name among the first entries of an array.\<close>

definition find_named :: "(ptr \<Rightarrow> fault + string option) \<Rightarrow> ptr list \<Rightarrow> nat \<Rightarrow> string \<Rightarrow> fault + ptr" where
  "find_named name_at arr count name =
     for_find (\<lambda>i.
       ebind (arr_get arr i) (\<lambda>p.
       ebind (name_at p) (\<lambda>n.
       ebind (str_eq n (Some name)) (\<lambda>eq.
       Inr (if eq then p else None))))) [0..<count]"

definition queue_name_at :: "'z bmem_scheme \<Rightarrow> ptr \<Rightarrow> fault + string option" where
  "queue_name_at s p = ebind (deref (queues s) p) (\<lambda>q. Inr (q_name q))"

definition exchange_name_at :: "'z bmem_scheme \<Rightarrow> ptr \<Rightarrow> fault + string option" where
  "exchange_name_at s p = ebind (deref (exchange_heap s) p) (\<lambda>e. Inr (ex_name e))"

definition broker_create_queue ::
    "ptr \<Rightarrow> byte list option \<Rightarrow> nat \<Rightarrow> 'z bmem_scheme \<Rightarrow> fault + ptr \<times> 'z bmem_scheme" where
  "broker_create_queue broker name cap s =
     (case (broker, name) of
        (Some ba, Some nm) \<Rightarrow>
          ebind (deref (brokers s) broker) (\<lambda>b.
          ebind (find_named (queue_name_at s) (br_queues b) (queue_count b) (cstr nm)) (\<lambda>existing.
          if existing \<noteq> None then Inr (existing, s)
          else if queue_count b \<ge> MAX_QUEUES then Inr (None, s)
          else
            ebind (queue_create (Some nm) cap s) (\<lambda>(queue, s).
            if queue = None then Inr (None, s)
            else
              ebind (arr_put (br_queues b) (queue_count b) queue) (\<lambda>arr.
              Inr (queue, put_broker ba (b\<lparr>br_queues := arr, queue_count := queue_count b + 1\<rparr>) s)))))
      | _ \<Rightarrow> Inr (None, s))"

definition broker_get_queue :: "ptr \<Rightarrow> byte list option \<Rightarrow> 'z bmem_scheme \<Rightarrow> fault + ptr" where
  "broker_get_queue broker name s =
     (case (broker, name) of
        (Some ba, Some nm) \<Rightarrow>
          ebind (deref (brokers s) broker) (\<lambda>b.
          find_named (queue_name_at s) (br_queues b) (queue_count b) (cstr nm))
      | _ \<Rightarrow> Inr None)"

definition broker_create_exchange ::
    "ptr \<Rightarrow> byte list option \<Rightarrow> ExchangeType \<Rightarrow> 'z bmem_scheme \<Rightarrow> fault + ptr \<times> 'z bmem_scheme" where
  "broker_create_exchange broker name type s =
     (case (broker, name) of
        (Some ba, Some nm) \<Rightarrow>
          ebind (deref (brokers s) broker) (\<lambda>b.
          ebind (find_named (exchange_name_at s) (br_exchanges b) (exchange_count b) (cstr nm)) (\<lambda>existing.
          if existing \<noteq> None then Inr (existing, s)
          else if exchange_count b \<ge> MAX_EXCHANGES then Inr (None, s)
          else
            let (ok, s) = sys_malloc 16 s in
            if \<not> ok then Inr (None, s)
            else
              let (nm_dup, s) = strdup nm s;
                  ea = brk s;
                  s = s\<lparr>exchange_heap := (exchange_heap s)(ea \<mapsto> \<lparr>ex_name = nm_dup, ex_type = type\<rparr>),
                        brk := Suc ea\<rparr> in
              ebind (arr_put (br_exchanges b) (exchange_count b) (Some ea)) (\<lambda>arr.
              Inr (Some ea,
                put_broker ba (b\<lparr>br_exchanges := arr, exchange_count := exchange_count b + 1\<rparr>) s))))
      | _ \<Rightarrow> Inr (None, s))"

definition broker_get_exchange :: "ptr \<Rightarrow> byte list option \<Rightarrow> 'z bmem_scheme \<Rightarrow> fault + ptr" where
  "broker_get_exchange broker name s =
     (case (broker, name) of
        (Some ba, Some nm) \<Rightarrow>
          ebind (deref (brokers s) broker) (\<lambda>b.
          find_named (exchange_name_at s) (br_exchanges b) (exchange_count b) (cstr nm))
      | _ \<Rightarrow> Inr None)"

text \<open>The success is logged with the names of the queue and of the exchange.\<close>

definition broker_bind_queue ::
    "ptr \<Rightarrow> ptr \<Rightarrow> ptr \<Rightarrow> byte list option \<Rightarrow> 'z bmem_scheme \<Rightarrow> fault + bool \<times> 'z bmem_scheme" where
  "broker_bind_queue broker exch queue routing_key_arg s =
     (case (broker, exch, queue) of
        (Some ba, Some ea, Some qa) \<Rightarrow>
          ebind (deref (brokers s) broker) (\<lambda>b.
          if binding_count b \<ge> MAX_BINDINGS then Inr (False, s)
          else
            let (ok, s) = sys_malloc 24 s in
            if \<not> ok then Inr (False, s)
            else
              let (rk, s) = (case routing_key_arg of None \<Rightarrow> (None, s) | Some key \<Rightarrow> strdup key s);
                  a = brk s;
                  s = s\<lparr>binding_heap := (binding_heap s)(a \<mapsto>
                          \<lparr>b_exchange = ea, b_queue = qa, b_routing_key = rk\<rparr>), brk := Suc a\<rparr> in
              ebind (arr_put (br_bindings b) (binding_count b) (Some a)) (\<lambda>arr.
              let s = put_broker ba (b\<lparr>br_bindings := arr, binding_count := binding_count b + 1\<rparr>) s in
              ebind (queue_name_at s queue) (\<lambda>_.
              ebind (exchange_name_at s exch) (\<lambda>_.
              Inr (True, s)))))
      | _ \<Rightarrow> Inr (False, s))"

subsection \<open>Consumers\<close>

text \<open>The loop body of \<open>forward_message_to_consumers\<close>; its state is the sockets and \<open>forwarded\<close>.\<close>

definition forward_to ::
    "string \<Rightarrow> addr \<Rightarrow> 'z bmem_scheme \<Rightarrow> nat \<Rightarrow> sockets \<times> nat \<Rightarrow> fault + sockets \<times> nat" where
  "forward_to queue_name message s i st =
     (case st of (n, forwarded) \<Rightarrow>
        ebind (arr_get (consumers s) i) (\<lambda>c.
        if ci_queue_name c = queue_name
        then
          ebind (arr_get (client_connections s) (client_index c)) (\<lambda>conn.
          if cc_fd conn \<noteq> -1 \<and> cc_running conn
          then
            ebind (send_message_data (cc_fd conn) (Some message) s n) (\<lambda>(ok, n).
            Inr (n, if ok then Suc forwarded else forwarded))
          else Inr (n, forwarded))
        else Inr (n, forwarded)))"

definition forward_message_to_consumers ::
    "string option \<Rightarrow> ptr \<Rightarrow> 'z bmem_scheme \<Rightarrow> fault + 'z bmem_scheme" where
  "forward_message_to_consumers queue_name message s =
     (case (queue_name, message) of
        (Some nm, Some m) \<Rightarrow>
          ebind (for_loop (forward_to nm m s) [0..<consumer_count s] (net s, 0)) (\<lambda>(n, forwarded).
          Inr (s\<lparr>net := n\<rparr>))
      | _ \<Rightarrow> Inr s)"

definition register_consumer :: "int \<Rightarrow> byte list option \<Rightarrow> 'z bmem_scheme \<Rightarrow> fault + bool \<times> 'z bmem_scheme" where
  "register_consumer index queue_name s =
     (if index < 0 \<or> index \<ge> int MAX_CONNECTIONS \<or> queue_name = None then Inr (False, s)
      else if consumer_count s \<ge> MAX_CONNECTIONS then Inr (False, s)
      else
        let nm = strncpy_z 64 (the queue_name); i = nat index in
        ebind (arr_put (consumers s) (consumer_count s) \<lparr>client_index = i, ci_queue_name = nm\<rparr>) (\<lambda>cs.
        ebind (arr_get (client_connections s) i) (\<lambda>conn.
        ebind (arr_put (client_connections s) i (conn\<lparr>is_consumer := True, cc_queue_name := nm\<rparr>)) (\<lambda>conns.
        Inr (True, s\<lparr>consumers := cs, consumer_count := consumer_count s + 1,
                     client_connections := conns\<rparr>)))))"

subsection \<open>Routing and publishing\<close>

definition match_topic :: "string \<Rightarrow> string option \<Rightarrow> fault + bool" where
  "match_topic pattern topic =
     (if pattern = ''#'' then Inr True
      else if pattern = ''*''
      then (case topic of None \<Rightarrow> Inl NullDeref | Some t \<Rightarrow> Inr (CHR ''.'' \<notin> set t))
      else str_eq (Some pattern) topic)"

text \<open>The conditions of the three loops of \<open>broker_route_message\<close>.\<close>

definition binding_selected :: "ExchangeType \<Rightarrow> addr \<Rightarrow> string option \<Rightarrow> Binding \<Rightarrow> fault + bool" where
  "binding_selected type exch key b =
     (if b_exchange b \<noteq> exch then Inr False
      else
        (case type of
           EXCHANGE_TYPE_FANOUT \<Rightarrow> Inr True
         | EXCHANGE_TYPE_DIRECT \<Rightarrow>
             (case b_routing_key b of None \<Rightarrow> Inr False | Some k \<Rightarrow> str_eq (Some k) key)
         | EXCHANGE_TYPE_TOPIC \<Rightarrow>
             (case b_routing_key b of None \<Rightarrow> Inr False | Some k \<Rightarrow> match_topic k key)))"

text \<open>The body the three loops share; the loop state is the memory and \<open>routed\<close>.\<close>

definition route_to_queue ::
    "addr \<Rightarrow> addr \<Rightarrow> 'z bmem_scheme \<times> nat \<Rightarrow> fault + 'z bmem_scheme \<times> nat" where
  "route_to_queue queue message st =
     (case st of (s, routed) \<Rightarrow>
        ebind (message_clone (Some message) s) (\<lambda>(msg_clone, s).
        if msg_clone = None then Inr (s, routed)
        else
          ebind (queue_try_enqueue (Some queue) msg_clone s) (\<lambda>(enqueued, s).
          if enqueued
          then
            ebind (queue_name_at s (Some queue)) (\<lambda>nm.
            ebind (forward_message_to_consumers nm msg_clone s) (\<lambda>s.
            Inr (s, Suc routed)))
          else
            ebind (message_free msg_clone s) (\<lambda>s.
            ebind (queue_name_at s (Some queue)) (\<lambda>nm.
            Inr (s, routed))))))"

definition route_body ::
    "Broker \<Rightarrow> ExchangeType \<Rightarrow> addr \<Rightarrow> addr \<Rightarrow> nat \<Rightarrow> 'z bmem_scheme \<times> nat \<Rightarrow> fault + 'z bmem_scheme \<times> nat" where
  "route_body b type exch message i st =
     (case st of (s, routed) \<Rightarrow>
        ebind (arr_get (br_bindings b) i) (\<lambda>p.
        ebind (deref (binding_heap s) p) (\<lambda>binding.
        ebind (deref (msgs s) (Some message)) (\<lambda>m.
        ebind (binding_selected type exch (routing_key m) binding) (\<lambda>selected.
        if selected then route_to_queue (b_queue binding) message (s, routed)
        else Inr (s, routed))))))"

definition broker_route_message ::
    "addr \<Rightarrow> addr \<Rightarrow> addr \<Rightarrow> 'z bmem_scheme \<Rightarrow> fault + nat \<times> 'z bmem_scheme" where
  "broker_route_message broker exch message s =
     ebind (deref (brokers s) (Some broker)) (\<lambda>b.
     ebind (deref (exchange_heap s) (Some exch)) (\<lambda>e.
     ebind (for_loop (route_body b (ex_type e) exch message) [0..<binding_count b] (s, 0)) (\<lambda>(s, routed).
     if routed = 0 then ebind (message_free (Some message) s) (\<lambda>s. Inr (routed, s))
     else if routed = 1 then Inr (routed, s)
     else ebind (message_free (Some message) s) (\<lambda>s. Inr (routed, s)))))"

text \<open>The debug line reads the exchange's name and the message's routing key.\<close>

definition broker_publish :: "ptr \<Rightarrow> ptr \<Rightarrow> ptr \<Rightarrow> 'z bmem_scheme \<Rightarrow> fault + bool \<times> 'z bmem_scheme" where
  "broker_publish broker exch message s =
     (case (broker, exch, message) of
        (Some ba, Some ea, Some ma) \<Rightarrow>
          ebind (message_clone message s) (\<lambda>(msg_clone, s).
          case msg_clone of
            None \<Rightarrow> Inr (False, s)
          | Some c \<Rightarrow>
              ebind (exchange_name_at s exch) (\<lambda>_.
              ebind (deref (msgs s) message) (\<lambda>_.
              ebind (broker_route_message ba ea c s) (\<lambda>(routed, s).
              if routed = 0 then ebind (message_free (Some c) s) (\<lambda>s. Inr (False, s))
              else Inr (True, s)))))
      | _ \<Rightarrow> Inr (False, s))"

subsection \<open>The threads\<close>

text \<open>
  One pass of the event loop, from one check of \<open>running\<close> to the next; \<open>None\<close> when the
  thread ends, otherwise the new \<open>last_timeout_check\<close>.
\<close>

definition ACK_TIMEOUT_SECONDS :: int where "ACK_TIMEOUT_SECONDS = 30"

definition timeouts_at :: "Broker \<Rightarrow> nat \<Rightarrow> 'z bmem_scheme \<Rightarrow> fault + 'z bmem_scheme" where
  "timeouts_at b i s =
     ebind (arr_get (br_queues b) i) (\<lambda>p. queue_process_timeouts p ACK_TIMEOUT_SECONDS s)"

definition broker_event_loop :: "addr \<Rightarrow> int \<Rightarrow> 'z bmem_scheme \<Rightarrow> fault + int option \<times> 'z bmem_scheme" where
  "broker_event_loop broker last_timeout_check s =
     ebind (deref (brokers s) (Some broker)) (\<lambda>b.
     if br_running b = 0 then Inr (None, s)
     else if clock s - last_timeout_check \<ge> 5
     then
       ebind (for_loop (timeouts_at b) [0..<queue_count b] s) (\<lambda>s.
       Inr (Some (clock s), s))
     else Inr (Some last_timeout_check, s))"

text \<open>
  One pass of a client's handler; \<open>False\<close> when the thread ends. A registration is a message
  to the exchange \<open>consumer\<close> with routing key \<open>register\<close> and the queue's name as its body,
  which is copied into a buffer of 64 bytes.
\<close>

definition registered_name :: "byte list \<Rightarrow> nat \<Rightarrow> byte list" where
  "registered_name bytes n = take (if n < 63 then n else 63) bytes"

definition client_handler_thread :: "nat \<Rightarrow> 'z bmem_scheme \<Rightarrow> fault + bool \<times> 'z bmem_scheme" where
  "client_handler_thread index s =
     ebind (arr_get (client_connections s) index) (\<lambda>conn.
     if \<not> cc_running conn then Inr (False, s)
     else
       ebind (receive_message_data (cc_fd conn) s (net s)) (\<lambda>(message, s, n).
       let s = s\<lparr>net := n\<rparr> in
       if message = None then Inr (False, s)
       else
         ebind (deref (msgs s) message) (\<lambda>m.
         ebind (str_eq (exchange m) (Some ''consumer'')) (\<lambda>to_consumer.
         ebind (if to_consumer then str_eq (routing_key m) (Some ''register'') else Inr False) (\<lambda>register.
         if register \<and> body m \<noteq> None \<and> body_size m > 0
         then
           ebind (register_consumer (int index)
             (Some (registered_name (the (body m)) (body_size m))) s) (\<lambda>(ok, s).
           ebind (message_free message s) (\<lambda>s. Inr (True, s)))
         else if \<not> is_consumer conn
         then
           ebind (broker_get_exchange (cc_broker conn) (exchange m) s) (\<lambda>exch.
           if exch = None then ebind (message_free message s) (\<lambda>s. Inr (True, s))
           else
             ebind (broker_publish (cc_broker conn) exch message s) (\<lambda>(ok, s).
             ebind (deref (msgs s) message) (\<lambda>_.
             Inr (True, s))))
         else ebind (message_free message s) (\<lambda>s. Inr (True, s)))))))"

text \<open>The start of the network thread; \<open>False\<close> when it gives up.\<close>

definition close_fd :: "int \<Rightarrow> 'z bmem_scheme \<Rightarrow> 'z bmem_scheme" where
  "close_fd fd s = s\<lparr>closed_fds := closed_fds s @ [fd]\<rparr>"

definition network_start :: "int \<Rightarrow> bool \<Rightarrow> bool \<Rightarrow> 'z bmem_scheme \<Rightarrow> bool \<times> 'z bmem_scheme" where
  "network_start fd bind_ok listen_ok s =
     (let s = s\<lparr>broker_listen_fd := fd\<rparr> in
      if fd < 0 then (False, s)
      else if \<not> bind_ok then (False, (close_fd fd s)\<lparr>broker_listen_fd := -1\<rparr>)
      else if \<not> listen_ok then (False, (close_fd fd s)\<lparr>broker_listen_fd := -1\<rparr>)
      else
        (True, s\<lparr>client_fds := replicate MAX_CONNECTIONS (-1),
                 client_connections := map (\<lambda>c. c\<lparr>cc_fd := -1, cc_running := False\<rparr>) (client_connections s),
                 client_count := 0\<rparr>))"

text \<open>The search for a free slot.\<close>

definition free_slot :: "'z bmem_scheme \<Rightarrow> fault + nat option" where
  "free_slot s =
     for_find (\<lambda>i. ebind (arr_get (client_connections s) i) (\<lambda>c.
       Inr (if cc_fd c = -1 then Some i else None))) [0..<MAX_CONNECTIONS]"

text \<open>
  One pass of the accept loop; \<open>client_fd\<close> is what \<open>accept\<close> returned. \<open>False\<close> when the loop
  ends.
\<close>

definition network_accept :: "addr \<Rightarrow> int \<Rightarrow> 'z bmem_scheme \<Rightarrow> fault + bool \<times> 'z bmem_scheme" where
  "network_accept broker client_fd s =
     ebind (deref (brokers s) (Some broker)) (\<lambda>b.
     if br_running b = 0 then Inr (False, s)
     else if client_fd < 0 then Inr (True, s)
     else if client_count s < MAX_CONNECTIONS
     then
       ebind (free_slot s) (\<lambda>slot.
       case slot of
         None \<Rightarrow> Inr (True, s)
       | Some i \<Rightarrow>
           let conn = \<lparr>cc_fd = client_fd, is_consumer = False, cc_queue_name = [],
                        cc_running = True, cc_broker = Some broker\<rparr>;
               (ok, s) = sys_try s in
           if \<not> ok
           then
             ebind (arr_put (client_connections s) i (conn\<lparr>cc_fd := -1, cc_running := False\<rparr>)) (\<lambda>conns.
             Inr (True, (close_fd client_fd s)\<lparr>client_connections := conns\<rparr>))
           else
             ebind (arr_put (client_connections s) i conn) (\<lambda>conns.
             ebind (arr_put (client_fds s) i client_fd) (\<lambda>fds.
             Inr (True, s\<lparr>client_connections := conns, client_fds := fds,
                          client_count := client_count s + 1,
                          threads := threads s @ [Handler i]\<rparr>))))
     else Inr (True, close_fd client_fd s))"

text \<open>
  The end of the network thread: every open slot's handler is stopped and joined (its exit
  is awaited) and its descriptor closed.
\<close>

definition close_slot :: "nat \<Rightarrow> 'z bmem_scheme \<Rightarrow> fault + 'z bmem_scheme" where
  "close_slot i s =
     ebind (arr_get (client_connections s) i) (\<lambda>conn.
     if cc_fd conn \<noteq> -1
     then
       ebind (arr_put (client_connections s) i (conn\<lparr>cc_fd := -1, cc_running := False\<rparr>)) (\<lambda>conns.
       ebind (arr_put (client_fds s) i (-1)) (\<lambda>fds.
       Inr ((close_fd (cc_fd conn) s)\<lparr>client_connections := conns, client_fds := fds,
              threads := remove1 (Handler i) (threads s)\<rparr>)))
     else Inr s)"

definition network_stop :: "'z bmem_scheme \<Rightarrow> fault + 'z bmem_scheme" where
  "network_stop s =
     ebind (for_loop close_slot [0..<MAX_CONNECTIONS] s) (\<lambda>s.
     Inr ((close_fd (broker_listen_fd s) s)\<lparr>client_count := 0, broker_listen_fd := -1\<rparr>))"

end
