(* ===== verification/Broker_Routing.thy ===== *)
theory Broker_Routing
  imports Broker Queue_Safety
begin

text \<open>
  Routing in \<open>src/core/broker.c\<close>: the invariant of the broker's memory, what
  \<open>broker_route_message\<close> does to the contents of the queues as a function on lists of
  messages, and the proof that the loops over the bindings implement it without a fault and
  without leaving a clone unowned.
\<close>

subsection \<open>The memory of the broker\<close>

text \<open>Every queue is well formed and owns its messages alone.\<close>

definition queues_ok :: "'z qmem_scheme \<Rightarrow> bool" where
  "queues_ok s \<longleftrightarrow>
     heap_ok s \<and> (\<forall>qa q. queues s qa = Some q \<longrightarrow> queue_at qa s q) \<and>
     (\<forall>qa qb q r. qa \<noteq> qb \<longrightarrow> queues s qa = Some q \<longrightarrow> queues s qb = Some r \<longrightarrow>
        set (held q) \<inter> set (held r) = {})"

text \<open>The messages no queue owns.\<close>

definition all_held :: "'z qmem_scheme \<Rightarrow> addr set" where
  "all_held s = (\<Union>q\<in>ran (queues s). set (held q))"

definition unowned :: "'z qmem_scheme \<Rightarrow> addr set" where
  "unowned s = dom (msgs s) - all_held s"

text \<open>What a queue holds ready, as messages rather than addresses, and how many it can hold.\<close>

definition contents :: "'z qmem_scheme \<Rightarrow> addr \<Rightarrow> Message list" where
  "contents s qa = (case queues s qa of None \<Rightarrow> [] | Some q \<Rightarrow> map (\<lambda>a. the (msgs s a)) (ring_list q))"

definition room_of :: "'z qmem_scheme \<Rightarrow> addr \<Rightarrow> nat" where
  "room_of s qa = (case queues s qa of None \<Rightarrow> 0 | Some q \<Rightarrow> capacity q)"

definition consumers_ok :: "'z bmem_scheme \<Rightarrow> bool" where
  "consumers_ok s \<longleftrightarrow>
     length (consumers s) = MAX_CONNECTIONS \<and> length (client_connections s) = MAX_CONNECTIONS \<and>
     consumer_count s \<le> MAX_CONNECTIONS \<and>
     (\<forall>i<consumer_count s. client_index (consumers s ! i) < MAX_CONNECTIONS)"

text \<open>A pointer of an array leads to a named object of a heap.\<close>

definition points_named :: "(addr \<rightharpoonup> 'a) \<Rightarrow> ('a \<Rightarrow> string option) \<Rightarrow> ptr \<Rightarrow> bool" where
  "points_named h name p \<longleftrightarrow> (\<exists>a x. p = Some a \<and> h a = Some x \<and> name x \<noteq> None)"

definition binding_ok :: "'z bmem_scheme \<Rightarrow> ptr \<Rightarrow> bool" where
  "binding_ok s p \<longleftrightarrow>
     (\<exists>a bd. p = Some a \<and> binding_heap s a = Some bd \<and>
        points_named (exchange_heap s) ex_name (Some (b_exchange bd)) \<and>
        points_named (queues s) q_name (Some (b_queue bd)))"

definition broker_at :: "addr \<Rightarrow> 'z bmem_scheme \<Rightarrow> Broker \<Rightarrow> bool" where
  "broker_at ba s b \<longleftrightarrow>
     brokers s ba = Some b \<and>
     length (br_queues b) = MAX_QUEUES \<and> queue_count b \<le> MAX_QUEUES \<and>
     length (br_exchanges b) = MAX_EXCHANGES \<and> exchange_count b \<le> MAX_EXCHANGES \<and>
     length (br_bindings b) = MAX_BINDINGS \<and> binding_count b \<le> MAX_BINDINGS \<and>
     list_all (points_named (queues s) q_name) (take (queue_count b) (br_queues b)) \<and>
     list_all (points_named (exchange_heap s) ex_name) (take (exchange_count b) (br_exchanges b)) \<and>
     list_all (binding_ok s) (take (binding_count b) (br_bindings b)) \<and>
     distinct (take (queue_count b) (br_queues b)) \<and> distinct (take (exchange_count b) (br_exchanges b)) \<and>
     distinct (take (binding_count b) (br_bindings b))"

definition bindings_of :: "'z bmem_scheme \<Rightarrow> Broker \<Rightarrow> Binding list" where
  "bindings_of s b = map (\<lambda>p. the (binding_heap s (the p))) (take (binding_count b) (br_bindings b))"

subsection \<open>The specification of routing\<close>

definition topic_matches :: "string \<Rightarrow> string \<Rightarrow> bool" where
  "topic_matches pattern topic \<longleftrightarrow>
     pattern = ''#'' \<or> pattern = ''*'' \<and> CHR ''.'' \<notin> set topic \<or> pattern = topic"

definition selects :: "ExchangeType \<Rightarrow> addr \<Rightarrow> string \<Rightarrow> Binding \<Rightarrow> bool" where
  "selects type ea key bd \<longleftrightarrow>
     b_exchange bd = ea \<and>
     (case type of
        EXCHANGE_TYPE_FANOUT \<Rightarrow> True
      | EXCHANGE_TYPE_DIRECT \<Rightarrow> b_routing_key bd = Some key
      | EXCHANGE_TYPE_TOPIC \<Rightarrow>
          (case b_routing_key bd of None \<Rightarrow> False | Some pattern \<Rightarrow> topic_matches pattern key))"

definition spec_deliver ::
    "(addr \<Rightarrow> nat) \<Rightarrow> Message \<Rightarrow> nat \<times> (addr \<Rightarrow> Message list) \<Rightarrow> addr \<Rightarrow> nat \<times> (addr \<Rightarrow> Message list)" where
  "spec_deliver room m rc qa =
     (case rc of (r, c) \<Rightarrow>
        if length (c qa) < room qa then (Suc r, c(qa := c qa @ [m])) else (r, c))"

definition spec_route ::
    "(addr \<Rightarrow> nat) \<Rightarrow> Message \<Rightarrow> addr list \<Rightarrow> (addr \<Rightarrow> Message list) \<Rightarrow> nat \<times> (addr \<Rightarrow> Message list)" where
  "spec_route room m qs c = foldl (spec_deliver room m) (0, c) qs"

text \<open>The queues a message to an exchange goes to, in the order of their bindings.\<close>

definition targets :: "'z bmem_scheme \<Rightarrow> Broker \<Rightarrow> addr \<Rightarrow> string \<Rightarrow> addr list" where
  "targets s b ea key =
     map b_queue (filter (selects (ex_type (the (exchange_heap s ea))) ea key) (bindings_of s b))"

lemma spec_route_snoc:
  "spec_route room m (qs @ [qa]) c = spec_deliver room m (spec_route room m qs c) qa"
  by (simp add: spec_route_def)

lemma binding_selected_eq:
  "binding_selected type ea (Some key) bd = Inr (selects type ea key bd)"
  by (auto simp: binding_selected_def selects_def match_topic_def topic_matches_def str_eq_def
      split: ExchangeType.splits option.splits)

text \<open>Closed forms: nothing fits, or distinct queues with room.\<close>

lemma spec_route_full:
  "\<forall>qa\<in>set qs. room qa \<le> length (c qa) \<Longrightarrow> spec_route room m qs c = (0, c)"
  by (induction qs rule: rev_induct) (auto simp: spec_route_snoc spec_deliver_def, simp add: spec_route_def)

lemma spec_route_distinct:
  "distinct qs \<Longrightarrow> \<forall>qa\<in>set qs. length (c qa) < room qa \<Longrightarrow>
   spec_route room m qs c = (length qs, \<lambda>qa. if qa \<in> set qs then c qa @ [m] else c qa)"
  by (induction qs rule: rev_induct) (auto simp: spec_route_snoc spec_deliver_def, simp add: spec_route_def)

subsection \<open>Frames\<close>

definition queue_key :: "Queue \<Rightarrow> string option \<times> nat \<times> DeliveryInfo list" where
  "queue_key q = (q_name q, capacity q, unacked_list q)"

text \<open>What routing leaves alone: everything but the queues' contents, new messages and the sockets.\<close>

definition routing_frame :: "'z bmem_scheme \<Rightarrow> 'z bmem_scheme \<Rightarrow> bool" where
  "routing_frame s s' \<longleftrightarrow>
     sys_ok s' = sys_ok s \<and> brokers s' = brokers s \<and> exchange_heap s' = exchange_heap s \<and>
     binding_heap s' = binding_heap s \<and> client_connections s' = client_connections s \<and>
     consumers s' = consumers s \<and> consumer_count s' = consumer_count s \<and> clock s' = clock s \<and>
     (\<forall>a m. msgs s a = Some m \<longrightarrow> msgs s' a = Some m) \<and>
     (\<forall>qa. map_option queue_key (queues s' qa) = map_option queue_key (queues s qa))"

lemma routing_frame_refl [simp]: "routing_frame s s"
  by (simp add: routing_frame_def)

lemma routing_frame_trans: "routing_frame s t \<Longrightarrow> routing_frame t u \<Longrightarrow> routing_frame s u"
  unfolding routing_frame_def by presburger

lemma frame_queue:
  assumes "routing_frame s s'" and "queues s qa = Some q"
  obtains q' where "queues s' qa = Some q'" and "queue_key q' = queue_key q"
proof -
  have "map_option queue_key (queues s' qa) = Some (queue_key q)"
    using assms unfolding routing_frame_def by (metis option.simps(9))
  then show ?thesis using that by (cases "queues s' qa") simp_all
qed

lemma frame_points:
  assumes "routing_frame s s'"
  shows "points_named (queues s) q_name p \<Longrightarrow> points_named (queues s') q_name p"
proof -
  assume "points_named (queues s) q_name p"
  then obtain a q where p: "p = Some a" "queues s a = Some q" "q_name q \<noteq> None"
    by (auto simp: points_named_def)
  from frame_queue [OF assms p(2)] obtain q' where "queues s' a = Some q'" "queue_key q' = queue_key q" .
  with p show ?thesis by (auto simp: points_named_def queue_key_def)
qed

lemma frame_broker_at:
  assumes f: "routing_frame s s'" and at: "broker_at ba s b"
  shows "broker_at ba s' b"
proof -
  have h: "brokers s' = brokers s" "exchange_heap s' = exchange_heap s" "binding_heap s' = binding_heap s"
    using f by (simp_all add: routing_frame_def)
  have "binding_ok s p \<Longrightarrow> binding_ok s' p" for p
    using frame_points [OF f] by (auto simp: binding_ok_def h)
  with frame_points [OF f] show ?thesis
    using at unfolding broker_at_def h by (auto simp: list_all_iff)
qed

text \<open>The same without the messages: what publishing, which may free its clone, leaves alone.\<close>

definition routing_kept :: "'z bmem_scheme \<Rightarrow> 'z bmem_scheme \<Rightarrow> bool" where
  "routing_kept s s' \<longleftrightarrow> routing_frame s (s'\<lparr>msgs := msgs s\<rparr>)"

lemma frame_kept: "routing_frame s s' \<Longrightarrow> routing_kept s s'"
  by (simp add: routing_kept_def routing_frame_def)

lemma routing_kept_trans: "routing_kept s t \<Longrightarrow> routing_kept t u \<Longrightarrow> routing_kept s u"
  by (simp add: routing_kept_def routing_frame_def)

lemma routing_kept_msgs [simp]: "routing_kept s (s'\<lparr>msgs := h\<rparr>) = routing_kept s s'"
  by (simp add: routing_kept_def)

lemma kept_broker_at: "routing_kept s s' \<Longrightarrow> broker_at ba s b \<Longrightarrow> broker_at ba s' b"
proof -
  assume "routing_kept s s'" "broker_at ba s b"
  then have "broker_at ba (s'\<lparr>msgs := msgs s\<rparr>) b" unfolding routing_kept_def by (rule frame_broker_at)
  moreover have "binding_ok (s'\<lparr>msgs := msgs s\<rparr>) = binding_ok s'" by (simp add: binding_ok_def fun_eq_iff)
  ultimately show ?thesis by (simp add: broker_at_def)
qed

lemma frame_simps:
  assumes "routing_frame s s'"
  shows "bindings_of s' b = bindings_of s b" "targets s' b ea key = targets s b ea key"
    "consumers_ok s' = consumers_ok s" "sys_fine s' = sys_fine s" "room_of s' qa = room_of s qa"
proof -
  show "room_of s' qa = room_of s qa"
  proof (cases "queues s qa")
    case None
    then have "queues s' qa = None" using assms unfolding routing_frame_def by (metis option.map_disc_iff)
    with None show ?thesis by (simp add: room_of_def)
  next
    case (Some q)
    obtain q' where "queues s' qa = Some q'" "queue_key q' = queue_key q"
      by (rule frame_queue [OF assms Some])
    with Some show ?thesis by (simp add: room_of_def queue_key_def)
  qed
next
  have "sys_ok s' = sys_ok s" "exchange_heap s' = exchange_heap s" "binding_heap s' = binding_heap s"
    "client_connections s' = client_connections s" "consumers s' = consumers s"
    "consumer_count s' = consumer_count s"
    using assms by (simp_all only: routing_frame_def)
  then show "bindings_of s' b = bindings_of s b" "targets s' b ea key = targets s b ea key"
    "consumers_ok s' = consumers_ok s" "sys_fine s' = sys_fine s"
    by (simp_all only: bindings_of_def targets_def consumers_ok_def sys_fine_def)
qed

lemma queue_at_frame:
  assumes "queue_at qa s q" and "queues s' qa = Some q" and "\<And>a. a \<in> set (held q) \<Longrightarrow> msgs s' a \<noteq> None"
  shows "queue_at qa s' q"
  using assms by (simp add: queue_at_def)

lemma queues_okD:
  assumes "queues_ok s"
  shows "heap_ok s" "queues s qa = Some q \<Longrightarrow> queue_at qa s q"
    "qa \<noteq> qb \<Longrightarrow> queues s qa = Some q \<Longrightarrow> queues s qb = Some r \<Longrightarrow> set (held q) \<inter> set (held r) = {}"
  using assms unfolding queues_ok_def by blast+

lemma held_below:
  assumes "queues_ok s" and "queues s qa = Some q" and "a \<in> set (held q)"
  shows "a < brk s" "msgs s a \<noteq> None"
  using queue_atD(8) [OF queues_okD(2) [OF assms(1,2)] assms(3)] heap_okD [OF queues_okD(1) [OF assms(1)]]
  by auto

lemma ready_held: "a \<in> set (ring_list q) \<Longrightarrow> a \<in> set (held q)"
  by (simp add: held_def)

subsection \<open>Forwarding\<close>

lemma send_no_fault:
  assumes "msgs s a = Some m" and "msg_complete m"
  shows "\<exists>ok n'. send_message_data fd (Some a) s n = Inr (ok, n')"
proof -
  obtain ex rk where "exchange m = Some ex" "routing_key m = Some rk"
    using assms(2) by (auto simp: msg_complete_def)
  with assms(1) have "\<exists>x. send_message_data fd (Some a) s n = Inr x"
    unfolding send_message_data_def
    by (cases "fd < 0") (auto simp: Let_def simp del: send_fields.simps)
  then show ?thesis by auto
qed

lemma forward_no_fault:
  assumes "consumers_ok s" and "msgs s a = Some m" and "msg_complete m"
  shows "\<exists>n. forward_message_to_consumers nm (Some a) s = Inr (s\<lparr>net := n\<rparr>)"
proof (cases nm)
  case None
  then show ?thesis by (intro exI [of _ "net s"]) (simp add: forward_message_to_consumers_def)
next
  case (Some name)
  have "\<exists>st. for_loop (forward_to name a s) [0..<consumer_count s] (net s, 0) = Inr st \<and> True"
  proof (rule for_loop_total)
    fix i :: nat and st :: "sockets \<times> nat"
    assume "i \<in> set [0..<consumer_count s]"
    then have i: "i < consumer_count s" by simp
    obtain n f where st: "st = (n, f)" by (cases st)
    from assms(1) i have c: "i < length (consumers s)"
      "client_index (consumers s ! i) < length (client_connections s)"
      by (auto simp: consumers_ok_def)
    obtain ok n' where "send_message_data (cc_fd (client_connections s ! client_index (consumers s ! i)))
        (Some a) s n = Inr (ok, n')"
      using send_no_fault [OF assms(2,3)] by blast
    with c st show "\<exists>st'. forward_to name a s i st = Inr st' \<and> True"
      by (simp add: forward_to_def arr_get_Inr)
  qed simp
  with Some show ?thesis by (auto simp: forward_message_to_consumers_def)
qed

subsection \<open>One delivery\<close>

text \<open>The memory after a clone of a message that is in it.\<close>

definition with_message :: "Message \<Rightarrow> nat \<Rightarrow> 'z mem_scheme \<Rightarrow> 'z mem_scheme" where
  "with_message m k s = s\<lparr>sys_calls := k, msgs := (msgs s)(brk s \<mapsto> m), brk := Suc (brk s)\<rparr>"

lemma with_message_simps [simp]:
  "msgs (with_message m k s) = (msgs s)(brk s \<mapsto> m)" "brk (with_message m k s) = Suc (brk s)"
  "sys_ok (with_message m k s) = sys_ok s" "queues (with_message m k t) = queues t"
  "sys_fine (with_message m k s) = sys_fine s"
  by (simp_all add: with_message_def sys_fine_def)

lemma with_message_frame:
  assumes "heap_ok s"
  shows "routing_frame s (with_message m k s)"
  using brk_fresh [OF assms] by (auto simp: routing_frame_def with_message_def)

lemma clone_with_message:
  assumes "sys_fine s" and "msgs s a = Some m" and "msg_complete m"
  shows "\<exists>k. message_clone (Some a) s = Inr (Some (brk s), with_message m k s)"
  using message_clone_fine [OF assms] by (auto simp: with_message_def)

lemma with_message_ok:
  assumes "queues_ok s" and "msg_ok m"
  shows "queues_ok (with_message m k s)" and "all_held (with_message m k s) = all_held s"
    and "unowned (with_message m k s) = insert (brk s) (unowned s)"
    and "contents (with_message m k s) = contents s"
proof -
  note d = queues_okD [OF assms(1)] and fresh = brk_fresh [OF queues_okD(1) [OF assms(1)]]
  have "heap_ok (with_message m k s)"
    using heap_ok_new [OF d(1) assms(2)] by (simp add: with_message_def)
  moreover have "queue_at qa (with_message m k s) q" if "queues s qa = Some q" for qa q
    by (rule queue_at_frame [OF d(2) [OF that]]) (use held_below(2) [OF assms(1) that] that in auto)
  ultimately show "queues_ok (with_message m k s)"
    using d(3) by (simp add: queues_ok_def)
  show all: "all_held (with_message m k s) = all_held s"
    by (simp add: all_held_def)
  have "brk s \<notin> all_held s"
    using held_below [OF assms(1)] by (auto simp: all_held_def ran_def)
  then show "unowned (with_message m k s) = insert (brk s) (unowned s)"
    unfolding unowned_def all by auto
  show "contents (with_message m k s) = contents s"
  proof
    fix qa
    show "contents (with_message m k s) qa = contents s qa"
    proof (cases "queues s qa")
      case (Some q)
      have "a \<noteq> brk s" if "a \<in> set (ring_list q)" for a
        using held_below(1) [OF assms(1) Some ready_held [OF that]] by simp
      then have "map (\<lambda>a. the (msgs (with_message m k s) a)) (ring_list q) =
          map (\<lambda>a. the (msgs s a)) (ring_list q)"
        by (intro map_cong refl) simp
      then show ?thesis unfolding contents_def by (simp add: Some)
    qed (simp add: contents_def)
  qed
qed

text \<open>Enqueueing a message no queue owns.\<close>

lemma enqueue_unowned:
  assumes ok: "queues_ok s" and q: "queues s qa = Some q" and room: "q_size q < capacity q"
    and m: "a \<in> unowned s"
  defines "s' \<equiv> put_queue qa (enqueued a q) s"
  shows "queues_ok s'" and "unowned s' = unowned s - {a}"
    and "contents s' = (contents s)(qa := contents s qa @ [the (msgs s a)])"
    and "all_held s' = insert a (all_held s)"
proof -
  note d = queues_okD [OF ok] and at = queues_okD(2) [OF ok q]
  have a: "msgs s a \<noteq> None" "a \<notin> all_held s" using m by (auto simp: unowned_def)
  then have nq: "a \<notin> set (held r)" if "queues s qb = Some r" for qb r
    using that by (auto simp: all_held_def ran_def)
  note e = enqueued_ok [OF at room a(1) nq [OF q]]
  have held: "set (held (enqueued a q)) = insert a (set (held q))"
    using ring_put_ok [OF queue_atD(3) [OF at] room]
    by (auto simp: held_def enqueued_def)
  have h: "heap_ok s'" using d(1) by (simp add: heap_ok_def s'_def)
  have each: "queue_at qb s' r" if "queues s' qb = Some r" for qb r
  proof (cases "qb = qa")
    case True
    with that e(1) show ?thesis by (simp add: s'_def)
  next
    case False
    with that have "queues s qb = Some r" by (simp add: s'_def)
    then show ?thesis
      by (rule queue_at_frame [OF d(2)])
        (use that queue_atD(8) [OF d(2) [OF \<open>queues s qb = Some r\<close>]] in \<open>simp_all add: s'_def\<close>)
  qed
  have disj: "set (held r1) \<inter> set (held r2) = {}"
    if "qb \<noteq> qc" "queues s' qb = Some r1" "queues s' qc = Some r2" for qb qc r1 r2
  proof -
    consider "qb = qa" | "qc = qa" | "qb \<noteq> qa" "qc \<noteq> qa" by blast
    then show ?thesis
    proof cases
      case 1
      with that have "r1 = enqueued a q" "queues s qc = Some r2" "qa \<noteq> qc" by (auto simp: s'_def)
      with d(3) [OF _ q, of qc r2] nq [of qc r2] held show ?thesis by auto
    next
      case 2
      with that have "r2 = enqueued a q" "queues s qb = Some r1" "qb \<noteq> qa" by (auto simp: s'_def)
      with d(3) [of qb qa r1 q] q nq [of qb r1] held show ?thesis by auto
    next
      case 3
      with that d(3) [of qb qc r1 r2] show ?thesis by (simp add: s'_def)
    qed
  qed
  show "queues_ok s'" unfolding queues_ok_def using h each disj by blast
  show all: "all_held s' = insert a (all_held s)"
  proof -
    have "ran (queues s') = insert (enqueued a q) (ran ((queues s)(qa := None)))"
      by (auto simp: s'_def ran_def)
    moreover have "ran (queues s) = insert q (ran ((queues s)(qa := None)))"
      using q by (auto simp: ran_def split: if_splits) (metis option.inject)
    ultimately show ?thesis using held by (simp add: all_held_def)
  qed
  show "unowned s' = unowned s - {a}"
    unfolding unowned_def all by (auto simp: s'_def)
  have "ring_list (enqueued a q) = ring_list q @ [a]"
    using ring_put_ok [OF queue_atD(3) [OF at] room] by (simp add: enqueued_def)
  then show "contents s' = (contents s)(qa := contents s qa @ [the (msgs s a)])"
    using q by (auto simp: fun_eq_iff contents_def s'_def split: option.split)
qed


text \<open>
  \<open>route_to_queue\<close> of a complete message: the queue gets a copy at its end when it has room,
  and nothing else changes but the sockets.
\<close>

lemma released_clone:
  assumes "heap_ok s"
  shows "(msgs (with_message m k s))(brk s := None) = msgs s"
  using brk_fresh [OF assms] by (auto simp: fun_eq_iff)

lemma frame_extra:
  "routing_frame s t \<Longrightarrow> routing_frame s (t\<lparr>net := n\<rparr>)"
  by (simp add: routing_frame_def)

lemma net_simps [simp]:
  "queues_ok (s\<lparr>net := n\<rparr>) = queues_ok s" "unowned (s\<lparr>net := n\<rparr>) = unowned s"
  "contents (s\<lparr>net := n\<rparr>) = contents s"
  by (auto simp: queues_ok_def heap_ok_def queue_at_def unowned_def all_held_def contents_def fun_eq_iff
      split: option.splits)

lemma net_calls_brk:
  "queues_ok s \<Longrightarrow> queues_ok (s\<lparr>sys_calls := k, brk := Suc (brk s)\<rparr>)"
  "unowned (s\<lparr>sys_calls := k, brk := j\<rparr>) = unowned s"
  "contents (s\<lparr>sys_calls := k, brk := j\<rparr>) = contents s"
  by (auto simp: queues_ok_def heap_ok_def queue_at_def unowned_def all_held_def contents_def fun_eq_iff
      less_Suc_eq split: option.splits)

lemma enqueued_frame:
  assumes "queues s qa = Some q"
  shows "routing_frame s (put_queue qa (enqueued a q) s)"
proof -
  have "queue_key (enqueued a q) = queue_key q"
    by (simp add: queue_key_def enqueued_def)
  with assms show ?thesis by (auto simp: routing_frame_def put_queue_def)
qed

lemma route_to_queue_ok:
  assumes fine: "sys_fine s" and ok: "queues_ok s" and cons: "consumers_ok s"
    and c: "msgs s c = Some m" "msg_complete m" and qa: "points_named (queues s) q_name (Some qa)"
  shows "\<exists>s' r'. route_to_queue qa c (s, r) = Inr (s', r') \<and> queues_ok s' \<and> unowned s' = unowned s \<and>
    routing_frame s s' \<and> (r', contents s') = spec_deliver (room_of s) m (r, contents s) qa"
proof -
  obtain q where q: "queues s qa = Some q" using qa by (auto simp: points_named_def)
  have mok: "msg_ok m" using c(2) by (simp add: msg_complete_def)
  obtain k where cl: "message_clone (Some c) s = Inr (Some (brk s), with_message m k s)"
    using clone_with_message [OF fine c] by blast
  define s1 where "s1 = with_message m k s"
  note w = with_message_ok [OF ok mok, of k, folded s1_def]
  have f1: "routing_frame s s1" unfolding s1_def by (rule with_message_frame [OF queues_okD(1) [OF ok]])
  have q1: "queues s1 qa = Some q" using q by (simp add: s1_def)
  have ring: "ring_ok q" by (rule queue_atD(3) [OF queues_okD(2) [OF ok q]])
  have len: "length (contents s qa) = q_size q" "room_of s qa = capacity q"
    using q by (simp_all add: contents_def room_of_def)
  show ?thesis
  proof (cases "q_size q = capacity q")
    case True
    define s2 where "s2 = s\<lparr>sys_calls := k, brk := Suc (brk s)\<rparr>"
    have "s1\<lparr>msgs := (msgs s1)(brk s := None)\<rparr> = s2"
      using released_clone [OF queues_okD(1) [OF ok], of m k] by (simp add: s1_def s2_def with_message_def)
    then have fr: "message_free (Some (brk s)) s1 = Inr s2"
      using message_free_live [of s1 "brk s" m] by (simp add: s1_def)
    have "route_to_queue qa c (s, r) = Inr (s2, r)"
      using cl fr try_enqueue_full [OF q1 True] q
      by (simp add: route_to_queue_def s1_def [symmetric] queue_name_at_def s2_def)
    moreover have "queues_ok s2" "unowned s2 = unowned s" "contents s2 = contents s"
      using ok by (simp_all add: s2_def net_calls_brk)
    moreover have "routing_frame s s2" by (simp add: s2_def routing_frame_def)
    ultimately show ?thesis using True len by (simp add: spec_deliver_def)
  next
    case False
    then have room: "q_size q < capacity q" using ring_okD [OF ring] by simp
    have new: "brk s \<in> unowned s1" using w(3) by simp
    define s2 where "s2 = put_queue qa (enqueued (brk s) q) s1"
    note e = enqueue_unowned [OF w(1) q1 room new, folded s2_def]
    have enq: "queue_try_enqueue (Some qa) (Some (brk s)) s1 = Inr (True, s2)"
      unfolding s2_def by (rule try_enqueue_room [OF q1 ring room])
    have f2: "routing_frame s s2"
      unfolding s2_def by (rule routing_frame_trans [OF f1 enqueued_frame [OF q1]])
    have nm: "queue_name_at s2 (Some qa) = Inr (q_name q)"
      by (simp add: queue_name_at_def s2_def enqueued_def)
    have "msgs s2 (brk s) = Some m" by (simp add: s2_def s1_def)
    then obtain n where fw: "forward_message_to_consumers (q_name q) (Some (brk s)) s2 = Inr (s2\<lparr>net := n\<rparr>)"
      using forward_no_fault [OF _ _ c(2)] frame_simps(3) [OF f2] cons by blast
    have "route_to_queue qa c (s, r) = Inr (s2\<lparr>net := n\<rparr>, Suc r)"
      using cl enq nm fw by (simp add: route_to_queue_def s1_def [symmetric])
    moreover have "brk s \<notin> unowned s"
      using brk_fresh [OF queues_okD(1) [OF ok]] by (auto simp: unowned_def)
    then have "unowned s2 = unowned s" using e(2) w(3) by auto
    moreover have "contents s2 = (contents s)(qa := contents s qa @ [m])"
      using e(3) w(4) by (simp add: s1_def)
    ultimately show ?thesis
      using e(1) frame_extra [OF f2] room len
      by (intro exI [of _ "s2\<lparr>net := n\<rparr>"] exI [of _ "Suc r"]) (simp add: spec_deliver_def)
  qed
qed

subsection \<open>The loop over the bindings\<close>

lemma binding_at:
  assumes b: "broker_at ba s b" and i: "i < binding_count b"
  shows "\<exists>a. br_bindings b ! i = Some a \<and> binding_heap s a = Some (bindings_of s b ! i) \<and> i < length (br_bindings b) \<and>
    points_named (queues s) q_name (Some (b_queue (bindings_of s b ! i)))"
proof -
  have n: "binding_count b \<le> length (br_bindings b)" "list_all (binding_ok s) (take (binding_count b) (br_bindings b))"
    using b by (simp_all add: broker_at_def)
  then have "binding_ok s (br_bindings b ! i)"
    using i by (auto simp: list_all_length)
  then show ?thesis
    using i n(1) by (auto simp: binding_ok_def bindings_of_def)
qed

lemma route_body_ok:
  assumes fine: "sys_fine s" and ok: "queues_ok s" and cons: "consumers_ok s"
    and c: "msgs s c = Some m" "msg_complete m" and b: "broker_at ba s b" and i: "i < binding_count b"
  defines "bd \<equiv> bindings_of s b ! i"
  shows "\<exists>s' r'. route_body b type ea c i (s, r) = Inr (s', r') \<and> queues_ok s' \<and> unowned s' = unowned s \<and>
    routing_frame s s' \<and>
    (r', contents s') = (if selects type ea (the (routing_key m)) bd
      then spec_deliver (room_of s) m (r, contents s) (b_queue bd) else (r, contents s))"
proof -
  obtain a where a: "br_bindings b ! i = Some a" "binding_heap s a = Some bd" "i < length (br_bindings b)"
    and q: "points_named (queues s) q_name (Some (b_queue bd))"
    using binding_at [OF b i] unfolding bd_def by blast
  obtain key where key: "routing_key m = Some key" using c(2) by (auto simp: msg_complete_def)
  have step: "route_body b type ea c i (s, r) =
      (if selects type ea (the (routing_key m)) bd then route_to_queue (b_queue bd) c (s, r) else Inr (s, r))"
    using a c(1) key by (simp add: route_body_def arr_get_Inr binding_selected_eq)
  show ?thesis
    unfolding step using route_to_queue_ok [OF fine ok cons c q, of r] ok by auto
qed

lemma route_loop:
  assumes fine: "sys_fine s" and ok: "queues_ok s" and cons: "consumers_ok s"
    and c: "msgs s c = Some m" "msg_complete m" and b: "broker_at ba s b" and n: "n \<le> binding_count b"
  shows "\<exists>s' r. for_loop (route_body b type ea c) [0..<n] (s, 0) = Inr (s', r) \<and> queues_ok s' \<and>
    unowned s' = unowned s \<and> routing_frame s s' \<and>
    (r, contents s') = spec_route (room_of s) m
      (map b_queue (filter (selects type ea (the (routing_key m))) (take n (bindings_of s b)))) (contents s)"
  using n
proof (induction n)
  case 0
  show ?case using ok by (intro exI [of _ s] exI [of _ 0]) (simp add: spec_route_def)
next
  case (Suc n)
  let ?t = "\<lambda>n. map b_queue (filter (selects type ea (the (routing_key m))) (take n (bindings_of s b)))"
  from Suc obtain s1 r1 where 1: "for_loop (route_body b type ea c) [0..<n] (s, 0) = Inr (s1, r1)"
    "queues_ok s1" "unowned s1 = unowned s" "routing_frame s s1"
    "(r1, contents s1) = spec_route (room_of s) m (?t n) (contents s)" by auto
  note f = frame_simps [OF 1(4)]
  have c1: "msgs s1 c = Some m" using 1(4) c(1) by (simp add: routing_frame_def)
  have room: "room_of s1 = room_of s" by (rule ext) (rule f(5))
  have i: "n < binding_count b" using Suc.prems by simp
  from route_body_ok [OF _ 1(2) _ c1 c(2) frame_broker_at [OF 1(4) b] i, of type ea r1]
  obtain s2 r2 where 2: "route_body b type ea c n (s1, r1) = Inr (s2, r2)" "queues_ok s2"
    "unowned s2 = unowned s1" "routing_frame s1 s2"
    "(r2, contents s2) = (if selects type ea (the (routing_key m)) (bindings_of s b ! n)
      then spec_deliver (room_of s) m (r1, contents s1) (b_queue (bindings_of s b ! n)) else (r1, contents s1))"
    using f fine cons room by auto
  have len: "n < length (bindings_of s b)"
    using i b by (simp add: bindings_of_def broker_at_def)
  have "(r2, contents s2) = spec_route (room_of s) m (?t (Suc n)) (contents s)"
    unfolding 2(5) 1(5)
    by (simp add: take_Suc_conv_app_nth [OF len] spec_route_snoc del: map_map)
  moreover have "for_loop (route_body b type ea c) [0..<Suc n] (s, 0) = Inr (s2, r2)"
    using 1(1) 2(1) by (simp add: for_loop_append)
  ultimately show ?case
    using 2(2-4) 1(3,4) routing_frame_trans [OF 1(4) 2(4)] by auto
qed

end
