(* ===== verification/Broker_Publish.thy ===== *)
theory Broker_Publish
  imports Broker_Routing Wire_Roundtrip
begin

text \<open>
  Publishing and the client handler of \<open>src/core/broker.c\<close>: what one call of
  \<open>broker_publish\<close> does to the queues and to the messages it allocates, and what a handler's
  pass over one received message does.
\<close>

subsection \<open>Publishing\<close>

lemma free_unowned:
  assumes ok: "queues_ok s" and a: "a \<in> unowned s"
  defines "s' \<equiv> s\<lparr>msgs := (msgs s)(a := None)\<rparr>"
  shows "message_free (Some a) s = Inr s'" and "queues_ok s'" and "unowned s' = unowned s - {a}"
    and "contents s' = contents s"
proof -
  have m: "msgs s a \<noteq> None" and n: "a \<notin> all_held s" using a by (auto simp: unowned_def)
  show "message_free (Some a) s = Inr s'"
    using m by (auto simp: s'_def message_free_live)
  have nh: "x \<noteq> a" if "queues s qa = Some q" "x \<in> set (held q)" for qa q x
    using n that by (auto simp: all_held_def ran_def)
  have "queue_at qa s' q" if "queues s qa = Some q" for qa q
    by (rule queue_at_frame [OF queues_okD(2) [OF ok that]])
      (use that nh [OF that] held_below(2) [OF ok that] in \<open>auto simp: s'_def\<close>)
  moreover have "heap_ok s'" unfolding s'_def by (rule heap_ok_free [OF queues_okD(1) [OF ok]])
  ultimately show "queues_ok s'"
    using queues_okD(3) [OF ok] by (simp add: queues_ok_def s'_def)
  show "unowned s' = unowned s - {a}"
    by (auto simp: unowned_def all_held_def s'_def)
  show "contents s' = contents s"
  proof
    fix qa
    show "contents s' qa = contents s qa"
    proof (cases "queues s qa")
      case (Some q)
      have "map (\<lambda>x. the (msgs s' x)) (ring_list q) = map (\<lambda>x. the (msgs s x)) (ring_list q)"
        using nh [OF Some ready_held] by (intro map_cong refl) (simp add: s'_def)
      then show ?thesis using Some by (simp add: contents_def s'_def)
    qed (simp add: contents_def s'_def)
  qed
qed

text \<open>The clone is kept when exactly one queue took a copy, and freed otherwise.\<close>

lemma route_message_ok:
  assumes fine: "sys_fine s" and ok: "queues_ok s" and cons: "consumers_ok s"
    and c: "msgs s c = Some m" "msg_complete m" "c \<in> unowned s" and b: "broker_at ba s b"
    and e: "exchange_heap s ea \<noteq> None"
    and spec: "spec_route (room_of s) m (targets s b ea (the (routing_key m))) (contents s) = (r, C)"
  shows "\<exists>s'. broker_route_message ba ea c s = Inr (r, s') \<and> queues_ok s' \<and> contents s' = C \<and>
    (if r = 1 then unowned s' = unowned s \<and> msgs s' c = Some m
     else unowned s' = unowned s - {c} \<and> msgs s' c = None) \<and>
    (\<forall>a. a \<noteq> c \<longrightarrow> msgs s a \<noteq> None \<longrightarrow> msgs s' a = msgs s a) \<and> routing_kept s s'"
proof -
  obtain ex where ex: "exchange_heap s ea = Some ex" using e by blast
  have all: "take (binding_count b) (bindings_of s b) = bindings_of s b"
    by (simp add: bindings_of_def)
  from route_loop [OF fine ok cons c(1,2) b order_refl, of "ex_type ex" ea]
  obtain s1 where 1: "for_loop (route_body b (ex_type ex) ea c) [0..<binding_count b] (s, 0) = Inr (s1, r)"
    "queues_ok s1" "unowned s1 = unowned s" "routing_frame s s1" "contents s1 = C"
    using spec unfolding all targets_def by (auto simp: ex)
  have br: "brokers s ba = Some b" using b by (simp add: broker_at_def)
  have c1: "msgs s1 c = Some m" and keep: "\<And>a x. msgs s a = Some x \<Longrightarrow> msgs s1 a = Some x"
    using 1(4) c(1) by (simp_all add: routing_frame_def)
  note f = free_unowned [OF 1(2), of c] and kept = frame_kept [OF 1(4)]
  have cu: "c \<in> unowned s1" using c(3) 1(3) by simp
  show ?thesis
  proof (cases "r = 1")
    case True
    with 1 c1 keep kept show ?thesis
      by (intro exI [of _ s1]) (auto simp: broker_route_message_def br ex)
  next
    case False
    with 1 keep kept f(1) [OF cu] f(2-4) [OF cu] show ?thesis
      by (intro exI [of _ "s1\<lparr>msgs := (msgs s1)(c := None)\<rparr>"])
        (auto simp: broker_route_message_def br ex)
  qed
qed

text \<open>
  \<open>broker_publish\<close> of a complete message to an exchange. Its clone is at \<open>brk s\<close>. When no
  queue takes the message the clone is freed twice; when exactly one does, the clone is
  never freed; when several do, it is freed once.
\<close>

lemma publish_cases:
  assumes fine: "sys_fine s" and ok: "queues_ok s" and cons: "consumers_ok s"
    and ma: "msgs s ma = Some m" "msg_complete m" and b: "broker_at ba s b"
    and e: "points_named (exchange_heap s) ex_name (Some ea)"
    and spec: "spec_route (room_of s) m (targets s b ea (the (routing_key m))) (contents s) = (r, C)"
  shows "if r = 0 then broker_publish (Some ba) (Some ea) (Some ma) s = Inl (DoubleFree (brk s))
    else \<exists>s'. broker_publish (Some ba) (Some ea) (Some ma) s = Inr (True, s') \<and> queues_ok s' \<and>
      contents s' = C \<and> msgs s' ma = Some m \<and>
      unowned s' = (if r = 1 then insert (brk s) (unowned s) else unowned s) \<and>
      routing_kept s s'"
proof -
  have mok: "msg_ok m" using ma(2) by (simp add: msg_complete_def)
  have fresh: "msgs s (brk s) = None" by (rule brk_fresh [OF queues_okD(1) [OF ok]])
  then have new: "brk s \<notin> unowned s" and ne: "ma \<noteq> brk s"
    using ma(1) by (auto simp: unowned_def)
  obtain k where cl: "message_clone (Some ma) s = Inr (Some (brk s), with_message m k s)"
    using clone_with_message [OF fine ma] by blast
  define s1 where "s1 = with_message m k s"
  note w = with_message_ok [OF ok mok, of k, folded s1_def]
  have f1: "routing_frame s s1"
    unfolding s1_def by (rule with_message_frame [OF queues_okD(1) [OF ok]])
  note fs = frame_simps [OF f1]
  have s1: "msgs s1 (brk s) = Some m" "msgs s1 ma = Some m" "sys_fine s1" "brk s \<in> unowned s1"
    using fine ma ne w(3) by (simp_all add: s1_def)
  have e1: "exchange_heap s1 ea \<noteq> None" and nm: "\<exists>n. exchange_name_at s1 (Some ea) = Inr n"
    using e f1 by (auto simp: points_named_def routing_frame_def exchange_name_at_def)
  have room: "room_of s1 = room_of s" by (rule ext) (rule fs(5))
  have sp: "spec_route (room_of s1) m (targets s1 b ea (the (routing_key m))) (contents s1) = (r, C)"
    using spec fs w(4) room by simp
  from route_message_ok [OF s1(3) w(1) _ s1(1) ma(2) s1(4) frame_broker_at [OF f1 b] e1 sp] fs cons
  obtain s2 where 2: "broker_route_message ba ea (brk s) s1 = Inr (r, s2)" "queues_ok s2" "contents s2 = C"
    "if r = 1 then unowned s2 = unowned s1 \<and> msgs s2 (brk s) = Some m
     else unowned s2 = unowned s1 - {brk s} \<and> msgs s2 (brk s) = None"
    "\<And>a. a \<noteq> brk s \<Longrightarrow> msgs s1 a \<noteq> None \<Longrightarrow> msgs s2 a = msgs s1 a"
    and kept: "routing_kept s1 s2"
    by auto
  have pub: "broker_publish (Some ba) (Some ea) (Some ma) s =
      (if r = 0 then ebind (message_free (Some (brk s)) s2) (\<lambda>s. Inr (False, s)) else Inr (True, s2))"
    using cl nm s1(2) 2(1) by (auto simp: broker_publish_def s1_def [symmetric])
  show ?thesis
  proof (cases "r = 0")
    case True
    with 2(4) have "msgs s2 (brk s) = None" by simp
    with True pub show ?thesis by (simp add: message_free_dead)
  next
    case False
    have "unowned s2 = (if r = 1 then insert (brk s) (unowned s) else unowned s)"
      using 2(4) w(3) new by auto
    with False pub 2(2,3) 2(5) [OF ne] s1(2) routing_kept_trans [OF frame_kept [OF f1] kept] show ?thesis by auto
  qed
qed

end
