(* ===== verification/Broker_Names.thy ===== *)
theory Broker_Names
  imports Broker_Routing
begin

text \<open>
  The names of queues and exchanges in \<open>src/core/broker.c\<close>: the searches by name, and the
  table of names that \<open>broker_create_queue\<close> with \<open>broker_get_queue\<close> and
  \<open>broker_create_exchange\<close> with \<open>broker_get_exchange\<close> both implement, as one contract
  interpreted on each.
\<close>

subsection \<open>The searches\<close>

text \<open>The first entry of an array with a name.\<close>

definition first_named :: "(addr \<rightharpoonup> 'a) \<Rightarrow> ('a \<Rightarrow> string option) \<Rightarrow> ptr list \<Rightarrow> string \<Rightarrow> ptr" where
  "first_named h name ps nm =
     (case find (\<lambda>p. name (the (h (the p))) = Some nm) ps of None \<Rightarrow> None | Some p \<Rightarrow> p)"

lemma find_named_eq:
  assumes "list_all (points_named h name) (take n arr)" and "n \<le> length arr"
  shows "find_named (\<lambda>p. ebind (deref h p) (\<lambda>x. Inr (name x))) arr n nm =
    Inr (first_named h name (take n arr) nm)"
  using assms
proof (induction n)
  case 0
  show ?case by (simp add: find_named_def first_named_def)
next
  case (Suc n)
  then have n: "n < length arr" by simp
  have t: "take (Suc n) arr = take n arr @ [arr ! n]" by (rule take_Suc_conv_app_nth [OF n])
  obtain a x s where a: "arr ! n = Some a" "h a = Some x" "name x = Some s"
    using Suc.prems(1) unfolding t by (auto simp: points_named_def)
  have IH: "find_named (\<lambda>p. ebind (deref h p) (\<lambda>x. Inr (name x))) arr n nm =
      Inr (first_named h name (take n arr) nm)"
    using Suc unfolding t by simp
  have some: "p \<noteq> None" if "p \<in> set (take n arr)" for p
    using Suc.prems(1) that unfolding t by (auto simp: list_all_iff points_named_def)
  define f where "f i = ebind (arr_get arr i) (\<lambda>p.
      ebind (ebind (deref h p) (\<lambda>x. Inr (name x))) (\<lambda>m.
      ebind (str_eq m (Some nm)) (\<lambda>eq. Inr (if eq then p else None))))" for i
  have last: "for_find f [n] = Inr (if s = nm then Some a else None)"
    using a n by (simp add: f_def arr_get_Inr)
  have "find_named (\<lambda>p. ebind (deref h p) (\<lambda>x. Inr (name x))) arr (Suc n) nm =
      ebind (find_named (\<lambda>p. ebind (deref h p) (\<lambda>x. Inr (name x))) arr n nm)
        (\<lambda>r. case r of None \<Rightarrow> for_find f [n] | Some x \<Rightarrow> Inr (Some x))"
    unfolding find_named_def f_def [abs_def] by (simp add: for_find_append del: for_find.simps)
  also have "\<dots> = Inr (first_named h name (take (Suc n) arr) nm)"
  proof (cases "find (\<lambda>p. name (the (h (the p))) = Some nm) (take n arr)")
    case None
    then show ?thesis
      unfolding IH t last by (simp add: first_named_def a find_append)
  next
    case (Some p)
    then have "p \<noteq> None" using some by (auto simp: find_Some_iff in_set_conv_nth)
    with Some show ?thesis unfolding IH t last by (auto simp: first_named_def find_append)
  qed
  finally show ?case .
qed

lemma first_named_points:
  assumes "list_all (points_named h name) ps" and "first_named h name ps nm = Some a"
  shows "points_named h name (Some a)" and "Some a \<in> set ps" and "name (the (h a)) = Some nm"
proof -
  obtain p where p: "find (\<lambda>p. name (the (h (the p))) = Some nm) ps = Some p" "p = Some a"
    using assms(2) by (auto simp: first_named_def split: option.splits)
  then show m: "Some a \<in> set ps"
    by (auto simp: find_Some_iff)
  have "name (the (h (the p))) = Some nm" using p(1) by (auto simp: find_Some_iff)
  then show "name (the (h a)) = Some nm" using p(2) by simp
  show "points_named h name (Some a)" using assms(1) m by (auto simp: list_all_iff)
qed

lemma first_named_snoc:
  assumes "list_all (points_named h name) ps"
  shows "first_named h name (ps @ [Some a]) nm =
    (case first_named h name ps nm of
       None \<Rightarrow> if name (the (h a)) = Some nm then Some a else None
     | Some b \<Rightarrow> Some b)"
proof (cases "find (\<lambda>p. name (the (h (the p))) = Some nm) ps")
  case None
  then show ?thesis by (simp add: first_named_def find_append)
next
  case (Some p)
  then have "p \<noteq> None" using assms by (auto simp: find_Some_iff list_all_length points_named_def)
  with Some show ?thesis by (auto simp: first_named_def find_append)
qed

lemma first_named_cong:
  assumes "\<And>a. Some a \<in> set ps \<Longrightarrow> h' a = h a" and "list_all (points_named h name) ps"
  shows "first_named h' name ps nm = first_named h name ps nm"
proof -
  have "find (\<lambda>p. name (the (h' (the p))) = Some nm) ps = find (\<lambda>p. name (the (h (the p))) = Some nm) ps"
    using assms by (intro find_cong refl) (auto simp: list_all_iff points_named_def)
  then show ?thesis by (simp add: first_named_def)
qed

lemma get_queue_eq:
  assumes "broker_at ba s b"
  shows "broker_get_queue (Some ba) (Some nm) s =
    Inr (first_named (queues s) q_name (take (queue_count b) (br_queues b)) (cstr nm))"
  using assms find_named_eq [of "queues s" q_name "queue_count b" "br_queues b" "cstr nm"]
  by (simp add: broker_get_queue_def broker_at_def queue_name_at_def [abs_def])

lemma get_exchange_eq:
  assumes "broker_at ba s b"
  shows "broker_get_exchange (Some ba) (Some nm) s =
    Inr (first_named (exchange_heap s) ex_name (take (exchange_count b) (br_exchanges b)) (cstr nm))"
  using assms find_named_eq [of "exchange_heap s" ex_name "exchange_count b" "br_exchanges b" "cstr nm"]
  by (simp add: broker_get_exchange_def broker_at_def exchange_name_at_def [abs_def])

lemma get_exchange_points:
  assumes "broker_at ba s b" and "broker_get_exchange (Some ba) nm s = Inr (Some ea)"
  shows "points_named (exchange_heap s) ex_name (Some ea)"
proof -
  obtain n where n: "nm = Some n" using assms(2) by (auto simp: broker_get_exchange_def split: option.splits)
  have "list_all (points_named (exchange_heap s) ex_name) (take (exchange_count b) (br_exchanges b))"
    using assms(1) by (simp add: broker_at_def)
  then show ?thesis
    by (rule first_named_points(1)) (use get_exchange_eq [OF assms(1), of n] assms(2) n in simp)
qed

subsection \<open>The table of names\<close>

text \<open>
  Creating finds the object when its name is taken, otherwise adds one at the end of the
  table or fails when the table is full; it never changes what another name gives.
\<close>

fun create_all :: "('n \<Rightarrow> 's \<Rightarrow> fault + ptr \<times> 's) \<Rightarrow> 'n list \<Rightarrow> 's \<Rightarrow> fault + ptr list \<times> 's" where
  "create_all create [] s = Inr ([], s)"
| "create_all create (nm # nms) s =
     ebind (create nm s) (\<lambda>(p, s).
     ebind (create_all create nms s) (\<lambda>(ps, s). Inr (p # ps, s)))"

locale name_table =
  fixes get :: "'n \<Rightarrow> 's \<Rightarrow> fault + ptr"
    and create :: "'n \<Rightarrow> 's \<Rightarrow> fault + ptr \<times> 's"
    and key :: "'n \<Rightarrow> string"
    and ok :: "'s \<Rightarrow> bool"
  assumes get_total: "ok s \<Longrightarrow> \<exists>p. get nm s = Inr p"
    and get_key: "key nm = key nm' \<Longrightarrow> get nm s = get nm' s"
    and create_existing: "ok s \<Longrightarrow> get nm s = Inr (Some a) \<Longrightarrow> create nm s = Inr (Some a, s)"
    and create_new: "ok s \<Longrightarrow> get nm s = Inr None \<Longrightarrow>
      create nm s = Inr (None, s) \<or>
      (\<exists>a s'. create nm s = Inr (Some a, s') \<and> ok s' \<and>
         (\<forall>nm'. get nm' s' = (if key nm' = key nm then Inr (Some a) else get nm' s)))"
begin

lemma create_cases:
  assumes "ok s"
  obtains (existing) a where "get nm s = Inr (Some a)" "create nm s = Inr (Some a, s)"
  | (full) "get nm s = Inr None" "create nm s = Inr (None, s)"
  | (new) a s' where "get nm s = Inr None" "create nm s = Inr (Some a, s')" "ok s'"
      "\<And>nm'. get nm' s' = (if key nm' = key nm then Inr (Some a) else get nm' s)"
proof -
  obtain p where p: "get nm s = Inr p" using get_total [OF assms] by blast
  show thesis
  proof (cases p)
    case None
    with create_new [OF assms, of nm] p show ?thesis using full new by blast
  next
    case (Some a)
    with create_existing [OF assms] p show ?thesis using existing by blast
  qed
qed

lemma create_total:
  assumes "ok s"
  shows "\<exists>p s'. create nm s = Inr (p, s') \<and> ok s'"
  using assms by (cases rule: create_cases [OF assms, of nm]) auto

lemma get_after_create:
  assumes "ok s" and "create nm s = Inr (Some a, s')"
  shows "get nm s' = Inr (Some a)"
  using assms(1)
  by (cases rule: create_cases [of s nm]) (use assms(2) in auto)

lemma create_idempotent:
  assumes "ok s" and "create nm s = Inr (Some a, s')"
  shows "create nm s' = Inr (Some a, s')"
  using create_total [OF assms(1), of nm] create_existing get_after_create [OF assms] assms(2) by auto

lemma get_stable:
  assumes "ok s" and "create nm s = Inr (p, s')" and "get nm' s = Inr (Some a)"
  shows "get nm' s' = Inr (Some a)"
  using assms(1)
  by (cases rule: create_cases [of s nm])
    (use assms(2,3) get_key [of nm' nm s] in auto)

text \<open>Any sequence of creations returns, and what was created or found is found at the end.\<close>

lemma create_all_get:
  assumes "ok s" and "get nm s = Inr (Some a)"
  shows "\<exists>ps s'. create_all create nms s = Inr (ps, s') \<and> ok s' \<and> get nm s' = Inr (Some a)"
  using assms
proof (induction nms arbitrary: s)
  case (Cons n nms)
  obtain p s1 where 1: "create n s = Inr (p, s1)" "ok s1" using create_total [OF Cons.prems(1)] by blast
  have "get nm s1 = Inr (Some a)" by (rule get_stable [OF Cons.prems(1) 1(1) Cons.prems(2)])
  from Cons.IH [OF 1(2) this] 1(1) show ?case by auto
qed simp

end

subsection \<open>Queues and exchanges as tables of names\<close>

definition addresses_ok :: "'z bmem_scheme \<Rightarrow> bool" where
  "addresses_ok s \<longleftrightarrow>
     (\<forall>a. brk s \<le> a \<longrightarrow> queues s a = None \<and> exchange_heap s a = None \<and> binding_heap s a = None \<and>
        brokers s a = None)"

definition broker_ok :: "addr \<Rightarrow> 'z bmem_scheme \<Rightarrow> bool" where
  "broker_ok ba s \<longleftrightarrow>
     queues_ok s \<and> consumers_ok s \<and> addresses_ok s \<and> (\<exists>b. broker_at ba s b)"

lemma put_broker_simps [simp]:
  "brokers (put_broker a b s) = (brokers s)(a \<mapsto> b)" "queues (put_broker a b s) = queues s"
  "exchange_heap (put_broker a b s) = exchange_heap s" "binding_heap (put_broker a b s) = binding_heap s"
  "msgs (put_broker a b s) = msgs s" "brk (put_broker a b s) = brk s"
  "sys_ok (put_broker a b s) = sys_ok s" "consumers_ok (put_broker a b s) = consumers_ok s"
  "sys_fine (put_broker a b s) = sys_fine s" "heap_ok (put_broker a b s) = heap_ok s"
  by (simp_all add: put_broker_def consumers_ok_def sys_fine_def heap_ok_def)

lemma queue_at_put_broker [simp]: "queue_at qa (put_broker a b s) q = queue_at qa s q"
  by (simp add: queue_at_def)

text \<open>A new empty queue at the break.\<close>

lemma queues_ok_new_queue:
  fixes k :: nat
  assumes ok: "queues_ok s" and q: "queue_ok q" "held q = []" and fresh: "queues s (brk s) = None"
  defines "s' \<equiv> put_queue (brk s) q (s\<lparr>sys_calls := k, brk := Suc (brk s)\<rparr>)"
  shows "queues_ok s'"
proof -
  note d = queues_okD [OF ok]
  have at: "queue_at qa s' r" if "queues s' qa = Some r" for qa r
  proof (cases "qa = brk s")
    case True
    with that q show ?thesis by (simp add: s'_def queue_at_def)
  next
    case False
    with that have "queues s qa = Some r" by (simp add: s'_def)
    from d(2) [OF this] that show ?thesis by (simp add: queue_at_def s'_def)
  qed
  have "heap_ok s'" using d(1) by (auto simp: heap_ok_def s'_def less_Suc_eq)
  moreover have "set (held r1) \<inter> set (held r2) = {}"
    if "qa \<noteq> qb" "queues s' qa = Some r1" "queues s' qb = Some r2" for qa qb r1 r2
    using that q(2) d(3) [of qa qb r1 r2] by (auto simp: s'_def split: if_splits)
  ultimately show ?thesis using at unfolding queues_ok_def by blast
qed

lemma points_named_mono:
  assumes "points_named h name p" and "\<And>a x. h a = Some x \<Longrightarrow> h' a = Some x"
  shows "points_named h' name p"
  using assms by (auto simp: points_named_def)

lemma binding_ok_brokers [simp]: "binding_ok (s\<lparr>brokers := h\<rparr>) = binding_ok s"
  by (simp add: binding_ok_def fun_eq_iff)

text \<open>Adding an entry to one of the broker's arrays.\<close>

lemma fresh_entry:
  "list_all (points_named h name) ps \<Longrightarrow> h a = None \<Longrightarrow> Some a \<notin> set ps"
  "list_all (binding_ok s) ps \<Longrightarrow> binding_heap s a = None \<Longrightarrow> Some a \<notin> set ps"
  by (auto simp: list_all_iff points_named_def binding_ok_def)

lemma take_snoc_entry:
  assumes "n < length arr"
  shows "take (Suc n) (arr[n := x]) = take n arr @ [x]"
  using assms by (simp add: take_Suc_conv_app_nth)

lemma broker_at_mono:
  assumes at: "broker_at ba s b"
    and q: "\<And>a x. queues s a = Some x \<Longrightarrow> queues s' a = Some x"
    and e: "\<And>a x. exchange_heap s a = Some x \<Longrightarrow> exchange_heap s' a = Some x"
    and bd: "\<And>a x. binding_heap s a = Some x \<Longrightarrow> binding_heap s' a = Some x"
    and br: "brokers s' ba = Some b"
  shows "broker_at ba s' b"
proof -
  have "points_named (queues s) q_name p \<Longrightarrow> points_named (queues s') q_name p" for p
    by (erule points_named_mono) (rule q)
  moreover have "points_named (exchange_heap s) ex_name p \<Longrightarrow> points_named (exchange_heap s') ex_name p" for p
    by (erule points_named_mono) (rule e)
  moreover from calculation have "binding_ok s p \<Longrightarrow> binding_ok s' p" for p
    using bd unfolding binding_ok_def by blast
  ultimately show ?thesis
    using at br unfolding broker_at_def list_all_iff by blast
qed

lemma create_queue_new:
  assumes ok: "broker_ok ba s" and fine: "sys_fine s" and cap: "0 < cap" "cap * sizeof_ptr < 2 ^ 63"
    and b: "broker_at ba s b" and none: "broker_get_queue (Some ba) (Some nm) s = Inr None"
    and room: "queue_count b < MAX_QUEUES"
  shows "\<exists>s'. broker_create_queue (Some ba) (Some nm) cap s = Inr (Some (brk s), s') \<and> broker_ok ba s' \<and>
    sys_fine s' \<and>
    (\<exists>b' q. broker_at ba s' b' \<and> queues s' = (queues s)(brk s \<mapsto> q) \<and> q_name q = Some (cstr nm) \<and>
       ring_list q = [] \<and> capacity q = cap \<and> queue_count b' = Suc (queue_count b) \<and>
       exchange_count b' = exchange_count b \<and> binding_count b' = binding_count b \<and> br_running b' = br_running b \<and>
       bindings_of s' b' = bindings_of s b \<and> exchange_heap s' = exchange_heap s \<and> msgs s' = msgs s \<and>
       threads s' = threads s) \<and>
    (\<forall>nm'. broker_get_queue (Some ba) (Some nm') s' =
      (if cstr nm' = cstr nm then Inr (Some (brk s)) else broker_get_queue (Some ba) (Some nm') s))"
proof -
  have br: "brokers s ba = Some b" and len: "length (br_queues b) = MAX_QUEUES" "queue_count b \<le> MAX_QUEUES"
    and qs: "list_all (points_named (queues s) q_name) (take (queue_count b) (br_queues b))"
    using b by (simp_all add: broker_at_def)
  have w: "queues_ok s" "consumers_ok s" "addresses_ok s" using ok by (auto simp: broker_ok_def)
  have fresh: "queues s (brk s) = None" using w(3) by (simp add: addresses_ok_def)
  from queue_create_fine [OF fine cap, of nm] obtain q k where
    cr: "queue_create (Some nm) cap s = Inr (Some (brk s), put_queue (brk s) q (s\<lparr>sys_calls := k, brk := Suc (brk s)\<rparr>))"
    and q: "queue_ok q" "ring_list q = []" "unacked_list q = []" "q_name q = Some (cstr nm)"
      "capacity q = cap" by blast
  define s1 where "s1 = put_queue (brk s) q (s\<lparr>sys_calls := k, brk := Suc (brk s)\<rparr>)"
  define b' where "b' = b\<lparr>br_queues := (br_queues b)[queue_count b := Some (brk s)], queue_count := queue_count b + 1\<rparr>"
  define s' where "s' = put_broker ba b' s1"
  have find: "find_named (queue_name_at s) (br_queues b) (queue_count b) (cstr nm) = Inr None"
    using none br by (simp add: broker_get_queue_def)
  have res: "broker_create_queue (Some ba) (Some nm) cap s = Inr (Some (brk s), s')"
    using br find cr room len by (simp add: broker_create_queue_def arr_put_Inr s'_def b'_def s1_def)
  have heaps: "queues s' = (queues s)(brk s \<mapsto> q)" "exchange_heap s' = exchange_heap s"
    "binding_heap s' = binding_heap s" "brokers s' = (brokers s)(ba \<mapsto> b')" "msgs s' = msgs s"
    "brk s' = Suc (brk s)" "sys_ok s' = sys_ok s"
    by (simp_all add: s'_def s1_def, simp_all add: put_queue_def)
  have q1: "queues_ok s1"
    unfolding s1_def by (rule queues_ok_new_queue [OF w(1) q(1) _ fresh]) (simp add: held_def q)
  then have qok: "queues_ok s'" by (simp add: s'_def queues_ok_def)
  have t: "take (queue_count b') (br_queues b') = take (queue_count b) (br_queues b) @ [Some (brk s)]"
    using room len take_snoc_entry [of "queue_count b" "br_queues b" "Some (brk s)"] by (simp add: b'_def)
  have grow: "queues s a = Some x \<Longrightarrow> queues s' a = Some x" for a x
    using fresh by (auto simp: heaps)
  have "broker_at ba (s'\<lparr>brokers := (brokers s)(ba \<mapsto> b)\<rparr>) b"
    by (rule broker_at_mono [OF b]) (use grow in \<open>auto simp: heaps\<close>)
  then have at: "broker_at ba s' b'"
    using t room len q(4) fresh_entry(1) [OF qs fresh] unfolding broker_at_def
    by (simp add: heaps) (simp add: b'_def points_named_def)
  have "addresses_ok s'"
  proof -
    have "ba < brk s" using w(3) br by (metis addresses_ok_def not_less option.distinct(1))
    with w(3) show ?thesis by (auto simp: addresses_ok_def heaps)
  qed
  moreover have "consumers_ok s'"
    using w(2) by (simp add: s'_def s1_def) (simp add: consumers_ok_def put_queue_def)
  ultimately have bok: "broker_ok ba s'" using qok at by (auto simp: broker_ok_def)
  have "broker_get_queue (Some ba) (Some nm') s' =
      (if cstr nm' = cstr nm then Inr (Some (brk s)) else broker_get_queue (Some ba) (Some nm') s)" for nm'
  proof -
    have fc: "first_named (queues s') q_name (take (queue_count b) (br_queues b)) n =
        first_named (queues s) q_name (take (queue_count b) (br_queues b)) n" for n
      by (rule first_named_cong [OF _ qs]) (use qs fresh in \<open>auto simp: heaps list_all_iff points_named_def\<close>)
    have "list_all (points_named (queues s') q_name) (take (queue_count b) (br_queues b))"
      using qs grow by (auto simp: list_all_iff intro: points_named_mono)
    from first_named_snoc [OF this, of "brk s" "cstr nm'"] fc
    have "first_named (queues s') q_name (take (queue_count b') (br_queues b')) (cstr nm') =
        (case first_named (queues s) q_name (take (queue_count b) (br_queues b)) (cstr nm') of
           None \<Rightarrow> if cstr nm' = cstr nm then Some (brk s) else None | Some b \<Rightarrow> Some b)"
      unfolding t by (simp add: heaps(1) q(4) eq_commute)
    moreover have "first_named (queues s) q_name (take (queue_count b) (br_queues b)) (cstr nm) = None"
      using none get_queue_eq [OF b, of nm] by simp
    ultimately show ?thesis
      using get_queue_eq [OF at, of nm'] get_queue_eq [OF b, of nm'] by (auto split: option.splits)
  qed
  moreover have "sys_fine s'" using fine by (simp add: sys_fine_def heaps)
  moreover have "threads s' = threads s" by (simp add: s'_def s1_def put_broker_def put_queue_def)
  moreover have "bindings_of s' b' = bindings_of s b" by (simp add: bindings_of_def heaps b'_def)
  ultimately show ?thesis
    using res bok at q(2,4,5) heaps
    by (intro exI [of _ s'] conjI exI [of _ b'] exI [of _ q]) (simp_all add: b'_def)
qed

lemma same_queues_ok:
  assumes "queues s' = queues s" and "msgs s' = msgs s" and "brk s \<le> brk s'"
  shows "queues_ok s \<Longrightarrow> queues_ok s'"
  using assms by (fastforce simp: queues_ok_def heap_ok_def queue_at_def)

lemma create_exchange_new:
  assumes ok: "broker_ok ba s" and fine: "sys_fine s"
    and b: "broker_at ba s b" and none: "broker_get_exchange (Some ba) (Some nm) s = Inr None"
    and room: "exchange_count b < MAX_EXCHANGES"
  shows "\<exists>s'. broker_create_exchange (Some ba) (Some nm) type s = Inr (Some (brk s), s') \<and> broker_ok ba s' \<and>
    sys_fine s' \<and>
    (\<exists>b'. broker_at ba s' b' \<and> queues s' = queues s \<and> queue_count b' = queue_count b \<and>
       exchange_count b' = Suc (exchange_count b) \<and> binding_count b' = binding_count b \<and>
       br_running b' = br_running b \<and> bindings_of s' b' = bindings_of s b \<and>
       exchange_heap s' = (exchange_heap s)(brk s \<mapsto> \<lparr>ex_name = Some (cstr nm), ex_type = type\<rparr>) \<and>
       msgs s' = msgs s \<and> threads s' = threads s) \<and> brk s' = Suc (brk s) \<and>
    (\<forall>nm'. broker_get_exchange (Some ba) (Some nm') s' =
      (if cstr nm' = cstr nm then Inr (Some (brk s)) else broker_get_exchange (Some ba) (Some nm') s))"
proof -
  have br: "brokers s ba = Some b" and len: "length (br_exchanges b) = MAX_EXCHANGES" "exchange_count b \<le> MAX_EXCHANGES"
    and es: "list_all (points_named (exchange_heap s) ex_name) (take (exchange_count b) (br_exchanges b))"
    using b by (simp_all add: broker_at_def)
  have w: "queues_ok s" "consumers_ok s" "addresses_ok s" using ok by (auto simp: broker_ok_def)
  have fresh: "exchange_heap s (brk s) = None" using w(3) by (simp add: addresses_ok_def)
  define e where "e = \<lparr>ex_name = Some (cstr nm), ex_type = type\<rparr>"
  define b' where "b' = b\<lparr>br_exchanges := (br_exchanges b)[exchange_count b := Some (brk s)],
      exchange_count := exchange_count b + 1\<rparr>"
  define s' where "s' = put_broker ba b' (s\<lparr>sys_calls := Suc (Suc (sys_calls s)),
      exchange_heap := (exchange_heap s)(brk s \<mapsto> e), brk := Suc (brk s)\<rparr>)"
  have find: "find_named (exchange_name_at s) (br_exchanges b) (exchange_count b) (cstr nm) = Inr None"
    using none br by (simp add: broker_get_exchange_def)
  have res: "broker_create_exchange (Some ba) (Some nm) type s = Inr (Some (brk s), s')"
    using br find room len fine
    by (simp add: broker_create_exchange_def arr_put_Inr s'_def b'_def e_def sys_malloc_def strdup_def
        sys_try_def sys_fine_def Let_def)
  have heaps: "exchange_heap s' = (exchange_heap s)(brk s \<mapsto> e)" "queues s' = queues s"
    "binding_heap s' = binding_heap s" "brokers s' = (brokers s)(ba \<mapsto> b')" "msgs s' = msgs s"
    "brk s' = Suc (brk s)" "sys_ok s' = sys_ok s"
    by (simp_all add: s'_def)
  have qok: "queues_ok s'" by (rule same_queues_ok [OF _ _ _ w(1)]) (simp_all add: heaps)
  have t: "take (exchange_count b') (br_exchanges b') = take (exchange_count b) (br_exchanges b) @ [Some (brk s)]"
    using room len take_snoc_entry [of "exchange_count b" "br_exchanges b" "Some (brk s)"] by (simp add: b'_def)
  have grow: "exchange_heap s a = Some x \<Longrightarrow> exchange_heap s' a = Some x" for a x
    using fresh by (auto simp: heaps)
  have "broker_at ba (s'\<lparr>brokers := (brokers s)(ba \<mapsto> b)\<rparr>) b"
    by (rule broker_at_mono [OF b]) (use grow in \<open>auto simp: heaps\<close>)
  then have at: "broker_at ba s' b'"
    using t room len fresh_entry(1) [OF es fresh] unfolding broker_at_def
    by (simp add: heaps) (simp add: b'_def points_named_def e_def)
  have "addresses_ok s'"
  proof -
    have "ba < brk s" using w(3) br by (metis addresses_ok_def not_less option.distinct(1))
    with w(3) show ?thesis by (auto simp: addresses_ok_def heaps)
  qed
  moreover have "consumers_ok s'"
    using w(2) by (simp add: s'_def) (simp add: consumers_ok_def)
  ultimately have bok: "broker_ok ba s'" using qok at by (auto simp: broker_ok_def)
  have "broker_get_exchange (Some ba) (Some nm') s' =
      (if cstr nm' = cstr nm then Inr (Some (brk s)) else broker_get_exchange (Some ba) (Some nm') s)" for nm'
  proof -
    have fc: "first_named (exchange_heap s') ex_name (take (exchange_count b) (br_exchanges b)) n =
        first_named (exchange_heap s) ex_name (take (exchange_count b) (br_exchanges b)) n" for n
      by (rule first_named_cong [OF _ es]) (use es fresh in \<open>auto simp: heaps list_all_iff points_named_def\<close>)
    have "list_all (points_named (exchange_heap s') ex_name) (take (exchange_count b) (br_exchanges b))"
      using es grow by (auto simp: list_all_iff intro: points_named_mono)
    from first_named_snoc [OF this, of "brk s" "cstr nm'"] fc
    have "first_named (exchange_heap s') ex_name (take (exchange_count b') (br_exchanges b')) (cstr nm') =
        (case first_named (exchange_heap s) ex_name (take (exchange_count b) (br_exchanges b)) (cstr nm') of
           None \<Rightarrow> if cstr nm' = cstr nm then Some (brk s) else None | Some b \<Rightarrow> Some b)"
      unfolding t by (simp add: heaps(1) e_def eq_commute)
    moreover have "first_named (exchange_heap s) ex_name (take (exchange_count b) (br_exchanges b)) (cstr nm) = None"
      using none get_exchange_eq [OF b, of nm] by simp
    ultimately show ?thesis
      using get_exchange_eq [OF at, of nm'] get_exchange_eq [OF b, of nm'] by (auto split: option.splits)
  qed
  moreover have "sys_fine s'" using fine by (simp add: sys_fine_def heaps)
  moreover have "threads s' = threads s" by (simp add: s'_def put_broker_def)
  moreover have "bindings_of s' b' = bindings_of s b" by (simp add: bindings_of_def heaps b'_def)
  ultimately show ?thesis
    using res bok at heaps
    by (intro exI [of _ s'] conjI exI [of _ b']) (simp_all add: b'_def e_def)
qed

text \<open>The two tables; a queue's capacity is one its array can have.\<close>

definition queue_table_ok :: "addr \<Rightarrow> nat \<Rightarrow> 'z bmem_scheme \<Rightarrow> bool" where
  "queue_table_ok ba cap s \<longleftrightarrow> broker_ok ba s \<and> sys_fine s \<and> 0 < cap \<and> cap * sizeof_ptr < 2 ^ 63"

definition exchange_table_ok :: "addr \<Rightarrow> 'z bmem_scheme \<Rightarrow> bool" where
  "exchange_table_ok ba s \<longleftrightarrow> broker_ok ba s \<and> sys_fine s"

interpretation queue_names: name_table
  "\<lambda>nm. broker_get_queue (Some ba) (Some nm)" "\<lambda>nm. broker_create_queue (Some ba) (Some nm) cap"
  cstr "queue_table_ok ba cap" for ba cap
proof
  fix nm nm' :: "char list" and a and s :: "'a bmem_scheme"
  show "cstr nm = cstr nm' \<Longrightarrow> broker_get_queue (Some ba) (Some nm) s = broker_get_queue (Some ba) (Some nm') s"
    by (simp add: broker_get_queue_def)
  assume ok: "queue_table_ok ba cap s"
  then obtain b where b: "broker_at ba s b" by (auto simp: queue_table_ok_def broker_ok_def)
  show "\<exists>p. broker_get_queue (Some ba) (Some nm) s = Inr p" using get_queue_eq [OF b] by simp
  have br: "brokers s ba = Some b" using b by (simp add: broker_at_def)
  show "broker_create_queue (Some ba) (Some nm) cap s = Inr (Some a, s)"
    if "broker_get_queue (Some ba) (Some nm) s = Inr (Some a)"
    using that br by (simp add: broker_get_queue_def broker_create_queue_def)
  assume none: "broker_get_queue (Some ba) (Some nm) s = Inr None"
  show "broker_create_queue (Some ba) (Some nm) cap s = Inr (None, s) \<or>
      (\<exists>a s'. broker_create_queue (Some ba) (Some nm) cap s = Inr (Some a, s') \<and> queue_table_ok ba cap s' \<and>
         (\<forall>nm'. broker_get_queue (Some ba) (Some nm') s' =
            (if cstr nm' = cstr nm then Inr (Some a) else broker_get_queue (Some ba) (Some nm') s)))"
  proof (cases "queue_count b < MAX_QUEUES")
    case True
    with create_queue_new [OF _ _ _ _ b none True, of cap] ok show ?thesis
      unfolding queue_table_ok_def by blast
  next
    case False
    with none br show ?thesis by (simp add: broker_get_queue_def broker_create_queue_def)
  qed
qed

interpretation exchange_names: name_table
  "\<lambda>nm. broker_get_exchange (Some ba) (Some nm)" "\<lambda>nm. broker_create_exchange (Some ba) (Some nm) type"
  cstr "exchange_table_ok ba" for ba type
proof
  fix nm nm' :: "char list" and a and s :: "'a bmem_scheme"
  show "cstr nm = cstr nm' \<Longrightarrow> broker_get_exchange (Some ba) (Some nm) s = broker_get_exchange (Some ba) (Some nm') s"
    by (simp add: broker_get_exchange_def)
  assume ok: "exchange_table_ok ba s"
  then obtain b where b: "broker_at ba s b" by (auto simp: exchange_table_ok_def broker_ok_def)
  show "\<exists>p. broker_get_exchange (Some ba) (Some nm) s = Inr p" using get_exchange_eq [OF b] by simp
  have br: "brokers s ba = Some b" using b by (simp add: broker_at_def)
  show "broker_create_exchange (Some ba) (Some nm) type s = Inr (Some a, s)"
    if "broker_get_exchange (Some ba) (Some nm) s = Inr (Some a)"
    using that br by (simp add: broker_get_exchange_def broker_create_exchange_def)
  assume none: "broker_get_exchange (Some ba) (Some nm) s = Inr None"
  show "broker_create_exchange (Some ba) (Some nm) type s = Inr (None, s) \<or>
      (\<exists>a s'. broker_create_exchange (Some ba) (Some nm) type s = Inr (Some a, s') \<and> exchange_table_ok ba s' \<and>
         (\<forall>nm'. broker_get_exchange (Some ba) (Some nm') s' =
            (if cstr nm' = cstr nm then Inr (Some a) else broker_get_exchange (Some ba) (Some nm') s)))"
  proof (cases "exchange_count b < MAX_EXCHANGES")
    case True
    with create_exchange_new [OF _ _ b none True, of type] ok show ?thesis
      unfolding exchange_table_ok_def by blast
  next
    case False
    with none br show ?thesis by (simp add: broker_get_exchange_def broker_create_exchange_def)
  qed
qed

text \<open>Creating a queue does not touch the table of exchanges.\<close>

lemma create_queue_exchanges:
  assumes b: "broker_at ba s b" and c: "broker_create_queue (Some ba) (Some nm) cap s = Inr (p, s')"
  shows "broker_get_exchange (Some ba) (Some nm') s' = broker_get_exchange (Some ba) (Some nm') s"
proof -
  have br: "brokers s ba = Some b" using b by (simp add: broker_at_def)
  have q: "exchange_heap t = exchange_heap s \<and> brokers t = brokers s"
    if "queue_create (Some nm) cap s = Inr (r, t)" for r t
    using that by (auto simp: queue_create_def sys_malloc_def strdup_def sys_try_def put_queue_def Let_def
        split: if_split_asm)
  show ?thesis
    using c br
    by (auto simp: broker_create_queue_def broker_get_exchange_def exchange_name_at_def [abs_def]
        split: if_split_asm dest!: q)
qed

subsection \<open>Creation of the broker and bindings\<close>

text \<open>The memory before the program's first call: nothing is allocated.\<close>

definition blank :: "'z bmem_scheme \<Rightarrow> bool" where
  "blank s \<longleftrightarrow>
     msgs s = Map.empty \<and> queues s = Map.empty \<and> exchange_heap s = Map.empty \<and>
     binding_heap s = Map.empty \<and> brokers s = Map.empty \<and>
     consumers s = replicate MAX_CONNECTIONS zero_consumer \<and> consumer_count s = 0 \<and>
     client_connections s = replicate MAX_CONNECTIONS zero_connection \<and> threads s = []"

lemma broker_create_ok:
  assumes "blank s" and "sys_fine s"
  shows "\<exists>s' b. broker_create s = Inr (Some (brk s), s') \<and> broker_ok (brk s) s' \<and> sys_fine s' \<and>
    broker_at (brk s) s' b \<and> queue_count b = 0 \<and> exchange_count b = 0 \<and> binding_count b = 0 \<and>
    br_running b = 0 \<and> threads s' = [] \<and> queues s' = Map.empty \<and> exchange_heap s' = Map.empty \<and>
    msgs s' = Map.empty"
proof -
  let ?b = "\<lparr>br_queues = replicate MAX_QUEUES None, br_exchanges = replicate MAX_EXCHANGES None,
      br_bindings = replicate MAX_BINDINGS None, queue_count = 0, exchange_count = 0,
      binding_count = 0, br_running = 0, event_loop_thread = False\<rparr>"
  define s' where "s' = put_broker (brk s) ?b (s\<lparr>sys_calls := Suc (Suc (sys_calls s)), brk := Suc (brk s)\<rparr>)"
  have c: "broker_create s = Inr (Some (brk s), s')"
    using assms(2) by (simp add: broker_create_def sys_malloc_def sys_try_def sys_fine_def s'_def Let_def)
  have heaps: "msgs s' = Map.empty" "queues s' = Map.empty" "exchange_heap s' = Map.empty"
    "binding_heap s' = Map.empty" "brokers s' = [brk s \<mapsto> ?b]" "brk s' = Suc (brk s)" "sys_ok s' = sys_ok s"
    using assms(1) by (simp_all add: s'_def blank_def)
  have at: "broker_at (brk s) s' ?b" by (simp add: broker_at_def heaps)
  have "threads s' = []" using assms(1) by (simp add: s'_def blank_def put_broker_def)
  moreover have "queues_ok s'" by (simp add: queues_ok_def heap_ok_def heaps)
  moreover have "consumers_ok s'"
    using assms(1) unfolding s'_def by simp (simp add: consumers_ok_def blank_def MAX_CONNECTIONS_def zero_consumer_def)
  moreover have "addresses_ok s'" by (auto simp: addresses_ok_def heaps)
  ultimately show ?thesis
    using c at assms(2) heaps by (intro exI [of _ s'] exI [of _ ?b]) (auto simp: broker_ok_def sys_fine_def)
qed

lemma broker_bind_ok:
  assumes ok: "broker_ok ba s" and fine: "sys_fine s" and b: "broker_at ba s b"
    and e: "points_named (exchange_heap s) ex_name (Some ea)" and q: "points_named (queues s) q_name (Some qa)"
    and room: "binding_count b < MAX_BINDINGS"
  shows "\<exists>s' b'. broker_bind_queue (Some ba) (Some ea) (Some qa) key s = Inr (True, s') \<and> broker_ok ba s' \<and>
    sys_fine s' \<and> broker_at ba s' b' \<and> binding_count b' = Suc (binding_count b) \<and>
    bindings_of s' b' = bindings_of s b @ [\<lparr>b_exchange = ea, b_queue = qa, b_routing_key = map_option cstr key\<rparr>] \<and>
    queues s' = queues s \<and> exchange_heap s' = exchange_heap s \<and> msgs s' = msgs s \<and>
    br_queues b' = br_queues b \<and> queue_count b' = queue_count b \<and>
    br_exchanges b' = br_exchanges b \<and> exchange_count b' = exchange_count b \<and>
    br_running b' = br_running b \<and> threads s' = threads s"
proof -
  have br: "brokers s ba = Some b" and len: "length (br_bindings b) = MAX_BINDINGS" "binding_count b \<le> MAX_BINDINGS"
    and bs: "list_all (binding_ok s) (take (binding_count b) (br_bindings b))"
    using b by (simp_all add: broker_at_def)
  have w: "queues_ok s" "consumers_ok s" "addresses_ok s" using ok by (auto simp: broker_ok_def)
  have fresh: "binding_heap s (brk s) = None" using w(3) by (simp add: addresses_ok_def)
  define bd where "bd = \<lparr>b_exchange = ea, b_queue = qa, b_routing_key = map_option cstr key\<rparr>"
  define k where "k = (case key of None \<Rightarrow> Suc (sys_calls s) | Some _ \<Rightarrow> Suc (Suc (sys_calls s)))"
  define b' where "b' = b\<lparr>br_bindings := (br_bindings b)[binding_count b := Some (brk s)],
      binding_count := binding_count b + 1\<rparr>"
  define s' where "s' = put_broker ba b' (s\<lparr>sys_calls := k,
      binding_heap := (binding_heap s)(brk s \<mapsto> bd), brk := Suc (brk s)\<rparr>)"
  have heaps: "binding_heap s' = (binding_heap s)(brk s \<mapsto> bd)" "queues s' = queues s"
    "exchange_heap s' = exchange_heap s" "brokers s' = (brokers s)(ba \<mapsto> b')" "msgs s' = msgs s"
    "brk s' = Suc (brk s)" "sys_ok s' = sys_ok s"
    by (simp_all add: s'_def)
  obtain n1 n2 where "queue_name_at s' (Some qa) = Inr n1" "exchange_name_at s' (Some ea) = Inr n2"
    using e q by (auto simp: queue_name_at_def exchange_name_at_def heaps points_named_def)
  then have res: "broker_bind_queue (Some ba) (Some ea) (Some qa) key s = Inr (True, s')"
    using br room len fine
    by (cases key) (simp_all add: broker_bind_queue_def arr_put_Inr sys_malloc_def strdup_def sys_try_def
        sys_fine_def Let_def s'_def b'_def bd_def k_def)
  have qok: "queues_ok s'" by (rule same_queues_ok [OF _ _ _ w(1)]) (simp_all add: heaps)
  have t: "take (binding_count b') (br_bindings b') = take (binding_count b) (br_bindings b) @ [Some (brk s)]"
    using room len take_snoc_entry [of "binding_count b" "br_bindings b" "Some (brk s)"] by (simp add: b'_def)
  have grow: "binding_heap s a = Some x \<Longrightarrow> binding_heap s' a = Some x" for a x
    using fresh by (auto simp: heaps)
  have "broker_at ba (s'\<lparr>brokers := (brokers s)(ba \<mapsto> b)\<rparr>) b"
    by (rule broker_at_mono [OF b]) (use grow in \<open>auto simp: heaps\<close>)
  moreover have "binding_ok s' (Some (brk s))"
    using e q by (simp add: binding_ok_def heaps bd_def)
  ultimately have at: "broker_at ba s' b'"
    using t room len fresh_entry(2) [OF bs fresh] unfolding broker_at_def by (simp add: heaps) (simp add: b'_def)
  have "addresses_ok s'"
  proof -
    have "ba < brk s" using w(3) br by (metis addresses_ok_def not_less option.distinct(1))
    with w(3) show ?thesis by (auto simp: addresses_ok_def heaps)
  qed
  moreover have "consumers_ok s'"
    using w(2) by (simp add: s'_def) (simp add: consumers_ok_def)
  ultimately have bok: "broker_ok ba s'" using qok at by (auto simp: broker_ok_def)
  have "bindings_of s' b' = bindings_of s b @ [bd]"
  proof -
    have "map (\<lambda>p. the (binding_heap s' (the p))) (take (binding_count b) (br_bindings b)) = bindings_of s b"
      unfolding bindings_of_def
      by (rule map_cong [OF refl]) (use bs grow in \<open>auto simp: list_all_iff binding_ok_def\<close>)
    then show ?thesis unfolding bindings_of_def t by (simp add: heaps bindings_of_def)
  qed
  moreover have "threads s' = threads s" by (simp add: s'_def put_broker_def)
  ultimately show ?thesis
    using res bok at fine heaps
    by (intro exI [of _ s'] exI [of _ b']) (simp add: b'_def bd_def sys_fine_def)
qed

end
