(* ===== verification/Broker_Handler.thy ===== *)
theory Broker_Handler
  imports Broker_Publish Broker_Names
begin

text \<open>
  The threads that serve clients in \<open>src/core/broker.c\<close>: one pass of
  \<open>client_handler_thread\<close> over each kind of message, the registration of consumers and the
  forwarding to them, and the slots of the network thread.
\<close>

subsection \<open>Received messages\<close>

text \<open>What the handler has in memory once it has received a message.\<close>

definition received :: "Message \<Rightarrow> nat \<Rightarrow> sockets \<Rightarrow> 'z bmem_scheme \<Rightarrow> 'z bmem_scheme" where
  "received m k n s = (with_message m k s)\<lparr>net := n\<rparr>"

definition registration :: "Message \<Rightarrow> bool" where
  "registration m \<longleftrightarrow> exchange m = Some ''consumer'' \<and> routing_key m = Some ''register'' \<and> body m \<noteq> None"

text \<open>A handler's pass after a message has been received in full.\<close>

definition serving :: "nat \<Rightarrow> addr \<Rightarrow> 'z bmem_scheme \<Rightarrow> ClientConnection \<Rightarrow> Message \<Rightarrow> bool" where
  "serving i ba s conn m \<longleftrightarrow>
     i < length (client_connections s) \<and> client_connections s ! i = conn \<and> cc_running conn \<and>
     cc_broker conn = Some ba \<and> 0 \<le> cc_fd conn \<and> full_recvs (net s) \<and>
     (\<exists>rest. parse_message (inp (net s) (cc_fd conn)) = Some (m, rest))"

lemma received_fields [simp]:
  "msgs (received m k n s) = (msgs s)(brk s \<mapsto> m)" "brk (received m k n s) = Suc (brk s)"
  "sys_ok (received m k n s) = sys_ok s" "queues (received m k n s) = queues s"
  "brokers (received m k n s) = brokers s" "exchange_heap (received m k n s) = exchange_heap s"
  "consumers (received m k n s) = consumers s" "consumer_count (received m k n s) = consumer_count s"
  "client_connections (received m k n s) = client_connections s"
  by (simp_all add: received_def, simp_all add: with_message_def)

lemma handler_received:
  assumes sv: "serving i ba s conn m" and fine: "sys_fine s"
  shows "\<exists>k n. out n = out (net s) \<and> full_sends n = full_sends (net s) \<and> client_handler_thread i s =
    (if registration m
     then ebind (register_consumer (int i) (Some (registered_name (the (body m)) (body_size m))) (received m k n s))
       (\<lambda>(ok, s'). ebind (message_free (Some (brk s)) s') (\<lambda>s'. Inr (True, s')))
     else if is_consumer conn then ebind (message_free (Some (brk s)) (received m k n s)) (\<lambda>s'. Inr (True, s'))
     else
       ebind (broker_get_exchange (Some ba) (exchange m) s) (\<lambda>exch.
       if exch = None then ebind (message_free (Some (brk s)) (received m k n s)) (\<lambda>s'. Inr (True, s'))
       else ebind (broker_publish (Some ba) exch (Some (brk s)) (received m k n s)) (\<lambda>(ok, s').
         ebind (deref (msgs s') (Some (brk s))) (\<lambda>_. Inr (True, s')))))"
proof -
  obtain rest where c: "i < length (client_connections s)" "client_connections s ! i = conn" "cc_running conn"
    "cc_broker conn = Some ba" "0 \<le> cc_fd conn" "full_recvs (net s)"
    "parse_message (inp (net s) (cc_fd conn)) = Some (m, rest)"
    using sv by (auto simp: serving_def)
  from receive_message_full [OF c(6) fine c(5,7)] obtain k n where
    r: "receive_message_data (cc_fd conn) s (net s) =
      Inr (Some (brk s), with_message m k s, consumed (cc_fd conn) rest n (net s))"
    by (auto simp: with_message_def)
  have m: "msg_complete m" by (rule parse_message_complete [OF c(7)])
  then obtain ex rk where e: "exchange m = Some ex" "routing_key m = Some rk"
    by (auto simp: msg_complete_def)
  have bodies: "(body m \<noteq> None \<and> 0 < body_size m) = (body m \<noteq> None)"
    using m body_shape(2) [of m] by (auto simp: msg_complete_def split: if_splits)
  define n' where "n' = consumed (cc_fd conn) rest n (net s)"
  have get: "broker_get_exchange (Some ba) x (received m k n' s) = broker_get_exchange (Some ba) x s" for x
    by (simp add: broker_get_exchange_def exchange_name_at_def [abs_def] split: option.split)
  have "client_handler_thread i s =
     (if registration m
     then ebind (register_consumer (int i) (Some (registered_name (the (body m)) (body_size m))) (received m k n' s))
       (\<lambda>(ok, s'). ebind (message_free (Some (brk s)) s') (\<lambda>s'. Inr (True, s')))
     else if is_consumer conn then ebind (message_free (Some (brk s)) (received m k n' s)) (\<lambda>s'. Inr (True, s'))
     else
       ebind (broker_get_exchange (Some ba) (exchange m) s) (\<lambda>exch.
       if exch = None then ebind (message_free (Some (brk s)) (received m k n' s)) (\<lambda>s'. Inr (True, s'))
       else ebind (broker_publish (Some ba) exch (Some (brk s)) (received m k n' s)) (\<lambda>(ok, s').
         ebind (deref (msgs s') (Some (brk s))) (\<lambda>_. Inr (True, s')))))"
    using c(1-4) r e bodies get
    by (auto simp: client_handler_thread_def arr_get_Inr Let_def registration_def n'_def [symmetric]
        received_def [symmetric] cong: if_cong)
  moreover have "out n' = out (net s)" "full_sends n' = full_sends (net s)"
    by (simp_all add: n'_def) (simp add: consumed_def full_sends_def)
  ultimately show ?thesis by blast
qed

subsection \<open>A pass of the handler\<close>

lemma received_ok:
  assumes ok: "queues_ok s" and m: "msg_complete m"
  shows "queues_ok (received m k n s)" "unowned (received m k n s) = insert (brk s) (unowned s)"
    "contents (received m k n s) = contents s" "routing_frame s (received m k n s)"
proof -
  have "msg_ok m" using m by (simp add: msg_complete_def)
  note w = with_message_ok [OF ok this, of k]
  show "queues_ok (received m k n s)" "unowned (received m k n s) = insert (brk s) (unowned s)"
    "contents (received m k n s) = contents s"
    using w by (simp_all add: received_def)
  show "routing_frame s (received m k n s)"
    unfolding received_def by (rule frame_extra [OF with_message_frame [OF queues_okD(1) [OF ok]]])
qed

lemma brk_not_unowned: "queues_ok s \<Longrightarrow> brk s \<notin> unowned s"
  using brk_fresh [OF queues_okD(1), of s] by (auto simp: unowned_def)

lemma serving_complete: "serving i ba s conn m \<Longrightarrow> msg_complete m"
  by (auto simp: serving_def dest: parse_message_complete)

text \<open>The received message is published as a clone, and never freed.\<close>

lemma handler_publishes:
  assumes sv: "serving i ba s conn m" and fine: "sys_fine s" and ok: "queues_ok s" and cons: "consumers_ok s"
    and b: "broker_at ba s b" and prod: "\<not> is_consumer conn" "\<not> registration m"
    and get: "broker_get_exchange (Some ba) (exchange m) s = Inr (Some ea)"
    and spec: "spec_route (room_of s) m (targets s b ea (the (routing_key m))) (contents s) = (r, C)"
  shows "if r = 0 then client_handler_thread i s = Inl (DoubleFree (Suc (brk s)))
    else \<exists>s'. client_handler_thread i s = Inr (True, s') \<and> queues_ok s' \<and> contents s' = C \<and>
      unowned s' = (if r = 1 then {brk s, Suc (brk s)} else {brk s}) \<union> unowned s"
proof -
  have m: "msg_complete m" by (rule serving_complete [OF sv])
  from handler_received [OF sv fine] obtain k n where h: "client_handler_thread i s =
      ebind (broker_publish (Some ba) (Some ea) (Some (brk s)) (received m k n s)) (\<lambda>(ok, s').
         ebind (deref (msgs s') (Some (brk s))) (\<lambda>_. Inr (True, s')))"
    using prod get by auto
  define s1 where "s1 = received m k n s"
  note w = received_ok [OF ok m, of k n, folded s1_def]
  note fs = frame_simps [OF w(4)]
  have s1: "sys_fine s1" "msgs s1 (brk s) = Some m" "consumers_ok s1" "brk s1 = Suc (brk s)"
    using fine cons fs by (simp_all add: s1_def sys_fine_def)
  have e: "points_named (exchange_heap s1) ex_name (Some ea)"
    using get_exchange_points [OF b get] by (simp add: s1_def)
  have "room_of s1 = room_of s" by (rule ext) (rule fs(5))
  then have sp: "spec_route (room_of s1) m (targets s1 b ea (the (routing_key m))) (contents s1) = (r, C)"
    using spec fs(2) w(3) by simp
  note p = publish_cases [OF s1(1) w(1) s1(3,2) m frame_broker_at [OF w(4) b] e sp]
  show ?thesis
  proof (cases "r = 0")
    case True
    with p h s1 show ?thesis by (simp add: s1_def [symmetric])
  next
    case False
    with p obtain s2 where 2: "broker_publish (Some ba) (Some ea) (Some (brk s)) s1 = Inr (True, s2)"
      "queues_ok s2" "contents s2 = C" "msgs s2 (brk s) = Some m"
      "unowned s2 = (if r = 1 then insert (brk s1) (unowned s1) else unowned s1)" by auto
    then have "client_handler_thread i s = Inr (True, s2)" using h by (simp add: s1_def [symmetric])
    with 2 False w(2) s1(4) show ?thesis by auto
  qed
qed

text \<open>A message to an unknown exchange, or from a consumer, is dropped and freed.\<close>

lemma handler_drops:
  assumes sv: "serving i ba s conn m" and fine: "sys_fine s" and ok: "queues_ok s"
    and "\<not> registration m"
    and drop: "is_consumer conn \<or> broker_get_exchange (Some ba) (exchange m) s = Inr None"
  shows "\<exists>s'. client_handler_thread i s = Inr (True, s') \<and> queues_ok s' \<and> contents s' = contents s \<and>
    unowned s' = unowned s"
proof -
  have m: "msg_complete m" by (rule serving_complete [OF sv])
  from handler_received [OF sv fine] obtain k n where h: "client_handler_thread i s =
      ebind (message_free (Some (brk s)) (received m k n s)) (\<lambda>s'. Inr (True, s'))"
    using assms(4) drop by auto
  note w = received_ok [OF ok m, of k n]
  note f = free_unowned [OF w(1), of "brk s"]
  have "brk s \<in> unowned (received m k n s)" using w(2) by simp
  from f [OF this] h w(2,3) brk_not_unowned [OF ok] show ?thesis by simp
qed

text \<open>A registration adds the client to the consumers and frees the message.\<close>

lemma handler_registers:
  assumes sv: "serving i ba s conn m" and fine: "sys_fine s" and ok: "queues_ok s" and cons: "consumers_ok s"
    and "registration m" and free: "consumer_count s < MAX_CONNECTIONS"
  defines "nm \<equiv> strncpy_z 64 (take 63 (the (body m)))"
  shows "\<exists>s'. client_handler_thread i s = Inr (True, s') \<and> queues_ok s' \<and> consumers_ok s' \<and>
    contents s' = contents s \<and> unowned s' = unowned s \<and>
    consumer_count s' = Suc (consumer_count s) \<and>
    consumers s' = (consumers s)[consumer_count s := \<lparr>client_index = i, ci_queue_name = nm\<rparr>] \<and>
    client_connections s' = (client_connections s)[i := conn\<lparr>is_consumer := True, cc_queue_name := nm\<rparr>]"
proof -
  have m: "msg_complete m" by (rule serving_complete [OF sv])
  have lens: "length (consumers s) = MAX_CONNECTIONS" "length (client_connections s) = MAX_CONNECTIONS"
    using cons by (simp_all add: consumers_ok_def)
  have i: "i < MAX_CONNECTIONS" "client_connections s ! i = conn"
    using sv lens by (simp_all add: serving_def)
  have body: "length (the (body m)) = body_size m"
    using m assms(5) by (auto simp: msg_complete_def msg_ok_def registration_def)
  have nm: "strncpy_z 64 (registered_name (the (body m)) (body_size m)) = nm"
    using body by (simp add: nm_def registered_name_def)
  from handler_received [OF sv fine] obtain k n where h: "client_handler_thread i s =
      ebind (register_consumer (int i) (Some (registered_name (the (body m)) (body_size m))) (received m k n s))
       (\<lambda>(ok, s'). ebind (message_free (Some (brk s)) s') (\<lambda>s'. Inr (True, s')))"
    using assms(5) by auto
  define s1 where "s1 = received m k n s"
  note w = received_ok [OF ok m, of k n, folded s1_def]
  define s2 where "s2 = s1\<lparr>msgs := (msgs s1)(brk s := None)\<rparr>"
  define s3 where "s3 = s2\<lparr>consumers := (consumers s)[consumer_count s := \<lparr>client_index = i, ci_queue_name = nm\<rparr>],
      consumer_count := Suc (consumer_count s),
      client_connections := (client_connections s)[i := conn\<lparr>is_consumer := True, cc_queue_name := nm\<rparr>]\<rparr>"
  note f = free_unowned [OF w(1), of "brk s", folded s2_def]
  have u: "brk s \<in> unowned s1" using w(2) by simp
  have mm: "msgs s1 (brk s) = Some m" by (simp add: s1_def)
  define s4 where "s4 = s1\<lparr>consumers := (consumers s)[consumer_count s := \<lparr>client_index = i, ci_queue_name = nm\<rparr>],
      consumer_count := Suc (consumer_count s),
      client_connections := (client_connections s)[i := conn\<lparr>is_consumer := True, cc_queue_name := nm\<rparr>]\<rparr>"
  have reg: "register_consumer (int i) (Some (registered_name (the (body m)) (body_size m))) s1 = Inr (True, s4)"
  proof -
    have s1: "consumers s1 = consumers s" "consumer_count s1 = consumer_count s"
      "client_connections s1 = client_connections s" by (simp_all add: s1_def)
    have idx: "(int i < 0 \<or> int MAX_CONNECTIONS \<le> int i) = False" "nat (int i) = i"
      using i(1) by simp_all
    have put: "arr_put (consumers s) (consumer_count s) x = Inr ((consumers s)[consumer_count s := x])" for x
      using free lens(1) by (simp add: arr_put_Inr)
    have conns: "arr_get (client_connections s) i = Inr conn"
      "arr_put (client_connections s) i x = Inr ((client_connections s)[i := x])" for x
      using i lens(2) by (simp_all add: arr_get_Inr arr_put_Inr)
    show ?thesis
      using free i(1) unfolding register_consumer_def s1 idx option.sel nm Let_def put conns s4_def by simp
  qed
  have "s3 = s4\<lparr>msgs := (msgs s4)(brk s := None)\<rparr>" "msgs s4 (brk s) = Some m"
    using mm by (simp_all add: s2_def s3_def s4_def)
  then have "message_free (Some (brk s)) s4 = Inr s3" by (simp add: message_free_live)
  then have "client_handler_thread i s = Inr (True, s3)"
    using h reg by (simp add: s1_def [symmetric])
  moreover have "queues_ok s3" by (rule same_queues_ok [OF _ _ _ f(2) [OF u]]) (simp_all add: s3_def)
  moreover have "contents s3 = contents s" "unowned s3 = unowned s"
  proof -
    have "contents s3 = contents s2" by (simp add: contents_def fun_eq_iff s3_def split: option.split)
    then show "contents s3 = contents s" using f(4) [OF u] w(3) by simp
    have "unowned s3 = unowned s2" by (simp add: unowned_def all_held_def s3_def)
    then show "unowned s3 = unowned s" using f(3) [OF u] w(2) brk_not_unowned [OF ok] by simp
  qed
  moreover have "consumers_ok s3"
    using cons free i(1) by (auto simp: consumers_ok_def s3_def nth_list_update less_Suc_eq)
  ultimately show ?thesis by (intro exI [of _ s3]) (simp add: s3_def)
qed

subsection \<open>What the consumers get\<close>

text \<open>The descriptors of the live consumers of a queue, one per registration, in order.\<close>

definition live_consumer :: "'z bmem_scheme \<Rightarrow> string \<Rightarrow> ConsumerInfo \<Rightarrow> bool" where
  "live_consumer s nm c \<longleftrightarrow>
     ci_queue_name c = nm \<and> cc_fd (client_connections s ! client_index c) \<noteq> -1 \<and>
     cc_running (client_connections s ! client_index c)"

definition consumer_fds :: "'z bmem_scheme \<Rightarrow> string \<Rightarrow> int list" where
  "consumer_fds s nm =
     map (\<lambda>c. cc_fd (client_connections s ! client_index c))
       (filter (live_consumer s nm) (take (consumer_count s) (consumers s)))"

definition broadcast :: "byte list \<Rightarrow> int list \<Rightarrow> (int \<Rightarrow> byte list) \<Rightarrow> int \<Rightarrow> byte list" where
  "broadcast img fds os = foldl (\<lambda>os fd. os(fd := os fd @ img)) os fds"

lemma broadcast_snoc: "broadcast img (fds @ [fd]) os = (broadcast img fds os)(fd := broadcast img fds os fd @ img)"
  by (simp add: broadcast_def)

lemma broadcast_at: "broadcast img fds os fd = os fd @ concat (replicate (count_list fds fd) img)"
proof (induction fds rule: rev_induct)
  case (snoc x fds)
  have "concat (replicate n img) @ img = img @ concat (replicate n img)" for n
    by (induction n) simp_all
  note rot = this
  show ?case
  proof (cases "fd = x")
    case True
    with snoc rot show ?thesis by (simp add: broadcast_snoc)
  qed (simp add: broadcast_snoc snoc)
qed (simp add: broadcast_def)

lemma forward_full:
  assumes cons: "consumers_ok s" and m: "msgs s a = Some m" "wire_ok m" and full: "full_sends (net s)"
    and fds: "\<forall>fd\<in>set (consumer_fds s nm). 0 \<le> fd"
  shows "\<exists>n. forward_message_to_consumers (Some nm) (Some a) s = Inr (s\<lparr>net := n\<rparr>) \<and> full_sends n \<and>
    inp n = inp (net s) \<and> out n = broadcast (wire_image m) (consumer_fds s nm) (out (net s))"
proof -
  have mc: "msg_complete m" "length (the (exchange m)) < 2 ^ 32 - 1" "length (the (routing_key m)) < 2 ^ 32 - 1"
    using m(2) by (simp_all add: wire_ok_def)
  define fd_of :: "ConsumerInfo \<Rightarrow> int" where "fd_of c = cc_fd (client_connections s ! client_index c)" for c
  have loop: "\<exists>n f. for_loop (forward_to nm a s) [0..<k] (net s, 0) = Inr (n, f) \<and> full_sends n \<and>
      inp n = inp (net s) \<and> out n = broadcast (wire_image m)
        (map fd_of (filter (live_consumer s nm) (take k (consumers s)))) (out (net s))"
    if "k \<le> consumer_count s" for k
    using that
  proof (induction k)
    case 0
    show ?case using full by (simp add: broadcast_def)
  next
    case (Suc k)
    then obtain n f where 1: "for_loop (forward_to nm a s) [0..<k] (net s, 0) = Inr (n, f)" "full_sends n"
      "inp n = inp (net s)" "out n = broadcast (wire_image m)
        (map fd_of (filter (live_consumer s nm) (take k (consumers s)))) (out (net s))" by auto
    define c where "c = consumers s ! k"
    have k: "k < length (consumers s)" "client_index c < length (client_connections s)"
      using cons Suc.prems by (auto simp: consumers_ok_def c_def)
    have t: "take (Suc k) (consumers s) = take k (consumers s) @ [c]"
      using k(1) by (simp add: take_Suc_conv_app_nth c_def)
    show ?case
    proof (cases "live_consumer s nm c")
      case True
      have "c \<in> set (take (consumer_count s) (consumers s))"
        using Suc.prems k(1) by (auto simp: c_def in_set_conv_nth)
      then have "fd_of c \<in> set (consumer_fds s nm)"
        using True unfolding consumer_fds_def fd_of_def by auto
      then have "0 \<le> fd_of c" using fds by blast
      from send_message_full [OF 1(2) this m(1) mc] cut_body_id [OF m(2)] obtain j where
        "send_message_data (fd_of c) (Some a) s n = Inr (True, sent (fd_of c) (wire_image m) j n)" by auto
      then have "forward_to nm a s k (n, f) = Inr (sent (fd_of c) (wire_image m) j n, Suc f)"
        using True k by (simp add: forward_to_def arr_get_Inr c_def live_consumer_def fd_of_def)
      with 1 True show ?thesis
        unfolding t by (simp add: for_loop_append broadcast_snoc fun_upd_def)
    next
      case False
      then have "forward_to nm a s k (n, f) = Inr (n, f)"
        using k by (auto simp: forward_to_def arr_get_Inr c_def live_consumer_def)
      with 1 False show ?thesis unfolding t by (simp add: for_loop_append)
    qed
  qed
  from loop [OF order_refl] obtain n f where
    n: "for_loop (forward_to nm a s) [0..<consumer_count s] (net s, 0) = Inr (n, f)" "full_sends n"
      "inp n = inp (net s)" "out n = broadcast (wire_image m) (consumer_fds s nm) (out (net s))"
    by (auto simp: consumer_fds_def fd_of_def [abs_def])
  then have "forward_message_to_consumers (Some nm) (Some a) s = Inr (s\<lparr>net := n\<rparr>)"
    by (simp add: forward_message_to_consumers_def)
  with n(2-4) show ?thesis by blast
qed

end
