(* ===== verification/Broker_Slots.thy ===== *)
theory Broker_Slots
  imports Broker Frames
begin

text \<open>
  The server of \<open>src/core/broker.c\<close> as a state machine: its steps are the passes of the
  client handlers, of the accept loop and of the event loop, and the clock. The invariant
  is about the static array of client connections: the count of clients is the number of
  slots in use, and a slot in use stays in use.
\<close>

subsection \<open>What the operations of the other components leave alone\<close>

text \<open>Only the memory, the queues and the sockets differ.\<close>

definition core_step :: "'z bmem_scheme \<Rightarrow> 'z bmem_scheme \<Rightarrow> bool" where
  "core_step s s' \<longleftrightarrow>
     brokers s' = brokers s \<and> client_connections s' = client_connections s \<and>
     client_fds s' = client_fds s \<and> client_count s' = client_count s \<and>
     consumers s' = consumers s \<and> consumer_count s' = consumer_count s \<and>
     threads s' = threads s \<and> closed_fds s' = closed_fds s \<and> clock s' = clock s"

lemma core_step_refl [simp]: "core_step s s"
  by (simp add: core_step_def)

lemma core_step_trans: "core_step s t \<Longrightarrow> core_step t u \<Longrightarrow> core_step s u"
  by (simp add: core_step_def)

lemma core_step_net [simp]: "core_step s (s'\<lparr>net := n\<rparr>) = core_step s s'"
  by (simp add: core_step_def)

lemma mem_core: "mem_step s s' \<Longrightarrow> core_step s s'" for s :: "'z bmem_scheme"
  by (cases s; cases s') (simp add: mem_step_def core_step_def)

lemma put_queue_core [simp]: "core_step s (put_queue qa q s') = core_step s s'"
  by (simp add: core_step_def put_queue_def)

lemma try_enqueue_frame [frames]: "queue_try_enqueue qa m s = Inr (ok, s') \<Longrightarrow> core_step s s'"
  by (auto simp: queue_try_enqueue_def split: option.splits if_splits)

lemma forward_frame [frames]: "forward_message_to_consumers nm m s = Inr s' \<Longrightarrow> core_step s s'"
  by (auto simp: forward_message_to_consumers_def split: option.splits)

lemma route_to_queue_frame [frames]: "route_to_queue qa c (s, r) = Inr (s', r') \<Longrightarrow> core_step s s'"
  by (auto simp: route_to_queue_def split: if_splits
      dest!: message_clone_frame message_free_frame mem_core try_enqueue_frame forward_frame
      intro: core_step_trans)

lemma route_body_frame [frames]: "route_body b t ea c i (s, r) = Inr (s', r') \<Longrightarrow> core_step s s'"
  by (auto simp: route_body_def split: if_splits dest!: route_to_queue_frame)

lemma route_loop_frame [frames]:
  assumes "for_loop (route_body b t ea c) is (s, 0) = Inr (s', r)"
  shows "core_step s s'"
  using for_loop_partial [OF assms, of "\<lambda>(t, r). core_step s t"]
  by (auto dest: route_body_frame intro: core_step_trans)

lemma route_message_frame [frames]: "broker_route_message ba ea c s = Inr (r, s') \<Longrightarrow> core_step s s'"
  by (auto simp: broker_route_message_def split: if_splits
      dest!: message_free_frame mem_core route_loop_frame intro: core_step_trans)

lemma broker_publish_frame [frames]:
  assumes "broker_publish ba ea ma s = Inr (ok, s')"
  shows "core_step s s'"
proof -
  show ?thesis
  proof (cases "ba = None \<or> ea = None \<or> ma = None")
    case True
    with assms show ?thesis by (auto simp: broker_publish_def split: option.split_asm)
  next
    case False
    then obtain b e m where p: "ba = Some b" "ea = Some e" "ma = Some m" by auto
    with assms obtain c s1 where 1: "message_clone ma s = Inr (c, s1)"
      by (auto simp: broker_publish_def)
    have c1: "core_step s s1" by (rule mem_core [OF message_clone_frame [OF 1]])
    show ?thesis
    proof (cases c)
      case None
      with assms p 1 c1 show ?thesis by (simp add: broker_publish_def)
    next
      case (Some ca)
      with assms p 1 obtain r s2 where 2: "broker_route_message b e ca s1 = Inr (r, s2)"
        "if r = 0 then message_free c s2 = Inr s' else s' = s2"
        by (auto simp: broker_publish_def split: if_split_asm)
      have "core_step s s2" by (rule core_step_trans [OF c1 route_message_frame [OF 2(1)]])
      moreover have "core_step s2 s'"
        using 2(2) mem_core [OF message_free_frame, of c s2 s'] by (auto split: if_split_asm)
      ultimately show ?thesis by (rule core_step_trans)
    qed
  qed
qed

lemma timeout_body_frame [frames]:
  "timeout_body now limit i (q, s, r) = Inr (q', s', r') \<Longrightarrow> mem_step s s'"
  by (auto simp: timeout_body_def split: if_splits dest!: message_free_frame)

lemma timeouts_frame [frames]:
  assumes "queue_process_timeouts qa limit s = Inr s'"
  shows "core_step s s'"
proof -
  have "core_step s t" if "for_loop (timeout_body now limit) is (q, s, 0) = Inr (q', t, r)" for "is" now q q' t r
    using for_loop_partial [OF that, of "\<lambda>(q, t, r). core_step s t"]
    by (auto dest!: timeout_body_frame mem_core intro: core_step_trans)
  with assms show ?thesis
    by (auto simp: queue_process_timeouts_def split: option.splits if_splits)
qed

subsection \<open>The slots\<close>

text \<open>The descriptors in the slots, the count of clients and what has been closed.\<close>

definition slots_kept :: "'z bmem_scheme \<Rightarrow> 'z bmem_scheme \<Rightarrow> bool" where
  "slots_kept s s' \<longleftrightarrow>
     client_count s' = client_count s \<and> map cc_fd (client_connections s') = map cc_fd (client_connections s) \<and>
     client_fds s' = client_fds s \<and> closed_fds s' = closed_fds s \<and> threads s' = threads s \<and>
     brokers s' = brokers s"

lemma slots_kept_refl [simp]: "slots_kept s s"
  by (simp add: slots_kept_def)

lemma slots_kept_trans: "slots_kept s t \<Longrightarrow> slots_kept t u \<Longrightarrow> slots_kept s u"
  by (simp add: slots_kept_def)

lemma core_slots: "core_step s s' \<Longrightarrow> slots_kept s s'"
  by (simp add: core_step_def slots_kept_def)

lemma slots_kept_net: "slots_kept s (s'\<lparr>net := n\<rparr>) = slots_kept s s'"
  by (simp add: slots_kept_def)

lemma register_frame: "register_consumer i nm s = Inr (r, s') \<Longrightarrow> slots_kept s s'"
  by (auto simp: register_consumer_def slots_kept_def arr_get_def arr_put_def map_update Let_def
      split: if_split_asm) (metis length_map list_update_id nth_map)

lemma server_calls:
  "(\<And>p s' n'. slots_kept s s' \<Longrightarrow> P (p, s', n')) \<Longrightarrow> returns (receive_message_data fd s n) P"
  "(\<And>r s'. slots_kept s s' \<Longrightarrow> P1 (r, s')) \<Longrightarrow> returns (register_consumer i nm s) P1"
  "(\<And>s'. slots_kept s s' \<Longrightarrow> P2 s') \<Longrightarrow> returns (message_free p s) P2"
  "(\<And>r s'. slots_kept s s' \<Longrightarrow> P1 (r, s')) \<Longrightarrow> returns (broker_publish ba ea ma s) P1"
  "(\<And>s'. slots_kept s s' \<Longrightarrow> P2 s') \<Longrightarrow> returns (queue_process_timeouts qa limit s) P2"
  "(\<And>x. P3 x) \<Longrightarrow> returns r P3"
proof goal_cases
  case 1
  then show ?case by (auto intro!: returnsI dest!: receive_message_frame mem_core core_slots)
next
  case 2
  then show ?case by (auto intro!: returnsI dest!: register_frame)
next
  case 3
  then show ?case by (auto intro!: returnsI dest!: message_free_frame mem_core core_slots)
next
  case 4
  then show ?case by (auto intro!: returnsI dest!: broker_publish_frame core_slots)
next
  case 5
  then show ?case by (auto intro!: returnsI dest!: timeouts_frame core_slots)
next
  case 6
  then show ?case by (auto intro!: returnsI)
qed

lemma handler_slots: "client_handler_thread i s = Inr (r, s') \<Longrightarrow> slots_kept s s'"
proof -
  have "returns (client_handler_thread i s) (\<lambda>(r, s'). slots_kept s s')"
    unfolding client_handler_thread_def
    by (auto simp: Let_def slots_kept_def
        intro!: server_calls(1-4) server_calls(6) [of _ "arr_get _ _"] server_calls(6) [of _ "deref _ _"]
          server_calls(6) [of _ "str_eq _ _"] server_calls(6) [of _ "broker_get_exchange _ _ _"])
  then show "client_handler_thread i s = Inr (r, s') \<Longrightarrow> slots_kept s s'"
    by (auto dest: returnsD)
qed

lemma event_loop_slots:
  assumes "broker_event_loop ba t s = Inr (r, s')"
  shows "slots_kept s s'"
proof -
  have "slots_kept s u" if "for_loop (timeouts_at b) is s = Inr u" for b "is" u
    using that
    by (rule for_loop_partial)
      (auto simp: timeouts_at_def dest!: timeouts_frame core_slots intro: slots_kept_trans)
  with assms show ?thesis by (auto simp: broker_event_loop_def split: if_split_asm)
qed

text \<open>The slots in use.\<close>

definition used_slots :: "'z bmem_scheme \<Rightarrow> nat set" where
  "used_slots s = {i. i < length (client_connections s) \<and> cc_fd (client_connections s ! i) \<noteq> -1}"

definition slots_inv :: "'z bmem_scheme \<Rightarrow> bool" where
  "slots_inv s \<longleftrightarrow>
     length (client_connections s) = MAX_CONNECTIONS \<and> length (client_fds s) = MAX_CONNECTIONS \<and>
     client_count s = card (used_slots s)"

lemma used_slots_kept: "slots_kept s s' \<Longrightarrow> used_slots s' = used_slots s"
proof -
  assume k: "slots_kept s s'"
  then have m: "map cc_fd (client_connections s') = map cc_fd (client_connections s)"
    by (simp add: slots_kept_def)
  then have l: "length (client_connections s') = length (client_connections s)" by (metis length_map)
  have "cc_fd (client_connections s' ! i) = cc_fd (client_connections s ! i)"
    if "i < length (client_connections s)" for i
    using m l that by (metis nth_map)
  with l show ?thesis by (auto simp: used_slots_def)
qed

lemma slots_inv_kept: "slots_inv s \<Longrightarrow> slots_kept s s' \<Longrightarrow> slots_inv s'"
  using used_slots_kept [of s s'] unfolding slots_inv_def slots_kept_def by (metis length_map)

lemma used_finite [simp]: "finite (used_slots s)"
  by (rule finite_subset [of _ "{..<length (client_connections s)}"]) (auto simp: used_slots_def)

lemma used_bound: "slots_inv s \<Longrightarrow> client_count s \<le> MAX_CONNECTIONS"
proof -
  assume i: "slots_inv s"
  have "card (used_slots s) \<le> card {..<length (client_connections s)}"
    by (rule card_mono) (auto simp: used_slots_def)
  with i show ?thesis by (simp add: slots_inv_def)
qed

lemma free_slot_some: "free_slot s = Inr (Some i) \<Longrightarrow> i \<notin> used_slots s \<and> i < length (client_connections s)"
proof -
  have "for_find (\<lambda>i. ebind (arr_get (client_connections s) i) (\<lambda>c. Inr (if cc_fd c = -1 then Some i else None))) is
      = Inr (Some i) \<Longrightarrow> i \<notin> used_slots s \<and> i < length (client_connections s)" for "is"
    by (induction "is") (auto simp: arr_get_def used_slots_def split: if_split_asm)
  then show "free_slot s = Inr (Some i) \<Longrightarrow> i \<notin> used_slots s \<and> i < length (client_connections s)"
    by (simp add: free_slot_def)
qed

text \<open>What a pass of the accept loop does to the slots: it only ever takes one.\<close>

lemma accept_slots:
  assumes inv: "slots_inv s" and a: "network_accept ba fd s = Inr (r, s')" and fd: "fd \<noteq> -1"
  shows "slots_inv s' \<and> used_slots s \<subseteq> used_slots s' \<and>
    (\<forall>i\<in>used_slots s. cc_fd (client_connections s' ! i) = cc_fd (client_connections s ! i))"
proof -
  obtain b where b: "brokers s ba = Some b" using a by (auto simp: network_accept_def deref_Inr_iff)
  consider (same) "client_connections s' = client_connections s" "client_fds s' = client_fds s" "client_count s' = client_count s"
    | (slot) i where "free_slot s = Inr (Some i)" "br_running b \<noteq> 0" "\<not> fd < 0" "client_count s < MAX_CONNECTIONS"
  proof (cases "br_running b \<noteq> 0 \<and> \<not> fd < 0 \<and> client_count s < MAX_CONNECTIONS")
    case False
    then show ?thesis using a b by (intro same) (auto simp: network_accept_def close_fd_def split: if_split_asm)
  next
    case True
    with a b obtain slot where f: "free_slot s = Inr slot" by (auto simp: network_accept_def)
    show ?thesis
    proof (cases slot)
      case None
      with True a b f show ?thesis by (intro same) (simp_all add: network_accept_def)
    next
      case (Some i)
      with True f show ?thesis by (intro slot [of i]) simp_all
    qed
  qed
  then consider "client_connections s' = client_connections s" "client_fds s' = client_fds s" "client_count s' = client_count s"
    | i conn where "i \<notin> used_slots s" "i < length (client_connections s)" "cc_fd conn = -1"
        "client_connections s' = (client_connections s)[i := conn]" "client_fds s' = client_fds s"
        "client_count s' = client_count s"
    | i conn where "i \<notin> used_slots s" "i < length (client_connections s)" "cc_fd conn = fd"
        "client_connections s' = (client_connections s)[i := conn]"
        "client_fds s' = (client_fds s)[i := fd]" "client_count s' = Suc (client_count s)"
  proof cases
    case (slot i)
    note i = free_slot_some [OF slot(1)]
    let ?conn = "\<lparr>cc_fd = fd, is_consumer = False, cc_queue_name = [], cc_running = True, cc_broker = Some ba\<rparr>"
    show ?thesis
    proof (cases "sys_ok s (sys_calls s)")
      case True
      have "i < length (client_fds s)" using i inv by (simp add: slots_inv_def)
      with a b slot i True show ?thesis
        by (intro that(3) [of i ?conn]) (auto simp: network_accept_def sys_try_def arr_put_def Let_def)
    next
      case False
      with a b slot i show ?thesis
        by (intro that(2) [of i "?conn\<lparr>cc_fd := -1, cc_running := False\<rparr>"])
          (auto simp: network_accept_def sys_try_def arr_put_def close_fd_def Let_def)
    qed
  qed
  then show ?thesis
  proof cases
    case 1
    with inv show ?thesis by (simp add: slots_inv_def used_slots_def)
  next
    case 2
    then have "used_slots s' = used_slots s" by (auto simp: used_slots_def nth_list_update)
    with inv 2 show ?thesis by (auto simp: slots_inv_def nth_list_update)
  next
    case 3
    then have "used_slots s' = insert i (used_slots s)"
      using fd by (auto simp: used_slots_def nth_list_update)
    with inv 3 show ?thesis by (auto simp: slots_inv_def nth_list_update)
  qed
qed

subsection \<open>The server as a state machine\<close>

inductive server_step :: "addr \<Rightarrow> bmem \<Rightarrow> bmem \<Rightarrow> bool" for ba where
  serve: "client_handler_thread i s = Inr (r, s') \<Longrightarrow> server_step ba s s'"
| accepted: "fd \<noteq> -1 \<Longrightarrow> network_accept ba fd s = Inr (r, s') \<Longrightarrow> server_step ba s s'"
| timeouts: "broker_event_loop ba t s = Inr (r, s') \<Longrightarrow> server_step ba s s'"
| tick: "server_step ba s (s\<lparr>clock := t\<rparr>)"

inductive_cases server_stepE: "server_step ba s s'"

lemma server_step_slots:
  assumes "slots_inv s" and "server_step ba s s'"
  shows "slots_inv s' \<and> used_slots s \<subseteq> used_slots s'"
  using assms(2)
proof cases
  case (serve i r)
  from handler_slots [OF this] show ?thesis using slots_inv_kept [OF assms(1)] used_slots_kept by blast
next
  case (accepted fd r)
  with accept_slots [OF assms(1)] show ?thesis by blast
next
  case (timeouts t r)
  from event_loop_slots [OF this] show ?thesis using slots_inv_kept [OF assms(1)] used_slots_kept by blast
next
  case (tick t)
  with assms(1) show ?thesis by (simp add: slots_inv_def used_slots_def)
qed

text \<open>The server as its network thread starts it.\<close>

definition server_start :: "bmem \<Rightarrow> bool" where
  "server_start s \<longleftrightarrow>
     (\<exists>fd s0. length (client_connections s0) = MAX_CONNECTIONS \<and> network_start fd True True s0 = (True, s))"

interpretation slots: invariant_system server_start "server_step ba" slots_inv for ba
proof
  show "slots_inv s" if "server_start s" for s
    using that by (auto simp: server_start_def network_start_def slots_inv_def used_slots_def Let_def
        split: if_split_asm)
  show "slots_inv t" if "slots_inv s" "server_step ba s t" for s t
    using server_step_slots [OF that] by simp
qed

text \<open>No step ever frees a slot.\<close>

lemma slots_monotone:
  assumes "(server_step ba)\<^sup>*\<^sup>* s t" and "slots_inv s"
  shows "used_slots s \<subseteq> used_slots t"
  using assms(1)
proof (induction rule: rtranclp_induct)
  case (step t u)
  have "slots_inv t" by (rule slots.steps_inv [OF step(1) assms(2)])
  with server_step_slots [OF this step(2)] step.IH show ?case by blast
qed simp

text \<open>While a slot is free and every call of the system succeeds, a client gets one.\<close>

lemma free_slot_exists:
  assumes inv: "slots_inv s" and room: "client_count s < MAX_CONNECTIONS"
  shows "\<exists>i. free_slot s = Inr (Some i)"
proof -
  let ?P = "\<lambda>i. cc_fd (client_connections s ! i) = -1"
  have len: "length (client_connections s) = MAX_CONNECTIONS" using inv by (simp add: slots_inv_def)
  have "\<exists>i<MAX_CONNECTIONS. ?P i"
  proof (rule ccontr)
    assume "\<not> (\<exists>i<MAX_CONNECTIONS. ?P i)"
    then have "used_slots s = {..<MAX_CONNECTIONS}" using len by (auto simp: used_slots_def)
    with inv room show False by (simp add: slots_inv_def)
  qed
  then obtain i where i: "i < MAX_CONNECTIONS" "?P i" "\<And>j. j < i \<Longrightarrow> \<not> ?P j"
    using exists_least_iff [of "\<lambda>i. i < MAX_CONNECTIONS \<and> ?P i"] by (metis less_trans)
  have "free_slot s = Inr (Some i)"
    unfolding free_slot_def by (rule for_find_first [OF i(1)]) (use i len in \<open>auto simp: arr_get_def\<close>)
  then show ?thesis by blast
qed

lemma accept_room:
  assumes inv: "slots_inv s" and b: "brokers s ba = Some b" "br_running b \<noteq> 0" and fd: "0 \<le> fd"
    and room: "client_count s < MAX_CONNECTIONS" and fine: "sys_fine s"
  shows "\<exists>s'. network_accept ba fd s = Inr (True, s') \<and> client_count s' = Suc (client_count s) \<and>
    brokers s' = brokers s \<and> sys_fine s' \<and> slots_inv s'"
proof -
  from free_slot_exists [OF inv room] obtain i where f: "free_slot s = Inr (Some i)" by blast
  note i = free_slot_some [OF f]
  have len: "i < length (client_connections s)" "i < length (client_fds s)"
    using i inv by (simp_all add: slots_inv_def)
  have "\<exists>s'. network_accept ba fd s = Inr (True, s') \<and> client_count s' = Suc (client_count s) \<and>
      brokers s' = brokers s \<and> sys_fine s'"
    using b fd room f len fine
    by (simp add: network_accept_def sys_try_def arr_put_def sys_fine_def Let_def)
  moreover from this obtain s' where "network_accept ba fd s = Inr (True, s')" by blast
  ultimately show ?thesis using accept_slots [OF inv] fd by fastforce
qed

text \<open>A full table stays full.\<close>

lemma slots_full:
  assumes inv: "slots_inv s" and full: "client_count s = MAX_CONNECTIONS" and st: "(server_step ba)\<^sup>*\<^sup>* s t"
  shows "client_count t = MAX_CONNECTIONS \<and> used_slots t = {..<MAX_CONNECTIONS}"
proof -
  have t: "slots_inv t" by (rule slots.steps_inv [OF st inv])
  have sub: "used_slots u \<subseteq> {..<MAX_CONNECTIONS}" if "slots_inv u" for u :: bmem
    using that by (auto simp: used_slots_def slots_inv_def)
  have "card (used_slots s) = card {..<MAX_CONNECTIONS}" using inv full by (simp add: slots_inv_def)
  then have "used_slots s = {..<MAX_CONNECTIONS}" by (intro card_subset_eq sub [OF inv]) simp_all
  then have "used_slots t = {..<MAX_CONNECTIONS}" using slots_monotone [OF st inv] sub [OF t] by simp
  with t show ?thesis by (simp add: slots_inv_def)
qed

end
