(* ===== verification/Broker_Free.thy ===== *)
theory Broker_Free
  imports Broker_Names
begin

text \<open>
  The destruction of the broker of \<open>src/core/broker.c\<close>: \<open>broker_free\<close> on a well-formed broker
  does not fault and frees every queue, with the messages it owns, every exchange and every
  binding once.
\<close>

lemma queue_free_step:
  assumes ok: "queues_ok s" and q: "queues s qa = Some q"
  defines "s' \<equiv> (released (set (held q)) s)\<lparr>queues := (queues s)(qa := None)\<rparr>"
  shows "queue_free (Some qa) s = Inr s'" and "queues_ok s'" and "unowned s' = unowned s"
proof -
  note d = queues_okD [OF ok] and at = queues_okD(2) [OF ok q]
  show "queue_free (Some qa) s = Inr s'" unfolding s'_def by (rule queue_free_ok [OF at])
  have m: "msgs s' a = (if a \<in> set (held q) then None else msgs s a)" for a
    by (simp add: s'_def restrict_map_def released_def)
  have qs: "queues s' = (queues s)(qa := None)" by (simp add: s'_def)
  have "heap_ok s'" using d(1) m by (auto simp: heap_ok_def s'_def split: if_splits)
  moreover have "queue_at qb s' r" if "queues s' qb = Some r" for qb r
  proof -
    from that have r: "qb \<noteq> qa" "queues s qb = Some r" by (auto simp: qs split: if_splits)
    then have "set (held r) \<inter> set (held q) = {}" using d(3) [OF r(1) r(2) q] by simp
    then have "msgs s' a \<noteq> None" if "a \<in> set (held r)" for a
      using that queue_atD(8) [OF d(2) [OF r(2)] that] by (auto simp: m)
    then show ?thesis by (rule queue_at_frame [OF d(2) [OF r(2)] that])
  qed
  moreover have "set (held r1) \<inter> set (held r2) = {}"
    if "qb \<noteq> qc" "queues s' qb = Some r1" "queues s' qc = Some r2" for qb qc r1 r2
    using that d(3) [of qb qc r1 r2] by (auto simp: qs split: if_splits)
  ultimately show "queues_ok s'" unfolding queues_ok_def by blast
  have disj: "set (held r) \<inter> set (held q) = {}" if "queues s qb = Some r" "qb \<noteq> qa" for qb r
    using d(3) [OF that(2) that(1) q] by simp
  have "all_held s = all_held s' \<union> set (held q)"
  proof -
    have "ran (queues s) = insert q (ran (queues s'))"
      using q by (auto simp: qs ran_def split: if_splits) (metis option.inject)
    then show ?thesis by (auto simp: all_held_def)
  qed
  moreover have "all_held s' \<inter> set (held q) = {}"
    using disj by (auto simp: all_held_def ran_def qs split: if_splits)
  moreover have "dom (msgs s') = dom (msgs s) - set (held q)" by (auto simp: m split: if_splits)
  ultimately show "unowned s' = unowned s" unfolding unowned_def by blast
qed

text \<open>What the three loops of \<open>broker_free\<close> leave alone.\<close>

definition free_frame :: "'z bmem_scheme \<Rightarrow> 'z bmem_scheme \<Rightarrow> bool" where
  "free_frame s s' \<longleftrightarrow>
     brokers s' = brokers s \<and> threads s' = threads s \<and> client_connections s' = client_connections s"

lemma free_queues_loop:
  assumes ok: "queues_ok s" and qs: "list_all (points_named (queues s) q_name) (take n (br_queues b))"
    and dist: "distinct (take n (br_queues b))" and n: "n \<le> length (br_queues b)"
  shows "\<exists>s'. for_loop (free_queue_at b) [0..<n] s = Inr s' \<and> queues_ok s' \<and> unowned s' = unowned s \<and>
    queues s' = queues s |` (- {qa. Some qa \<in> set (take n (br_queues b))}) \<and>
    exchange_heap s' = exchange_heap s \<and> binding_heap s' = binding_heap s \<and> free_frame s s'"
  using qs dist n
proof (induction n)
  case 0
  show ?case using ok by (simp add: free_frame_def)
next
  case (Suc n)
  let ?F = "\<lambda>n. {qa. Some qa \<in> set (take n (br_queues b))}"
  have len: "n < length (br_queues b)" using Suc.prems(3) by simp
  have t: "take (Suc n) (br_queues b) = take n (br_queues b) @ [br_queues b ! n]"
    by (rule take_Suc_conv_app_nth [OF len])
  obtain qa q where qa: "br_queues b ! n = Some qa" "queues s qa = Some q"
    using Suc.prems(1) unfolding t by (auto simp: points_named_def)
  from Suc.IH Suc.prems obtain s1 where 1: "for_loop (free_queue_at b) [0..<n] s = Inr s1" "queues_ok s1"
    "unowned s1 = unowned s" "queues s1 = queues s |` (- ?F n)" "exchange_heap s1 = exchange_heap s"
    "binding_heap s1 = binding_heap s" "free_frame s s1"
    unfolding t by auto
  have "qa \<notin> ?F n" using Suc.prems(2) qa(1) unfolding t by simp
  then have q1: "queues s1 qa = Some q" using 1(4) qa(2) by simp
  note f = queue_free_step [OF 1(2) q1]
  define s2 where "s2 = (released (set (held q)) s1)\<lparr>queues := (queues s1)(qa := None)\<rparr>"
  have "for_loop (free_queue_at b) [0..<Suc n] s = Inr s2"
    using 1(1) f(1) qa(1) len by (simp add: for_loop_append free_queue_at_def arr_get_Inr s2_def)
  moreover have "queues s2 = queues s |` (- ?F (Suc n))"
    using qa(1) unfolding t by (auto simp: s2_def 1(4) restrict_map_def fun_eq_iff)
  moreover have "free_frame s s2" "exchange_heap s2 = exchange_heap s" "binding_heap s2 = binding_heap s"
    using 1(5-7) by (simp_all add: free_frame_def s2_def released_def)
  ultimately show ?case using f(2,3) 1(3) unfolding s2_def by auto
qed

lemma free_heap_loop:
  assumes step: "\<And>i t. i < n \<Longrightarrow> act i t = ebind (arr_get arr i) (\<lambda>p. ebind (deref (get t) p) (\<lambda>_.
      Inr (put ((get t)(the p := None)) t)))"
    and get: "\<And>h t. get (put h t) = h" and put: "\<And>h h' t. put h (put h' t) = put h t" "\<And>t. put (get t) t = t"
    and ok: "\<And>p. p \<in> set (take n arr) \<Longrightarrow> \<exists>a. p = Some a \<and> get s a \<noteq> None"
    and dist: "distinct (take n arr)" and n: "n \<le> length arr"
  shows "for_loop act [0..<n] s = Inr (put (get s |` (- {a. Some a \<in> set (take n arr)})) s)"
proof -
  have "for_loop act [0..<k] s = Inr (put (get s |` (- {a. Some a \<in> set (take k arr)})) s)" if "k \<le> n" for k
    using that
  proof (induction k)
    case 0
    show ?case using put(2) [of s] by simp
  next
    case (Suc k)
    then have k: "k < length arr" "k < n" using n by auto
    have t: "take (Suc k) arr = take k arr @ [arr ! k]" by (rule take_Suc_conv_app_nth [OF k(1)])
    have sub: "set (take k arr) \<subseteq> set (take n arr)" "arr ! k \<in> set (take n arr)"
      using k by (auto simp: set_take_subset_set_take in_set_conv_nth)
    then obtain a x where a: "arr ! k = Some a" "get s a = Some x" using ok by blast
    have "distinct (take (Suc k) arr)"
      using dist k(2) by (metis Suc_leI distinct_take min.absorb1 take_take)
    then have "Some a \<notin> set (take k arr)" using a(1) unfolding t by simp
    then have "act k (put (get s |` (- {a. Some a \<in> set (take k arr)})) s) =
        Inr (put ((get s |` (- {a. Some a \<in> set (take k arr)}))(a := None)) s)"
      using step [OF k(2)] a k(1) by (simp add: arr_get_Inr get put(1) deref_def)
    moreover have "(get s |` (- {a. Some a \<in> set (take k arr)}))(a := None) =
        get s |` (- {a. Some a \<in> set (take (Suc k) arr)})"
      unfolding t by (auto simp: a(1) restrict_map_def fun_eq_iff)
    ultimately show ?case using Suc by (simp add: for_loop_append)
  qed
  then show ?thesis by simp
qed

lemma broker_free_ok:
  assumes ok: "queues_ok s" and b: "broker_at ba s b" and run: "br_running b = 0"
  shows "\<exists>s'. broker_free (Some ba) s = Inr s' \<and> queues_ok s' \<and> unowned s' = unowned s \<and>
    queues s' = queues s |` (- {a. Some a \<in> set (take (queue_count b) (br_queues b))}) \<and>
    exchange_heap s' = exchange_heap s |` (- {a. Some a \<in> set (take (exchange_count b) (br_exchanges b))}) \<and>
    binding_heap s' = binding_heap s |` (- {a. Some a \<in> set (take (binding_count b) (br_bindings b))}) \<and>
    brokers s' = (brokers s)(ba := None) \<and> threads s' = threads s"
proof -
  have w: "brokers s ba = Some b"
    "list_all (points_named (queues s) q_name) (take (queue_count b) (br_queues b))"
    "list_all (points_named (exchange_heap s) ex_name) (take (exchange_count b) (br_exchanges b))"
    "list_all (binding_ok s) (take (binding_count b) (br_bindings b))"
    "distinct (take (queue_count b) (br_queues b))" "distinct (take (exchange_count b) (br_exchanges b))"
    "distinct (take (binding_count b) (br_bindings b))" "queue_count b \<le> length (br_queues b)"
    "exchange_count b \<le> length (br_exchanges b)" "binding_count b \<le> length (br_bindings b)"
    using b by (simp_all add: broker_at_def)
  from free_queues_loop [OF ok w(2,5,8)] obtain s1 where 1:
    "for_loop (free_queue_at b) [0..<queue_count b] s = Inr s1" "queues_ok s1" "unowned s1 = unowned s"
    "queues s1 = queues s |` (- {a. Some a \<in> set (take (queue_count b) (br_queues b))})"
    "exchange_heap s1 = exchange_heap s" "binding_heap s1 = binding_heap s" "free_frame s s1" by blast
  define s2 where "s2 = s1\<lparr>exchange_heap := exchange_heap s |` (- {a. Some a \<in> set (take (exchange_count b) (br_exchanges b))})\<rparr>"
  have 2: "for_loop (free_exchange_at b) [0..<exchange_count b] s1 = Inr s2"
  proof -
    have "for_loop (free_exchange_at b) [0..<exchange_count b] s1 =
        Inr (exchange_heap_update (\<lambda>_. exchange_heap s1 |` (- {a. Some a \<in> set (take (exchange_count b) (br_exchanges b))})) s1)"
      by (rule free_heap_loop [where get = exchange_heap and put = "\<lambda>h. exchange_heap_update (\<lambda>_. h)"])
        (use w(3,6,9) 1(5) in \<open>auto simp: free_exchange_at_def list_all_iff points_named_def\<close>)
    then show ?thesis by (simp add: s2_def 1(5))
  qed
  define s3 where "s3 = s2\<lparr>binding_heap := binding_heap s |` (- {a. Some a \<in> set (take (binding_count b) (br_bindings b))})\<rparr>"
  have 3: "for_loop (free_binding_at b) [0..<binding_count b] s2 = Inr s3"
  proof -
    have "for_loop (free_binding_at b) [0..<binding_count b] s2 =
        Inr (binding_heap_update (\<lambda>_. binding_heap s2 |` (- {a. Some a \<in> set (take (binding_count b) (br_bindings b))})) s2)"
      by (rule free_heap_loop [where get = binding_heap and put = "\<lambda>h. binding_heap_update (\<lambda>_. h)"])
        (use w(4,7,10) 1(6) in \<open>auto simp: free_binding_at_def s2_def list_all_iff binding_ok_def\<close>)
    then show ?thesis by (simp add: s2_def s3_def 1(6))
  qed
  define s4 where "s4 = s3\<lparr>brokers := (brokers s3)(ba := None)\<rparr>"
  have "broker_free (Some ba) s = Inr s4"
    using w(1) run 1(1) 2 3 by (simp add: broker_free_def s4_def)
  moreover have "queues_ok s4"
    by (rule same_queues_ok [OF _ _ _ 1(2)]) (simp_all add: s4_def s3_def s2_def)
  moreover have "unowned s4 = unowned s"
    using 1(3) by (simp add: unowned_def all_held_def s4_def s3_def s2_def)
  ultimately show ?thesis
    using 1(4,7) by (intro exI [of _ s4]) (simp add: s4_def s3_def s2_def free_frame_def)
qed

text \<open>Stopping a running broker only clears the flag and joins the event loop.\<close>

lemma broker_stop_ok:
  assumes "broker_ok ba s" and b: "broker_at ba s b" and "br_running b \<noteq> 0" and "event_loop_thread b"
  shows "\<exists>s'. broker_stop (Some ba) s = Inr (True, s') \<and> broker_ok ba s' \<and>
    broker_at ba s' (b\<lparr>br_running := 0\<rparr>) \<and> threads s' = remove1 (Event_Loop ba) (threads s) \<and>
    queues s' = queues s \<and> msgs s' = msgs s \<and> exchange_heap s' = exchange_heap s \<and>
    binding_heap s' = binding_heap s"
proof -
  define s' where "s' = (put_broker ba (b\<lparr>br_running := 0\<rparr>) s)\<lparr>threads := remove1 (Event_Loop ba) (threads s)\<rparr>"
  have br: "brokers s ba = Some b" using b by (simp add: broker_at_def)
  have "broker_stop (Some ba) s = Inr (True, s')"
    using br assms(3,4) by (simp add: broker_stop_def s'_def)
  moreover have heaps: "queues s' = queues s" "exchange_heap s' = exchange_heap s" "binding_heap s' = binding_heap s"
    "brokers s' = (brokers s)(ba \<mapsto> b\<lparr>br_running := 0\<rparr>)" "msgs s' = msgs s" "brk s' = brk s"
    by (simp_all add: s'_def)
  moreover have at: "broker_at ba s' (b\<lparr>br_running := 0\<rparr>)"
  proof -
    have "binding_ok s' = binding_ok s" by (simp add: binding_ok_def fun_eq_iff heaps)
    with b show ?thesis unfolding broker_at_def by (simp add: heaps)
  qed
  moreover have "broker_ok ba s'"
  proof -
    have "queues_ok s" "consumers_ok s" "addresses_ok s" using assms(1) by (simp_all add: broker_ok_def)
    moreover have "ba < brk s" using \<open>addresses_ok s\<close> br by (metis addresses_ok_def not_less option.distinct(1))
    ultimately have "addresses_ok s'" by (auto simp: addresses_ok_def heaps)
    moreover have "consumers_ok s'" using \<open>consumers_ok s\<close> by (simp add: s'_def) (simp add: consumers_ok_def put_broker_def)
    moreover have "queues_ok s'" by (rule same_queues_ok [OF _ _ _ \<open>queues_ok s\<close>]) (simp_all add: heaps)
    ultimately show ?thesis using at by (auto simp: broker_ok_def)
  qed
  ultimately show ?thesis by (intro exI [of _ s']) (simp add: s'_def)
qed

text \<open>Starting a stopped broker sets the flag and creates the two threads.\<close>

lemma broker_start_ok:
  assumes "broker_ok ba s" and b: "broker_at ba s b" and "br_running b = 0" and fine: "sys_fine s"
  shows "\<exists>s'. broker_start (Some ba) s = Inr (True, s') \<and> broker_ok ba s' \<and> sys_fine s' \<and>
    broker_at ba s' (b\<lparr>br_running := 1, event_loop_thread := True\<rparr>) \<and>
    threads s' = threads s @ [Network ba, Event_Loop ba] \<and> queues s' = queues s \<and> msgs s' = msgs s \<and>
    exchange_heap s' = exchange_heap s \<and> binding_heap s' = binding_heap s"
proof -
  define s' where "s' = (put_broker ba (b\<lparr>br_running := 1, event_loop_thread := True\<rparr>) s)
    \<lparr>threads := threads s @ [Network ba, Event_Loop ba], sys_calls := Suc (Suc (sys_calls s))\<rparr>"
  have br: "brokers s ba = Some b" using b by (simp add: broker_at_def)
  have "broker_start (Some ba) s = Inr (True, s')"
    using br assms(3) fine by (simp add: broker_start_def s'_def sys_try_def sys_fine_def put_broker_def Let_def)
  moreover have heaps: "queues s' = queues s" "exchange_heap s' = exchange_heap s" "binding_heap s' = binding_heap s"
    "brokers s' = (brokers s)(ba \<mapsto> b\<lparr>br_running := 1, event_loop_thread := True\<rparr>)" "msgs s' = msgs s"
    "brk s' = brk s" "sys_ok s' = sys_ok s"
    by (simp_all add: s'_def)
  moreover have at: "broker_at ba s' (b\<lparr>br_running := 1, event_loop_thread := True\<rparr>)"
  proof -
    have "binding_ok s' = binding_ok s" by (simp add: binding_ok_def fun_eq_iff heaps)
    with b show ?thesis unfolding broker_at_def by (simp add: heaps)
  qed
  moreover have "broker_ok ba s'"
  proof -
    have "queues_ok s" "consumers_ok s" "addresses_ok s" using assms(1) by (simp_all add: broker_ok_def)
    moreover have "ba < brk s" using \<open>addresses_ok s\<close> br by (metis addresses_ok_def not_less option.distinct(1))
    ultimately have "addresses_ok s'" by (auto simp: addresses_ok_def heaps)
    moreover have "consumers_ok s'" using \<open>consumers_ok s\<close> by (simp add: s'_def) (simp add: consumers_ok_def put_broker_def)
    moreover have "queues_ok s'" by (rule same_queues_ok [OF _ _ _ \<open>queues_ok s\<close>]) (simp_all add: heaps)
    ultimately show ?thesis using at by (auto simp: broker_ok_def)
  qed
  ultimately show ?thesis using fine by (intro exI [of _ s']) (simp add: s'_def sys_fine_def)
qed

end
