(* ===== verification/Broker_Main.thy ===== *)
theory Broker_Main
  imports Broker_Handler Broker_Slots Broker_Free Log
begin

text \<open>
  The broker's program, \<open>src/broker/main.c\<close>: its command line, the exchanges, the queue and
  the bindings it sets up, and its start and shutdown. The loop that sleeps until a signal
  arrives is the boundary between \<open>main_start\<close> and \<open>main_shutdown\<close>.
\<close>

subsection \<open>The command line\<close>

record config =
  cfg_host :: string
  cfg_port :: int
  cfg_verbose :: bool
  cfg_log_file :: "string option"

definition default_config :: config where
  "default_config = \<lparr>cfg_host = ''0.0.0.0'', cfg_port = 5672, cfg_verbose = False, cfg_log_file = None\<rparr>"

text \<open>\<open>atoi\<close> on values an \<open>int\<close> can hold: white space, a sign, digits.\<close>

definition is_space :: "char \<Rightarrow> bool" where
  "is_space c \<longleftrightarrow> c \<in> {CHR '' '', CHR 0x09, CHR 0x0A, CHR 0x0B, CHR 0x0C, CHR 0x0D}"

definition digit_val :: "char \<Rightarrow> int" where
  "digit_val c = int (of_char c) - 48"

definition is_digit :: "char \<Rightarrow> bool" where
  "is_digit c \<longleftrightarrow> 0 \<le> digit_val c \<and> digit_val c \<le> 9"

definition decimal :: "string \<Rightarrow> int" where
  "decimal s = foldl (\<lambda>n c. 10 * n + digit_val c) 0 (takeWhile is_digit s)"

definition atoi :: "string \<Rightarrow> int" where
  "atoi s =
     (case dropWhile is_space s of
        [] \<Rightarrow> 0
      | c # cs \<Rightarrow> if c = CHR ''-'' then - decimal cs else if c = CHR ''+'' then decimal cs else decimal (c # cs))"

text \<open>The options after the program's name; \<open>Inl\<close> is the status with which \<open>main\<close> returns.\<close>

fun parse_args :: "string list \<Rightarrow> config \<Rightarrow> int + config" where
  "parse_args [] cfg = Inr cfg"
| "parse_args (a # rest) cfg =
     (if a = ''-h'' \<or> a = ''--help'' then Inl 0
      else
        (case rest of
           [] \<Rightarrow> if a = ''-v'' then parse_args [] (cfg\<lparr>cfg_verbose := True\<rparr>) else Inl 1
         | v # rest' \<Rightarrow>
             if a = ''-h'' then parse_args rest' (cfg\<lparr>cfg_host := v\<rparr>)
             else if a = ''-p'' then parse_args rest' (cfg\<lparr>cfg_port := atoi v\<rparr>)
             else if a = ''-v'' then parse_args (v # rest') (cfg\<lparr>cfg_verbose := True\<rparr>)
             else if a = ''-f'' then parse_args rest' (cfg\<lparr>cfg_log_file := Some v\<rparr>)
             else Inl 1))"

subsection \<open>Start and shutdown\<close>

text \<open>The exchanges, the test queue and its bindings.\<close>

definition broker_setup :: "ptr \<Rightarrow> 'z bmem_scheme \<Rightarrow> fault + 'z bmem_scheme" where
  "broker_setup g s =
     ebind (broker_create_exchange g (Some ''amq.direct'') EXCHANGE_TYPE_DIRECT s) (\<lambda>(direct_exchange, s).
     ebind (broker_create_exchange g (Some ''amq.fanout'') EXCHANGE_TYPE_FANOUT s) (\<lambda>(fanout_exchange, s).
     ebind (broker_create_exchange g (Some ''amq.topic'') EXCHANGE_TYPE_TOPIC s) (\<lambda>(topic_exchange, s).
     ebind (broker_create_queue g (Some ''test'') 1000 s) (\<lambda>(test_queue, s).
     if test_queue = None then Inr s
     else
       ebind (if direct_exchange \<noteq> None then broker_bind_queue g direct_exchange test_queue (Some ''test'') s
              else Inr (False, s)) (\<lambda>(r, s).
       ebind (if fanout_exchange \<noteq> None then broker_bind_queue g fanout_exchange test_queue None s
              else Inr (False, s)) (\<lambda>(r, s).
       ebind (if topic_exchange \<noteq> None then broker_bind_queue g topic_exchange test_queue (Some ''test.#'') s
              else Inr (False, s)) (\<lambda>(r, s). Inr s)))))))"

text \<open>
  From the options to the running broker. \<open>log_fp\<close> is what \<open>fopen\<close> returns for the log file.
  \<open>LOG_FATAL\<close> ends the process, so that what follows it in the source is not reached.
\<close>

definition main_start ::
    "string list \<Rightarrow> ptr \<Rightarrow> log_state \<Rightarrow> 'z bmem_scheme \<Rightarrow> fault + config \<times> ptr \<times> log_state \<times> 'z bmem_scheme" where
  "main_start args log_fp st s =
     (case parse_args args default_config of
        Inl code \<Rightarrow> Inl (ProcessExit (nat code))
      | Inr cfg \<Rightarrow>
          let st = log_set_level (if cfg_verbose cfg then 0 else 1) st in
          if cfg_log_file cfg \<noteq> None \<and> log_fp = None then Inl (ProcessExit 1)
          else
            let st = (if cfg_log_file cfg \<noteq> None then log_set_output log_fp st else st) in
            ebind (broker_create s) (\<lambda>(g, s).
            if g = None
            then ebind (log_fatal ''Failed to create broker'' st) (\<lambda>st. Inr (cfg, None, st, s))
            else
              ebind (broker_setup g s) (\<lambda>s.
              ebind (broker_start g s) (\<lambda>(started, s).
              if \<not> started
              then ebind (log_fatal ''Failed to start broker'' st) (\<lambda>st. Inr (cfg, None, st, s))
              else Inr (cfg, g, st, s)))))"

definition main_shutdown :: "ptr \<Rightarrow> 'z bmem_scheme \<Rightarrow> fault + 'z bmem_scheme" where
  "main_shutdown g s = ebind (broker_stop g s) (\<lambda>(r, s). broker_free g s)"

subsection \<open>The broker that is set up\<close>

text \<open>
  What \<open>main\<close> leaves before its loop: three exchanges, one queue bound to each, the threads.
\<close>

definition default_broker :: "addr \<Rightarrow> addr \<Rightarrow> addr \<Rightarrow> addr \<Rightarrow> addr \<Rightarrow> Broker \<Rightarrow> 'z bmem_scheme \<Rightarrow> bool" where
  "default_broker ba e1 e2 e3 qa b s \<longleftrightarrow>
     broker_ok ba s \<and> broker_at ba s b \<and> distinct [e1, e2, e3] \<and>
     exchange_heap s = [e1 \<mapsto> \<lparr>ex_name = Some ''amq.direct'', ex_type = EXCHANGE_TYPE_DIRECT\<rparr>,
       e2 \<mapsto> \<lparr>ex_name = Some ''amq.fanout'', ex_type = EXCHANGE_TYPE_FANOUT\<rparr>,
       e3 \<mapsto> \<lparr>ex_name = Some ''amq.topic'', ex_type = EXCHANGE_TYPE_TOPIC\<rparr>] \<and>
     (\<exists>q. queues s = [qa \<mapsto> q] \<and> q_name q = Some ''test'' \<and> ring_list q = [] \<and> capacity q = 1000) \<and>
     bindings_of s b = [\<lparr>b_exchange = e1, b_queue = qa, b_routing_key = Some ''test''\<rparr>,
       \<lparr>b_exchange = e2, b_queue = qa, b_routing_key = None\<rparr>,
       \<lparr>b_exchange = e3, b_queue = qa, b_routing_key = Some ''test.#''\<rparr>] \<and> msgs s = Map.empty"

lemma literal_cstr [simp]:
  "cstr ''amq.direct'' = ''amq.direct''" "cstr ''amq.fanout'' = ''amq.fanout''"
  "cstr ''amq.topic'' = ''amq.topic''" "cstr ''test'' = ''test''" "cstr ''test.#'' = ''test.#''"
  by (simp_all add: cstr_def NUL_def)

lemma setup_exchanges:
  assumes bl: "blank s0" and fine: "sys_fine s0" and c: "broker_create s0 = Inr (Some ba, s)"
  shows "\<exists>e1 s1 s2 s3 b3.
    broker_create_exchange (Some ba) (Some ''amq.direct'') EXCHANGE_TYPE_DIRECT s = Inr (Some e1, s1) \<and>
    broker_create_exchange (Some ba) (Some ''amq.fanout'') EXCHANGE_TYPE_FANOUT s1 = Inr (Some (Suc e1), s2) \<and>
    broker_create_exchange (Some ba) (Some ''amq.topic'') EXCHANGE_TYPE_TOPIC s2 = Inr (Some (Suc (Suc e1)), s3) \<and>
    broker_ok ba s3 \<and> sys_fine s3 \<and> broker_at ba s3 b3 \<and> queues s3 = Map.empty \<and> queue_count b3 = 0 \<and>
    binding_count b3 = 0 \<and> br_running b3 = 0 \<and> bindings_of s3 b3 = [] \<and> msgs s3 = Map.empty \<and> threads s3 = [] \<and>
    exchange_heap s3 = [e1 \<mapsto> \<lparr>ex_name = Some ''amq.direct'', ex_type = EXCHANGE_TYPE_DIRECT\<rparr>,
         Suc e1 \<mapsto> \<lparr>ex_name = Some ''amq.fanout'', ex_type = EXCHANGE_TYPE_FANOUT\<rparr>,
         Suc (Suc e1) \<mapsto> \<lparr>ex_name = Some ''amq.topic'', ex_type = EXCHANGE_TYPE_TOPIC\<rparr>] \<and>
    broker_get_exchange (Some ba) (Some ''amq.direct'') s3 = Inr (Some e1) \<and>
    broker_get_exchange (Some ba) (Some ''amq.fanout'') s3 = Inr (Some (Suc e1)) \<and>
    broker_get_exchange (Some ba) (Some ''amq.topic'') s3 = Inr (Some (Suc (Suc e1)))"
proof -
  from broker_create_ok [OF bl fine] c obtain b0 where
    0: "broker_ok ba s" "sys_fine s" "broker_at ba s b0" "queue_count b0 = 0" "exchange_count b0 = 0"
      "binding_count b0 = 0" "br_running b0 = 0" "threads s = []" "queues s = Map.empty"
      "exchange_heap s = Map.empty" "msgs s = Map.empty" by auto
  have none: "broker_get_exchange (Some ba) (Some nm) s = Inr None" "broker_get_queue (Some ba) (Some nm) s = Inr None" for nm
    using get_exchange_eq [OF 0(3)] get_queue_eq [OF 0(3)] 0(4,5) by (simp_all add: first_named_def)
  have bs0: "bindings_of s b0 = []" using 0(6) by (simp add: bindings_of_def)
  define e1 where "e1 = brk s"
  from create_exchange_new [OF 0(1-3) none(1), of "''amq.direct''" EXCHANGE_TYPE_DIRECT] 0(5) obtain s1 b1 where
    1: "broker_create_exchange (Some ba) (Some ''amq.direct'') EXCHANGE_TYPE_DIRECT s = Inr (Some e1, s1)"
      "broker_ok ba s1" "sys_fine s1" "broker_at ba s1 b1" "queues s1 = Map.empty" "queue_count b1 = 0"
      "exchange_count b1 = 1" "binding_count b1 = 0" "br_running b1 = 0" "bindings_of s1 b1 = []"
      "exchange_heap s1 = [e1 \<mapsto> \<lparr>ex_name = Some ''amq.direct'', ex_type = EXCHANGE_TYPE_DIRECT\<rparr>]"
      "msgs s1 = Map.empty" "threads s1 = []" "brk s1 = Suc e1"
      "\<And>nm'. broker_get_exchange (Some ba) (Some nm') s1 =
        (if cstr nm' = ''amq.direct'' then Inr (Some e1) else Inr None)"
    using 0 bs0 none by (auto simp: MAX_EXCHANGES_def e1_def)
  from create_exchange_new [OF 1(2-4), of "''amq.fanout''" EXCHANGE_TYPE_FANOUT] 1(7,15) obtain s2 b2 where
    2: "broker_create_exchange (Some ba) (Some ''amq.fanout'') EXCHANGE_TYPE_FANOUT s1 = Inr (Some (Suc e1), s2)"
      "broker_ok ba s2" "sys_fine s2" "broker_at ba s2 b2" "queues s2 = Map.empty" "queue_count b2 = 0"
      "exchange_count b2 = 2" "binding_count b2 = 0" "br_running b2 = 0" "bindings_of s2 b2 = []"
      "exchange_heap s2 = [e1 \<mapsto> \<lparr>ex_name = Some ''amq.direct'', ex_type = EXCHANGE_TYPE_DIRECT\<rparr>,
         Suc e1 \<mapsto> \<lparr>ex_name = Some ''amq.fanout'', ex_type = EXCHANGE_TYPE_FANOUT\<rparr>]"
      "msgs s2 = Map.empty" "threads s2 = []" "brk s2 = Suc (Suc e1)"
      "\<And>nm'. broker_get_exchange (Some ba) (Some nm') s2 =
        (if cstr nm' = ''amq.fanout'' then Inr (Some (Suc e1)) else broker_get_exchange (Some ba) (Some nm') s1)"
    using 1(5-14) by (auto simp: MAX_EXCHANGES_def)
  from create_exchange_new [OF 2(2-4), of "''amq.topic''" EXCHANGE_TYPE_TOPIC] 1(15) 2(7,15) obtain s3 b3 where
    3: "broker_create_exchange (Some ba) (Some ''amq.topic'') EXCHANGE_TYPE_TOPIC s2 = Inr (Some (Suc (Suc e1)), s3)"
      "broker_ok ba s3" "sys_fine s3" "broker_at ba s3 b3" "queues s3 = Map.empty" "queue_count b3 = 0"
      "exchange_count b3 = 3" "binding_count b3 = 0" "br_running b3 = 0" "bindings_of s3 b3 = []"
      "exchange_heap s3 = [e1 \<mapsto> \<lparr>ex_name = Some ''amq.direct'', ex_type = EXCHANGE_TYPE_DIRECT\<rparr>,
         Suc e1 \<mapsto> \<lparr>ex_name = Some ''amq.fanout'', ex_type = EXCHANGE_TYPE_FANOUT\<rparr>,
         Suc (Suc e1) \<mapsto> \<lparr>ex_name = Some ''amq.topic'', ex_type = EXCHANGE_TYPE_TOPIC\<rparr>]"
      "msgs s3 = Map.empty" "threads s3 = []"
      "\<And>nm'. broker_get_exchange (Some ba) (Some nm') s3 =
        (if cstr nm' = ''amq.topic'' then Inr (Some (Suc (Suc e1))) else broker_get_exchange (Some ba) (Some nm') s2)"
    using 2(5-14) by (auto simp: MAX_EXCHANGES_def)
  show ?thesis
    using 1(1,15) 2(1,15) 3
    by (intro exI [of _ e1] exI [of _ s1] exI [of _ s2] exI [of _ s3] exI [of _ b3]) simp
qed

lemma setup_bindings:
  assumes ok: "broker_ok ba s4" "sys_fine s4" "broker_at ba s4 b4"
    and pq: "points_named (queues s4) q_name (Some qa)"
    and pe: "points_named (exchange_heap s4) ex_name (Some e1)"
      "points_named (exchange_heap s4) ex_name (Some e2)"
      "points_named (exchange_heap s4) ex_name (Some e3)"
    and count: "binding_count b4 = 0" "br_running b4 = 0" "bindings_of s4 b4 = []"
      "msgs s4 = Map.empty" "threads s4 = []"
  shows "\<exists>s5 s6 s7 b7.
    broker_bind_queue (Some ba) (Some e1) (Some qa) (Some ''test'') s4 = Inr (True, s5) \<and>
    broker_bind_queue (Some ba) (Some e2) (Some qa) None s5 = Inr (True, s6) \<and>
    broker_bind_queue (Some ba) (Some e3) (Some qa) (Some ''test.#'') s6 = Inr (True, s7) \<and>
    broker_ok ba s7 \<and> sys_fine s7 \<and> broker_at ba s7 b7 \<and>
    bindings_of s7 b7 = [\<lparr>b_exchange = e1, b_queue = qa, b_routing_key = Some ''test''\<rparr>,
         \<lparr>b_exchange = e2, b_queue = qa, b_routing_key = None\<rparr>,
         \<lparr>b_exchange = e3, b_queue = qa, b_routing_key = Some ''test.#''\<rparr>] \<and>
    queues s7 = queues s4 \<and> exchange_heap s7 = exchange_heap s4 \<and> msgs s7 = Map.empty \<and>
    br_queues b7 = br_queues b4 \<and> queue_count b7 = queue_count b4 \<and>
    br_exchanges b7 = br_exchanges b4 \<and> exchange_count b7 = exchange_count b4 \<and>
    br_running b7 = 0 \<and> threads s7 = []"
proof -
  from broker_bind_ok [OF ok pe(1) pq, of "Some ''test''"] count(1) obtain s5 b5 where
    5: "broker_bind_queue (Some ba) (Some e1) (Some qa) (Some ''test'') s4 = Inr (True, s5)"
      "broker_ok ba s5" "sys_fine s5" "broker_at ba s5 b5" "binding_count b5 = 1"
      "bindings_of s5 b5 = [\<lparr>b_exchange = e1, b_queue = qa, b_routing_key = Some ''test''\<rparr>]"
      "queues s5 = queues s4" "exchange_heap s5 = exchange_heap s4" "msgs s5 = Map.empty"
      "br_queues b5 = br_queues b4" "queue_count b5 = queue_count b4"
      "br_exchanges b5 = br_exchanges b4" "exchange_count b5 = exchange_count b4" "br_running b5 = 0" "threads s5 = []"
    using count by (auto simp: MAX_BINDINGS_def)
  from broker_bind_ok [OF 5(2-4) _ _, of e2 qa None] 5(5,7,8) pe(2) pq obtain s6 b6 where
    6: "broker_bind_queue (Some ba) (Some e2) (Some qa) None s5 = Inr (True, s6)"
      "broker_ok ba s6" "sys_fine s6" "broker_at ba s6 b6" "binding_count b6 = 2"
      "bindings_of s6 b6 = [\<lparr>b_exchange = e1, b_queue = qa, b_routing_key = Some ''test''\<rparr>,
         \<lparr>b_exchange = e2, b_queue = qa, b_routing_key = None\<rparr>]"
      "queues s6 = queues s4" "exchange_heap s6 = exchange_heap s4" "msgs s6 = Map.empty"
      "br_queues b6 = br_queues b4" "queue_count b6 = queue_count b4"
      "br_exchanges b6 = br_exchanges b4" "exchange_count b6 = exchange_count b4" "br_running b6 = 0" "threads s6 = []"
    using 5(6,9-15) by (auto simp: MAX_BINDINGS_def)
  from broker_bind_ok [OF 6(2-4) _ _, of e3 qa "Some ''test.#''"] 6(5,7,8) pe(3) pq obtain s7 b7 where
    7: "broker_bind_queue (Some ba) (Some e3) (Some qa) (Some ''test.#'') s6 = Inr (True, s7)"
      "broker_ok ba s7" "sys_fine s7" "broker_at ba s7 b7"
      "bindings_of s7 b7 = [\<lparr>b_exchange = e1, b_queue = qa, b_routing_key = Some ''test''\<rparr>,
         \<lparr>b_exchange = e2, b_queue = qa, b_routing_key = None\<rparr>,
         \<lparr>b_exchange = e3, b_queue = qa, b_routing_key = Some ''test.#''\<rparr>]"
      "queues s7 = queues s4" "exchange_heap s7 = exchange_heap s4" "msgs s7 = Map.empty"
      "br_queues b7 = br_queues b4" "queue_count b7 = queue_count b4"
      "br_exchanges b7 = br_exchanges b4" "exchange_count b7 = exchange_count b4" "br_running b7 = 0" "threads s7 = []"
    using 6(6,9-15) by (auto simp: MAX_BINDINGS_def)
  show ?thesis
    using 5(1) 6(1) 7
    by (intro exI [of _ s5] exI [of _ s6] exI [of _ s7] exI [of _ b7]) simp
qed

lemma setup_ok:
  assumes bl: "blank s0" and fine: "sys_fine s0" and c: "broker_create s0 = Inr (Some ba, s)"
  shows "\<exists>e1 e2 e3 qa b s'. broker_setup (Some ba) s = Inr s' \<and> sys_fine s' \<and>
    default_broker ba e1 e2 e3 qa b s' \<and> br_running b = 0 \<and> threads s' = [] \<and>
    broker_get_exchange (Some ba) (Some ''amq.direct'') s' = Inr (Some e1) \<and>
    broker_get_exchange (Some ba) (Some ''amq.fanout'') s' = Inr (Some e2) \<and>
    broker_get_exchange (Some ba) (Some ''amq.topic'') s' = Inr (Some e3) \<and>
    broker_get_queue (Some ba) (Some ''test'') s' = Inr (Some qa)"
proof -
  from setup_exchanges [OF bl fine c] obtain e1 s1 s2 s3 b3 where
    3: "broker_create_exchange (Some ba) (Some ''amq.direct'') EXCHANGE_TYPE_DIRECT s = Inr (Some e1, s1)"
      "broker_create_exchange (Some ba) (Some ''amq.fanout'') EXCHANGE_TYPE_FANOUT s1 = Inr (Some (Suc e1), s2)"
      "broker_create_exchange (Some ba) (Some ''amq.topic'') EXCHANGE_TYPE_TOPIC s2 = Inr (Some (Suc (Suc e1)), s3)"
    and w: "broker_ok ba s3" "sys_fine s3" "broker_at ba s3 b3"
      "queues s3 = Map.empty" "queue_count b3 = 0" "binding_count b3 = 0" "br_running b3 = 0"
      "bindings_of s3 b3 = []" "msgs s3 = Map.empty" "threads s3 = []"
    and heap: "exchange_heap s3 = [e1 \<mapsto> \<lparr>ex_name = Some ''amq.direct'', ex_type = EXCHANGE_TYPE_DIRECT\<rparr>,
         Suc e1 \<mapsto> \<lparr>ex_name = Some ''amq.fanout'', ex_type = EXCHANGE_TYPE_FANOUT\<rparr>,
         Suc (Suc e1) \<mapsto> \<lparr>ex_name = Some ''amq.topic'', ex_type = EXCHANGE_TYPE_TOPIC\<rparr>]"
    and found: "broker_get_exchange (Some ba) (Some ''amq.direct'') s3 = Inr (Some e1)"
      "broker_get_exchange (Some ba) (Some ''amq.fanout'') s3 = Inr (Some (Suc e1))"
      "broker_get_exchange (Some ba) (Some ''amq.topic'') s3 = Inr (Some (Suc (Suc e1)))"
    by blast
  have none3: "broker_get_queue (Some ba) (Some nm) s3 = Inr None" for nm
    using get_queue_eq [OF w(3)] w(5) by (simp add: first_named_def)
  define qa where "qa = brk s3"
  from create_queue_new [OF w(1,2) _ _ w(3) none3, of 1000 "''test''"] w(5) obtain s4 b4 q where
    4: "broker_create_queue (Some ba) (Some ''test'') 1000 s3 = Inr (Some qa, s4)"
      "broker_ok ba s4" "sys_fine s4" "broker_at ba s4 b4" "queues s4 = [qa \<mapsto> q]" "q_name q = Some ''test''"
      "ring_list q = []" "capacity q = 1000"
      "binding_count b4 = 0" "br_running b4 = 0" "bindings_of s4 b4 = []" "msgs s4 = Map.empty" "threads s4 = []"
      "exchange_heap s4 = exchange_heap s3"
      "broker_get_queue (Some ba) (Some ''test'') s4 = Inr (Some qa)"
    using w(4-10) by (auto simp: MAX_QUEUES_def qa_def sizeof_ptr_def)
  have pq: "points_named (queues s4) q_name (Some qa)"
    and pe: "points_named (exchange_heap s4) ex_name (Some e1)"
      "points_named (exchange_heap s4) ex_name (Some (Suc e1))"
      "points_named (exchange_heap s4) ex_name (Some (Suc (Suc e1)))"
    using 4(5,6,14) heap by (simp_all add: points_named_def)
  from setup_bindings [OF 4(2-4) pq pe 4(9-13)] obtain s5 s6 s7 b7 where
    5: "broker_bind_queue (Some ba) (Some e1) (Some qa) (Some ''test'') s4 = Inr (True, s5)"
      "broker_bind_queue (Some ba) (Some (Suc e1)) (Some qa) None s5 = Inr (True, s6)"
      "broker_bind_queue (Some ba) (Some (Suc (Suc e1))) (Some qa) (Some ''test.#'') s6 = Inr (True, s7)"
    and 7: "broker_ok ba s7" "sys_fine s7" "broker_at ba s7 b7"
      "bindings_of s7 b7 = [\<lparr>b_exchange = e1, b_queue = qa, b_routing_key = Some ''test''\<rparr>,
         \<lparr>b_exchange = Suc e1, b_queue = qa, b_routing_key = None\<rparr>,
         \<lparr>b_exchange = Suc (Suc e1), b_queue = qa, b_routing_key = Some ''test.#''\<rparr>]"
      "queues s7 = queues s4" "exchange_heap s7 = exchange_heap s4" "msgs s7 = Map.empty"
      "br_queues b7 = br_queues b4" "queue_count b7 = queue_count b4"
      "br_exchanges b7 = br_exchanges b4" "exchange_count b7 = exchange_count b4" "br_running b7 = 0" "threads s7 = []"
    by blast
  have set: "broker_setup (Some ba) s = Inr s7"
    using 3 4(1) 5 by (simp add: broker_setup_def)
  have ge: "broker_get_exchange (Some ba) (Some nm) s7 = broker_get_exchange (Some ba) (Some nm) s3" for nm
    using get_exchange_eq [OF 7(3)] get_exchange_eq [OF 4(4)] 7(6,10,11)
      create_queue_exchanges [OF w(3) 4(1)] by simp
  have gq: "broker_get_queue (Some ba) (Some ''test'') s7 = Inr (Some qa)"
    using get_queue_eq [OF 7(3)] get_queue_eq [OF 4(4)] 7(5,8,9) 4(15) by simp
  have "default_broker ba e1 (Suc e1) (Suc (Suc e1)) qa b7 s7"
    unfolding default_broker_def using 7(1,3-7) 4(5-8,14) heap by simp blast
  with set 7(2,12,13) ge gq found show ?thesis
    by (intro exI [of _ e1] exI [of _ "Suc e1"] exI [of _ "Suc (Suc e1)"] exI [of _ qa] exI [of _ b7] exI [of _ s7])
      simp
qed

text \<open>The whole start, when no system call fails.\<close>

lemma main_started:
  assumes bl: "blank s0" and fine: "sys_fine s0"
  shows "\<exists>ba e1 e2 e3 qa b s. default_broker ba e1 e2 e3 qa b s \<and> br_running b = 1 \<and> sys_fine s \<and>
    threads s = [Network ba, Event_Loop ba] \<and>
    (\<forall>args log_fp st. main_start args log_fp st s0 =
       (case parse_args args default_config of
          Inl code \<Rightarrow> Inl (ProcessExit (nat code))
        | Inr cfg \<Rightarrow>
            let st = log_set_level (if cfg_verbose cfg then 0 else 1) st in
            if cfg_log_file cfg \<noteq> None \<and> log_fp = None then Inl (ProcessExit 1)
            else Inr (cfg, Some ba, (if cfg_log_file cfg \<noteq> None then log_set_output log_fp st else st), s)))"
proof -
  from broker_create_ok [OF bl fine] obtain s1 where 1: "broker_create s0 = Inr (Some (brk s0), s1)" by blast
  from setup_ok [OF bl fine 1] obtain e1 e2 e3 qa b s2 where
    2: "broker_setup (Some (brk s0)) s1 = Inr s2" "sys_fine s2" "default_broker (brk s0) e1 e2 e3 qa b s2"
      "br_running b = 0" "threads s2 = []" by blast
  have d: "broker_ok (brk s0) s2" "broker_at (brk s0) s2 b" using 2(3) by (simp_all add: default_broker_def)
  define b' where "b' = b\<lparr>br_running := 1, event_loop_thread := True\<rparr>"
  from broker_start_ok [OF d 2(4,2)] obtain s where
    3: "broker_start (Some (brk s0)) s2 = Inr (True, s)" "broker_ok (brk s0) s" "sys_fine s" "broker_at (brk s0) s b'"
      "threads s = [Network (brk s0), Event_Loop (brk s0)]" "queues s = queues s2" "msgs s = msgs s2"
      "exchange_heap s = exchange_heap s2" "binding_heap s = binding_heap s2"
    using 2(5) by (auto simp: b'_def)
  have bs: "bindings_of s b' = bindings_of s2 b" by (simp add: bindings_of_def 3(9) b'_def)
  have "default_broker (brk s0) e1 e2 e3 qa b' s"
    using 2(3) 3(2,4) bs unfolding default_broker_def by (simp add: 3(6-8))
  moreover have "main_start args log_fp st s0 =
       (case parse_args args default_config of
          Inl code \<Rightarrow> Inl (ProcessExit (nat code))
        | Inr cfg \<Rightarrow>
            let st = log_set_level (if cfg_verbose cfg then 0 else 1) st in
            if cfg_log_file cfg \<noteq> None \<and> log_fp = None then Inl (ProcessExit 1)
            else Inr (cfg, Some (brk s0), (if cfg_log_file cfg \<noteq> None then log_set_output log_fp st else st), s))"
    for args log_fp st
    using 1 2(1) 3(1) by (auto simp: main_start_def Let_def split: sum.split)
  moreover have "br_running b' = 1" by (simp add: b'_def)
  ultimately show ?thesis using 3(3,5) by blast
qed

end
