(* ===== verification/Broker_Delivery.thy ===== *)
theory Broker_Delivery
  imports Broker_Handler
begin

text \<open>
  What consumers get on their sockets while \<open>broker_route_message\<close> of \<open>src/core/broker.c\<close>
  routes a message: the specification of routing extended by the bytes each delivery sends,
  and the proof that routing, publishing and a pass of the client handler implement it when
  the kernel accepts what is sent.
\<close>

subsection \<open>The specification\<close>

text \<open>The descriptors of a queue's live consumers.\<close>

definition fds_of :: "'z bmem_scheme \<Rightarrow> addr \<Rightarrow> int list" where
  "fds_of s qa =
     (case queues s qa of
        None \<Rightarrow> []
      | Some q \<Rightarrow> (case q_name q of None \<Rightarrow> [] | Some nm \<Rightarrow> consumer_fds s nm))"

text \<open>Each queue that takes the message has it sent to its consumers.\<close>

definition spec_send ::
    "(addr \<Rightarrow> nat) \<Rightarrow> Message \<Rightarrow> (addr \<Rightarrow> int list) \<Rightarrow> (nat \<times> (addr \<Rightarrow> Message list)) \<times> (int \<Rightarrow> byte list) \<Rightarrow> addr
      \<Rightarrow> (nat \<times> (addr \<Rightarrow> Message list)) \<times> (int \<Rightarrow> byte list)" where
  "spec_send room m fds st qa =
     (case st of (rc, os) \<Rightarrow>
        (spec_deliver room m rc qa,
         if length (snd rc qa) < room qa then broadcast (wire_image m) (fds qa) os else os))"

definition spec_forward ::
    "(addr \<Rightarrow> nat) \<Rightarrow> Message \<Rightarrow> (addr \<Rightarrow> int list) \<Rightarrow> addr list \<Rightarrow> (addr \<Rightarrow> Message list) \<Rightarrow> (int \<Rightarrow> byte list)
      \<Rightarrow> (nat \<times> (addr \<Rightarrow> Message list)) \<times> (int \<Rightarrow> byte list)" where
  "spec_forward room m fds qs c os = foldl (spec_send room m fds) ((0, c), os) qs"

lemma spec_forward_snoc:
  "spec_forward room m fds (qs @ [qa]) c os = spec_send room m fds (spec_forward room m fds qs c os) qa"
  by (simp add: spec_forward_def)

text \<open>It is the specification of routing, with the sockets added.\<close>

lemma spec_forward_route: "fst (spec_forward room m fds qs c os) = spec_route room m qs c"
proof (induction qs rule: rev_induct)
  case (snoc qa qs)
  then show ?case
    by (cases "spec_forward room m fds qs c os") (simp add: spec_forward_snoc spec_send_def spec_route_snoc)
qed (simp add: spec_forward_def spec_route_def)

lemma spec_forward_single:
  "length (c qa) < room qa \<Longrightarrow>
   spec_forward room m fds [qa] c os = ((1, c(qa := c qa @ [m])), broadcast (wire_image m) (fds qa) os)"
  by (simp add: spec_forward_def spec_send_def spec_deliver_def)

subsection \<open>The implementation\<close>

definition sends_ok :: "'z bmem_scheme \<Rightarrow> Message \<Rightarrow> bool" where
  "sends_ok s m \<longleftrightarrow> full_sends (net s) \<and> wire_ok m \<and> (\<forall>qa. \<forall>fd\<in>set (fds_of s qa). 0 \<le> fd)"

lemma consumer_fds_frame: "routing_frame s s' \<Longrightarrow> consumer_fds s' nm = consumer_fds s nm"
  by (simp only: consumer_fds_def live_consumer_def [abs_def] routing_frame_def)

lemma fds_of_frame:
  assumes "routing_frame s s'"
  shows "fds_of s' qa = fds_of s qa"
proof (cases "queues s qa")
  case None
  then have "queues s' qa = None" using assms unfolding routing_frame_def by (metis option.map_disc_iff)
  with None show ?thesis by (simp add: fds_of_def)
next
  case (Some q)
  obtain q' where "queues s' qa = Some q'" "queue_key q' = queue_key q" by (rule frame_queue [OF assms Some])
  with Some show ?thesis by (simp add: fds_of_def queue_key_def consumer_fds_frame [OF assms] cong: option.case_cong)
qed

lemma route_to_queue_sends:
  assumes fine: "sys_fine s" and ok: "queues_ok s" and cons: "consumers_ok s"
    and c: "msgs s c = Some m" "msg_complete m" and qa: "points_named (queues s) q_name (Some qa)" and s: "sends_ok s m"
    and r: "route_to_queue qa c (s, r) = Inr (s', r')"
  shows "full_sends (net s') \<and> inp (net s') = inp (net s) \<and>
    out (net s') = (if length (contents s qa) < room_of s qa then broadcast (wire_image m) (fds_of s qa) (out (net s))
      else out (net s))"
proof -
  obtain q nm where q: "queues s qa = Some q" "q_name q = Some nm" using qa by (auto simp: points_named_def)
  obtain k where cl: "message_clone (Some c) s = Inr (Some (brk s), with_message m k s)"
    using clone_with_message [OF fine c] by blast
  define s1 where "s1 = with_message m k s"
  have s1: "queues s1 qa = Some q" "net s1 = net s" by (simp_all add: q(1) s1_def) (simp add: with_message_def)
  have ring: "ring_ok q" by (rule queue_atD(3) [OF queues_okD(2) [OF ok q(1)]])
  have len: "length (contents s qa) = q_size q" "room_of s qa = capacity q"
    using q by (simp_all add: contents_def room_of_def)
  show ?thesis
  proof (cases "q_size q = capacity q")
    case True
    have "message_free (Some (brk s)) s1 = Inr (s1\<lparr>msgs := (msgs s1)(brk s := None)\<rparr>)"
      by (rule message_free_live) (simp add: s1_def)
    then have "s' = s1\<lparr>msgs := (msgs s1)(brk s := None)\<rparr>"
      using r cl try_enqueue_full [OF s1(1) True] q(1) s1(1)
      by (simp add: route_to_queue_def s1_def [symmetric] queue_name_at_def)
    with True len s s1(2) show ?thesis by (simp add: sends_ok_def)
  next
    case False
    then have room: "q_size q < capacity q" using ring_okD [OF ring] by simp
    define s2 where "s2 = put_queue qa (enqueued (brk s) q) s1"
    have enq: "queue_try_enqueue (Some qa) (Some (brk s)) s1 = Inr (True, s2)"
      unfolding s2_def by (rule try_enqueue_room [OF s1(1) ring room])
    have f2: "routing_frame s s2"
      unfolding s2_def s1_def
      by (rule routing_frame_trans [OF with_message_frame [OF queues_okD(1) [OF ok]] enqueued_frame]) (simp add: q(1))
    have nm: "queue_name_at s2 (Some qa) = Inr (Some nm)"
      using q(2) by (simp add: queue_name_at_def s2_def enqueued_def)
    have s2: "msgs s2 (brk s) = Some m" "net s2 = net s" using s1(2) by (simp_all add: s2_def s1_def put_queue_def)
    have fds: "fds_of s qa = consumer_fds s2 nm" using q by (simp add: fds_of_def consumer_fds_frame [OF f2])
    have "\<forall>fd\<in>set (consumer_fds s2 nm). 0 \<le> fd" using s fds [symmetric] by (simp add: sends_ok_def)
    from forward_full [OF _ s2(1) _ _ this] frame_simps(3) [OF f2] cons s s2(2) obtain n where
      n: "forward_message_to_consumers (Some nm) (Some (brk s)) s2 = Inr (s2\<lparr>net := n\<rparr>)" "full_sends n"
        "inp n = inp (net s)" "out n = broadcast (wire_image m) (consumer_fds s2 nm) (out (net s))"
      by (auto simp: sends_ok_def)
    have "s' = s2\<lparr>net := n\<rparr>"
      using r cl enq nm n(1) by (simp add: route_to_queue_def s1_def [symmetric])
    with n room len fds show ?thesis by simp
  qed
qed

lemma sends_ok_step:
  assumes "routing_frame s s'" and "full_sends (net s')" and "sends_ok s m"
  shows "sends_ok s' m"
  using assms fds_of_frame [OF assms(1)] by (simp add: sends_ok_def)

lemma route_body_sends:
  assumes fine: "sys_fine s" and ok: "queues_ok s" and cons: "consumers_ok s"
    and c: "msgs s c = Some m" "msg_complete m" and b: "broker_at ba s b" and i: "i < binding_count b" and s: "sends_ok s m"
    and r: "route_body b type ea c i (s, r) = Inr (s', r')"
  defines "bd \<equiv> bindings_of s b ! i"
  shows "full_sends (net s') \<and> inp (net s') = inp (net s) \<and>
    ((r', contents s'), out (net s')) = (if selects type ea (the (routing_key m)) bd
      then spec_send (room_of s) m (fds_of s) ((r, contents s), out (net s)) (b_queue bd)
      else ((r, contents s), out (net s)))"
proof -
  obtain a where a: "br_bindings b ! i = Some a" "binding_heap s a = Some bd" "i < length (br_bindings b)"
    and q: "points_named (queues s) q_name (Some (b_queue bd))"
    using binding_at [OF b i] unfolding bd_def by blast
  obtain key where key: "routing_key m = Some key" using c(2) by (auto simp: msg_complete_def)
  have step: "route_body b type ea c i (s, r) =
      (if selects type ea (the (routing_key m)) bd then route_to_queue (b_queue bd) c (s, r) else Inr (s, r))"
    using a c(1) key by (simp add: route_body_def arr_get_Inr binding_selected_eq)
  show ?thesis
  proof (cases "selects type ea (the (routing_key m)) bd")
    case True
    with r step have 1: "route_to_queue (b_queue bd) c (s, r) = Inr (s', r')" by simp
    from route_to_queue_ok [OF fine ok cons c q, of r] 1 route_to_queue_sends [OF fine ok cons c q s 1] True
    show ?thesis by (auto simp: spec_send_def)
  next
    case False
    with r step s show ?thesis by (auto simp: sends_ok_def)
  qed
qed

lemma route_loop_sends:
  assumes fine: "sys_fine s" and ok: "queues_ok s" and cons: "consumers_ok s"
    and c: "msgs s c = Some m" "msg_complete m" and b: "broker_at ba s b" and s: "sends_ok s m"
    and "n \<le> binding_count b" and "for_loop (route_body b type ea c) [0..<n] (s, 0) = Inr (s', r)"
  shows "full_sends (net s') \<and> inp (net s') = inp (net s) \<and>
    ((r, contents s'), out (net s')) = spec_forward (room_of s) m (fds_of s)
      (map b_queue (filter (selects type ea (the (routing_key m))) (take n (bindings_of s b)))) (contents s) (out (net s))"
  using assms(8,9)
proof (induction n arbitrary: s' r)
  case 0
  then show ?case using s by (simp add: spec_forward_def sends_ok_def)
next
  case (Suc n)
  let ?t = "\<lambda>n. map b_queue (filter (selects type ea (the (routing_key m))) (take n (bindings_of s b)))"
  have i: "n < binding_count b" "n \<le> binding_count b" using Suc.prems(1) by simp_all
  from route_loop [OF fine ok cons c b i(2), of type ea] obtain s1 r1 where
    1: "for_loop (route_body b type ea c) [0..<n] (s, 0) = Inr (s1, r1)" "queues_ok s1" "routing_frame s s1" by blast
  note IH = Suc.IH [OF i(2) 1(1)] and f = frame_simps [OF 1(3)]
  have c1: "msgs s1 c = Some m" using 1(3) c(1) by (simp add: routing_frame_def)
  have room: "room_of s1 = room_of s" "fds_of s1 = fds_of s" by (rule ext, rule f(5), rule ext, rule fds_of_frame [OF 1(3)])
  have s1: "sends_ok s1 m" by (rule sends_ok_step [OF 1(3) _ s]) (simp add: IH)
  have r2: "route_body b type ea c n (s1, r1) = Inr (s', r)" using Suc.prems(2) 1(1) by (simp add: for_loop_append)
  from route_body_sends [OF _ 1(2) _ c1 c(2) frame_broker_at [OF 1(3) b] i(1) s1 r2] f fine cons
  have 2: "full_sends (net s') \<and> inp (net s') = inp (net s1) \<and> ((r, contents s'), out (net s')) =
      (if selects type ea (the (routing_key m)) (bindings_of s b ! n)
       then spec_send (room_of s) m (fds_of s) ((r1, contents s1), out (net s1)) (b_queue (bindings_of s b ! n))
       else ((r1, contents s1), out (net s1)))"
    by (simp add: room)
  have len: "n < length (bindings_of s b)" using i b by (simp add: bindings_of_def broker_at_def)
  have "((r, contents s'), out (net s')) = spec_forward (room_of s) m (fds_of s) (?t (Suc n)) (contents s) (out (net s))"
    using 2 IH by (simp add: take_Suc_conv_app_nth [OF len] spec_forward_snoc del: map_map)
  with 2 IH show ?case by simp
qed

subsection \<open>Publishing\<close>

lemma message_free_net:
  fixes s :: "'z bmem_scheme"
  shows "message_free p s = Inr s' \<Longrightarrow> net s' = net s"
  by (auto simp: message_free_def split: option.splits)

lemma route_message_sends:
  assumes fine: "sys_fine s" and ok: "queues_ok s" and cons: "consumers_ok s"
    and c: "msgs s c = Some m" "msg_complete m" and b: "broker_at ba s b" and s: "sends_ok s m"
    and r: "broker_route_message ba ea c s = Inr (r, s')"
  shows "full_sends (net s') \<and> inp (net s') = inp (net s) \<and>
    out (net s') = snd (spec_forward (room_of s) m (fds_of s) (targets s b ea (the (routing_key m))) (contents s) (out (net s)))"
proof -
  have br: "brokers s ba = Some b" using b by (simp add: broker_at_def)
  with r obtain ex s1 where ex: "exchange_heap s ea = Some ex"
    and 1: "for_loop (route_body b (ex_type ex) ea c) [0..<binding_count b] (s, 0) = Inr (s1, r)"
    and 2: "s' = s1 \<or> message_free (Some c) s1 = Inr s'"
    by (auto simp: broker_route_message_def deref_Inr_iff split: if_split_asm)
  have all: "take (binding_count b) (bindings_of s b) = bindings_of s b" by (simp add: bindings_of_def)
  have "net s' = net s1" using 2 message_free_net by blast
  with route_loop_sends [OF fine ok cons c b s order_refl 1] ex
  show ?thesis by (metis all option.sel snd_conv targets_def)
qed

lemma publish_sends:
  assumes fine: "sys_fine s" and ok: "queues_ok s" and cons: "consumers_ok s"
    and ma: "msgs s ma = Some m" "msg_complete m" and b: "broker_at ba s b" and s: "sends_ok s m"
    and r: "broker_publish (Some ba) (Some ea) (Some ma) s = Inr (x, s')"
  shows "full_sends (net s') \<and> inp (net s') = inp (net s) \<and>
    out (net s') = snd (spec_forward (room_of s) m (fds_of s) (targets s b ea (the (routing_key m))) (contents s) (out (net s)))"
proof -
  have mok: "msg_ok m" using ma(2) by (simp add: msg_complete_def)
  obtain k where cl: "message_clone (Some ma) s = Inr (Some (brk s), with_message m k s)"
    using clone_with_message [OF fine ma] by blast
  define s1 where "s1 = with_message m k s"
  note w = with_message_ok [OF ok mok, of k, folded s1_def]
  have f1: "routing_frame s s1"
    unfolding s1_def by (rule with_message_frame [OF queues_okD(1) [OF ok]])
  note fs = frame_simps [OF f1]
  have n1: "net s1 = net s" by (simp add: s1_def with_message_def)
  have s1: "msgs s1 (brk s) = Some m" "sys_fine s1" "sends_ok s1 m"
    using fine sends_ok_step [OF f1 _ s] s n1 by (simp_all add: s1_def) (simp add: sends_ok_def)
  from r cl obtain y s2 where 2: "broker_route_message ba ea (brk s) s1 = Inr (y, s2)"
    "s' = s2 \<or> message_free (Some (brk s)) s2 = Inr s'"
    by (auto simp: broker_publish_def s1_def [symmetric] split: if_split_asm)
  have "room_of s1 = room_of s" "fds_of s1 = fds_of s" by (rule ext, rule fs(5), rule ext, rule fds_of_frame [OF f1])
  with route_message_sends [OF s1(2) w(1) _ s1(1) ma(2) frame_broker_at [OF f1 b] s1(3) 2(1)] fs cons w(4) n1
  have "full_sends (net s2) \<and> inp (net s2) = inp (net s) \<and>
    out (net s2) = snd (spec_forward (room_of s) m (fds_of s) (targets s b ea (the (routing_key m))) (contents s) (out (net s)))"
    by simp
  moreover have "net s' = net s2" using 2(2) message_free_net by blast
  ultimately show ?thesis by simp
qed

text \<open>A pass of the handler over a message that some queue takes.\<close>

lemma handler_sends:
  assumes sv: "serving i ba s conn m" and fine: "sys_fine s" and ok: "queues_ok s" and cons: "consumers_ok s"
    and b: "broker_at ba s b" and prod: "\<not> is_consumer conn" "\<not> registration m"
    and get: "broker_get_exchange (Some ba) (exchange m) s = Inr (Some ea)" and snd: "sends_ok s m"
    and spec: "spec_forward (room_of s) m (fds_of s) (targets s b ea (the (routing_key m))) (contents s) (out (net s)) =
      ((r, C), os)"
    and "r \<noteq> 0"
  shows "\<exists>s'. client_handler_thread i s = Inr (True, s') \<and> queues_ok s' \<and> contents s' = C \<and> out (net s') = os"
proof -
  have m: "msg_complete m" by (rule serving_complete [OF sv])
  have sp: "spec_route (room_of s) m (targets s b ea (the (routing_key m))) (contents s) = (r, C)"
    using spec_forward_route [of "room_of s" m "fds_of s"] spec by (metis fst_conv)
  from handler_publishes [OF sv fine ok cons b prod get sp] \<open>r \<noteq> 0\<close> obtain s' where
    s': "client_handler_thread i s = Inr (True, s')" "queues_ok s'" "contents s' = C" by auto
  from handler_received [OF sv fine] obtain k n where h: "client_handler_thread i s =
      ebind (broker_publish (Some ba) (Some ea) (Some (brk s)) (received m k n s)) (\<lambda>(ok, s').
         ebind (deref (msgs s') (Some (brk s))) (\<lambda>_. Inr (True, s')))"
    and n: "out n = out (net s)" "full_sends n = full_sends (net s)"
    using prod get by auto
  define s1 where "s1 = received m k n s"
  note w = received_ok [OF ok m, of k n, folded s1_def]
  note fs = frame_simps [OF w(4)]
  have n1: "net s1 = n" by (simp add: s1_def received_def)
  have s1: "sys_fine s1" "msgs s1 (brk s) = Some m" "consumers_ok s1" "sends_ok s1 m"
    using fine cons fs sends_ok_step [OF w(4) _ snd] snd n n1
    by (simp_all add: s1_def sys_fine_def) (simp add: sends_ok_def)
  from s'(1) h obtain x where "broker_publish (Some ba) (Some ea) (Some (brk s)) s1 = Inr (x, s')"
    by (auto simp: s1_def)
  note p = publish_sends [OF s1(1) w(1) s1(3,2) m frame_broker_at [OF w(4) b] s1(4) this]
  have "room_of s1 = room_of s" "fds_of s1 = fds_of s" by (rule ext, rule fs(5), rule ext, rule fds_of_frame [OF w(4)])
  with p fs w(3) n n1 spec have "out (net s') = os" by simp
  with s' show ?thesis by blast
qed

end
