(* ===== verification/Broker_Properties.thy ===== *)
theory Broker_Properties
  imports Broker_Main Broker_Delivery Wire_Properties
begin

text \<open>
  The properties of the broker (\<open>src/core/broker.c\<close>, \<open>src/broker/main.c\<close>), each with an
  instance on a small broker: a direct exchange bound to one queue under the key \<open>test\<close>, a
  fanout exchange bound to that queue and to an empty one of capacity 1, a producer in slot
  0 and a consumer of \<open>test\<close> in slot 1.
\<close>

definition copy_queue :: Queue where
  "copy_queue = (small_queue [None] 0 [None, None] 0 1 0)\<lparr>q_name := Some ''copy''\<rparr>"

definition demo_broker :: Broker where
  "demo_broker = \<lparr>br_queues = [Some 10, Some 11] @ replicate 14 None,
     br_exchanges = [Some 20, Some 21] @ replicate 6 None,
     br_bindings = [Some 30, Some 31, Some 32] @ replicate 29 None, queue_count = 2, exchange_count = 2,
     binding_count = 3, br_running = 1, event_loop_thread = True\<rparr>"

definition producer :: ClientConnection where
  "producer = \<lparr>cc_fd = 4, is_consumer = False, cc_queue_name = [], cc_running = True, cc_broker = Some 40\<rparr>"

definition consumer :: ClientConnection where
  "consumer = \<lparr>cc_fd = 5, is_consumer = True, cc_queue_name = ''test'', cc_running = True, cc_broker = Some 40\<rparr>"

definition free_connection :: ClientConnection where
  "free_connection = zero_connection\<lparr>cc_fd := -1\<rparr>"

definition demo_bmem :: "Queue \<Rightarrow> sockets \<Rightarrow> bmem" where
  "demo_bmem q n = \<lparr>msgs = (\<lambda>a. if a \<in> {1, 2, 3, 4, 5} then Some demo_message else None), brk = 50,
     sys_ok = (\<lambda>_. True), sys_calls = 0, queues = [10 \<mapsto> q, 11 \<mapsto> copy_queue], clock = 100,
     exchange_heap = [20 \<mapsto> \<lparr>ex_name = Some ''amq.direct'', ex_type = EXCHANGE_TYPE_DIRECT\<rparr>,
       21 \<mapsto> \<lparr>ex_name = Some ''amq.fanout'', ex_type = EXCHANGE_TYPE_FANOUT\<rparr>],
     binding_heap = [30 \<mapsto> \<lparr>b_exchange = 20, b_queue = 10, b_routing_key = Some ''test''\<rparr>,
       31 \<mapsto> \<lparr>b_exchange = 21, b_queue = 10, b_routing_key = None\<rparr>,
       32 \<mapsto> \<lparr>b_exchange = 21, b_queue = 11, b_routing_key = None\<rparr>],
     brokers = [40 \<mapsto> demo_broker],
     client_connections = [producer, consumer] @ replicate 98 free_connection,
     client_fds = [4, 5] @ replicate 98 (-1), client_count = 2,
     consumers = \<lparr>client_index = 1, ci_queue_name = ''test''\<rparr> # replicate 99 zero_consumer,
     consumer_count = 1, broker_listen_fd = 3, net = n, closed_fds = [],
     threads = [Network 40, Event_Loop 40, Handler 0, Handler 1]\<rparr>"

lemma demo_bmem_fields [simp]:
  "queues (demo_bmem q n) = [10 \<mapsto> q, 11 \<mapsto> copy_queue]" "brk (demo_bmem q n) = 50"
  "msgs (demo_bmem q n) a = (if a \<in> {1, 2, 3, 4, 5} then Some demo_message else None)"
  "client_connections (demo_bmem q n) = [producer, consumer] @ replicate 98 free_connection"
  "net (demo_bmem q n) = n" "sys_fine (demo_bmem q n)" "brokers (demo_bmem q n) = [40 \<mapsto> demo_broker]"
  "consumer_count (demo_bmem q n) = 1" "clock (demo_bmem q n) = 100"
  "threads (demo_bmem q n) = [Network 40, Event_Loop 40, Handler 0, Handler 1]"
  "exchange_heap (demo_bmem q n) = [20 \<mapsto> \<lparr>ex_name = Some ''amq.direct'', ex_type = EXCHANGE_TYPE_DIRECT\<rparr>,
       21 \<mapsto> \<lparr>ex_name = Some ''amq.fanout'', ex_type = EXCHANGE_TYPE_FANOUT\<rparr>]"
  by (simp_all add: demo_bmem_def sys_fine_def)

lemma demo_bmem_at: "queue_at a (demo_state q) q' \<Longrightarrow> a = 10 \<Longrightarrow> queue_at 10 (demo_bmem q n) q'"
  by (auto simp: queue_at_def)

lemma copy_ok: "queue_at 11 (demo_bmem q n) copy_queue" "held copy_queue = []" "q_name copy_queue = Some ''copy''"
  by (simp_all add: queue_at_def queue_ok_def ring_ok_def ledger_ok_def held_def ring_list_def
      unacked_list_def copy_queue_def small_queue_def sizeof_ptr_def sizeof_DeliveryInfo_def ring_index_def)

lemma demo_queues_ok:
  assumes "queue_at 10 (demo_state q) q"
  shows "queues_ok (demo_bmem q n)"
proof -
  have "heap_ok (demo_bmem q n)" using demo_heap [of q] by (simp add: heap_ok_def)
  moreover have "queue_at a (demo_bmem q n) r" if "queues (demo_bmem q n) a = Some r" for a r
    using that demo_bmem_at [OF assms] copy_ok(1) by (auto split: if_splits)
  ultimately show ?thesis
    by (auto simp: queues_ok_def copy_ok(2) split: if_splits)
qed

lemma demo_consumers_ok: "consumers_ok (demo_bmem q n)"
  by (simp add: consumers_ok_def demo_bmem_def MAX_CONNECTIONS_def)

lemma pointer_cases:
  "points_named h name (Some a) \<longleftrightarrow> (case h a of None \<Rightarrow> False | Some x \<Rightarrow> name x \<noteq> None)"
  "binding_ok s (Some a) \<longleftrightarrow>
     (case binding_heap s a of None \<Rightarrow> False | Some bd \<Rightarrow>
        points_named (exchange_heap s) ex_name (Some (b_exchange bd)) \<and>
        points_named (queues s) q_name (Some (b_queue bd)))"
  by (auto simp: points_named_def binding_ok_def split: option.split)

lemma demo_binding_heap [simp]:
  "binding_heap (demo_bmem q n) = [30 \<mapsto> \<lparr>b_exchange = 20, b_queue = 10, b_routing_key = Some ''test''\<rparr>,
       31 \<mapsto> \<lparr>b_exchange = 21, b_queue = 10, b_routing_key = None\<rparr>,
       32 \<mapsto> \<lparr>b_exchange = 21, b_queue = 11, b_routing_key = None\<rparr>]"
  by (simp add: demo_bmem_def)

lemma demo_broker_at:
  assumes "q_name q = Some nm"
  shows "broker_at 40 (demo_bmem q n) demo_broker"
  using assms
  by (simp add: broker_at_def demo_broker_def MAX_QUEUES_def MAX_EXCHANGES_def MAX_BINDINGS_def pointer_cases
      copy_ok numeral_2_eq_2 numeral_3_eq_3)

lemma demo_bindings:
  "bindings_of (demo_bmem q n) demo_broker = [\<lparr>b_exchange = 20, b_queue = 10, b_routing_key = Some ''test''\<rparr>,
     \<lparr>b_exchange = 21, b_queue = 10, b_routing_key = None\<rparr>, \<lparr>b_exchange = 21, b_queue = 11, b_routing_key = None\<rparr>]"
  by (simp add: bindings_of_def demo_broker_def numeral_3_eq_3)

lemma demo_targets:
  "targets (demo_bmem q n) demo_broker 20 ''test'' = [10]" "targets (demo_bmem q n) demo_broker 21 key = [10, 11]"
  by (simp_all add: targets_def demo_bindings selects_def)

lemma demo_names [simp]: "q_name demo_queue = Some ''test''" "q_name full_queue = Some ''test''"
  by (simp_all add: full_queue_def demo_queue_def)

lemma demo_contents:
  "contents (demo_bmem demo_queue n) 10 = [demo_message, demo_message]"
  "contents (demo_bmem full_queue n) 10 = [demo_message, demo_message, demo_message]"
  "contents (demo_bmem q n) 11 = []"
  "room_of (demo_bmem demo_queue n) 10 = 3" "room_of (demo_bmem full_queue n) 10 = 3"
  "room_of (demo_bmem q n) 11 = 1"
  by (simp_all add: contents_def room_of_def demo_ready)
    (simp_all add: copy_queue_def small_queue_def ring_list_def)

lemma demo_key [simp]: "routing_key demo_message = Some ''test''" "exchange demo_message = Some ''amq.direct''"
  by (simp_all add: demo_message_def)

subsection \<open>Publishing\<close>

text \<open>
  C2. Publishing delivers as specified: on a well-formed broker, a complete message published
  to one of its exchanges is appended, as an equal copy, to each queue its bindings select
  that still has room, in the order of the bindings, and to no other; when at least one
  queue takes it the call returns 1, the queues stay well formed and the caller's message is
  unchanged. When the kernel accepts what is sent, each live consumer of a queue that took the
  message gets its wire image after what it got before, and nothing else is sent.
\<close>

theorem broker_publish_routes:
  assumes "sys_fine s" and "queues_ok s" and "consumers_ok s" and "broker_at ba s b"
    and "points_named (exchange_heap s) ex_name (Some ea)"
    and "msgs s ma = Some m" and "msg_complete m"
    and "spec_route (room_of s) m (targets s b ea (the (routing_key m))) (contents s) = (r, C)" and "r \<noteq> 0"
  shows "\<exists>s'. broker_publish (Some ba) (Some ea) (Some ma) s = Inr (True, s') \<and> queues_ok s' \<and>
    contents s' = C \<and> msgs s' ma = Some m \<and>
    (sends_ok s m \<longrightarrow> out (net s') =
       snd (spec_forward (room_of s) m (fds_of s) (targets s b ea (the (routing_key m))) (contents s) (out (net s))))"
  using publish_cases [OF assms(1-3,6,7,4,5,8)] assms(9) publish_sends [OF assms(1-3,6,7,4)] by auto

lemma demo_consumer_fds:
  assumes "q_name q = Some ''test''"
  shows "fds_of (demo_bmem q n) qa = (if qa = 10 then [5] else [])"
proof -
  have "consumer_count (demo_bmem q n) = 1"
    "consumers (demo_bmem q n) = \<lparr>client_index = 1, ci_queue_name = ''test''\<rparr> # replicate 99 zero_consumer"
    by (simp_all add: demo_bmem_def)
  then have "consumer_fds (demo_bmem q n) nm = (if nm = ''test'' then [5] else [])" for nm
    by (simp add: consumer_fds_def live_consumer_def consumer_def)
  with assms show ?thesis by (simp add: fds_of_def copy_ok(3))
qed

theorem broker_publish_routes_witness:
  "\<exists>s'. broker_publish (Some 40) (Some 21) (Some 5) (demo_bmem demo_queue (full_net (\<lambda>_. []))) = Inr (True, s') \<and>
     contents s' 10 = [demo_message, demo_message, demo_message] \<and> contents s' 11 = [demo_message] \<and>
     out (net s') 5 = wire_image demo_message \<and> out (net s') 4 = []"
proof -
  let ?s = "demo_bmem demo_queue (full_net (\<lambda>_. []))"
  have "\<forall>qa\<in>set [10, 11]. length (contents ?s qa) < room_of ?s qa" by (simp add: demo_contents)
  then have r: "spec_route (room_of ?s) demo_message (targets ?s demo_broker 21 (the (routing_key demo_message))) (contents ?s) =
      (2, \<lambda>qa. if qa \<in> set [10, 11] then contents ?s qa @ [demo_message] else contents ?s qa)"
    by (simp add: demo_targets spec_route_distinct)
  have "snd (spec_forward (room_of ?s) demo_message (fds_of ?s) [10, 11] (contents ?s) (out (full_net (\<lambda>_. [])))) =
      (\<lambda>_. [])(5 := wire_image demo_message)"
    by (simp add: spec_forward_def spec_send_def spec_deliver_def demo_contents demo_consumer_fds broadcast_def full_net_def)
  moreover have "sends_ok ?s demo_message"
    using demo_wire by (simp add: sends_ok_def demo_consumer_fds)
  ultimately show ?thesis
    using broker_publish_routes [OF _ demo_queues_ok [OF demo_at(1)] demo_consumers_ok demo_broker_at _ _ _ r, of _ 5]
    by (auto simp: pointer_cases demo_contents demo_targets)
qed

text \<open>
  A message that no queue takes, because no binding selects it or every selected queue is
  full, is freed twice: \<open>broker_route_message\<close> frees the clone it was given and
  \<open>broker_publish\<close> frees it again.
\<close>

theorem broker_publish_unroutable_double_free:
  assumes "sys_fine s" and "queues_ok s" and "consumers_ok s" and "broker_at ba s b"
    and "points_named (exchange_heap s) ex_name (Some ea)"
    and "msgs s ma = Some m" and "msg_complete m"
    and "\<forall>qa\<in>set (targets s b ea (the (routing_key m))). room_of s qa \<le> length (contents s qa)"
  shows "broker_publish (Some ba) (Some ea) (Some ma) s = Inl (DoubleFree (brk s))"
  using publish_cases [OF assms(1-3,6,7,4,5) spec_route_full [OF assms(8)]] by simp

theorem broker_publish_unroutable_double_free_witness:
  "broker_publish (Some 40) (Some 20) (Some 5) (demo_bmem full_queue (full_net (\<lambda>_. []))) = Inl (DoubleFree 50)"
  using broker_publish_unroutable_double_free [OF _ demo_queues_ok [OF demo_at(2)] demo_consumers_ok demo_broker_at,
      of "full_net (\<lambda>_. [])" "''test''" 20 5 demo_message]
  by (simp add: demo_targets demo_contents pointer_cases)

text \<open>
  When exactly one queue takes the message, the clone made for routing is never freed:
  after the call it is allocated, and no queue owns it. When two or more take it, no message
  is left without an owner that had one before.
\<close>

theorem broker_publish_single_route_leak:
  assumes "sys_fine s" and "queues_ok s" and "consumers_ok s" and "broker_at ba s b"
    and "points_named (exchange_heap s) ex_name (Some ea)"
    and "msgs s ma = Some m" and "msg_complete m"
    and "spec_route (room_of s) m (targets s b ea (the (routing_key m))) (contents s) = (r, C)" and "r \<noteq> 0"
  shows "\<exists>s'. broker_publish (Some ba) (Some ea) (Some ma) s = Inr (True, s') \<and>
    unowned s' = (if r = 1 then insert (brk s) (unowned s) else unowned s) \<and> brk s \<notin> unowned s"
  using publish_cases [OF assms(1-3,6,7,4,5,8)] assms(9) brk_not_unowned [OF assms(2)] by auto

theorem broker_publish_single_route_leak_witness:
  "\<exists>s'. broker_publish (Some 40) (Some 20) (Some 5) (demo_bmem demo_queue (full_net (\<lambda>_. []))) = Inr (True, s') \<and>
     50 \<in> unowned s'"
proof -
  let ?s = "demo_bmem demo_queue (full_net (\<lambda>_. []))"
  have "spec_route (room_of ?s) demo_message (targets ?s demo_broker 20 (the (routing_key demo_message))) (contents ?s) =
      (1, (contents ?s)(10 := contents ?s 10 @ [demo_message]))"
    by (simp add: demo_targets spec_route_def spec_deliver_def demo_contents)
  from broker_publish_single_route_leak [OF _ demo_queues_ok [OF demo_at(1)] demo_consumers_ok demo_broker_at _ _ _ this, of _ 5]
  show ?thesis by (auto simp: pointer_cases)
qed

text \<open>
  A fanout exchange gives every bound queue one copy: when the queues bound to it are
  distinct and all have room, each of them gets the message at its end whatever the routing
  key, every other queue is as before, and the call returns 1.
\<close>

theorem broker_fanout_delivers_to_all:
  assumes "sys_fine s" and "queues_ok s" and "consumers_ok s" and "broker_at ba s b"
    and "points_named (exchange_heap s) ex_name (Some ea)"
    and "ex_type (the (exchange_heap s ea)) = EXCHANGE_TYPE_FANOUT"
    and "msgs s ma = Some m" and "msg_complete m"
    and "qs = map b_queue (filter (\<lambda>bd. b_exchange bd = ea) (bindings_of s b))" and "distinct qs" and "qs \<noteq> []"
    and "\<forall>qa\<in>set qs. length (contents s qa) < room_of s qa"
  shows "\<exists>s'. broker_publish (Some ba) (Some ea) (Some ma) s = Inr (True, s') \<and> queues_ok s' \<and>
    (\<forall>qa. contents s' qa = (if qa \<in> set qs then contents s qa @ [m] else contents s qa))"
proof -
  have t: "targets s b ea (the (routing_key m)) = qs"
    unfolding targets_def assms(6,9) selects_def by simp
  have "spec_route (room_of s) m (targets s b ea (the (routing_key m))) (contents s) =
      (length qs, \<lambda>qa. if qa \<in> set qs then contents s qa @ [m] else contents s qa)"
    unfolding t by (rule spec_route_distinct [OF assms(10,12)])
  from publish_cases [OF assms(1-3,7,8,4,5) this] assms(11) show ?thesis by auto
qed

theorem broker_fanout_delivers_to_all_witness:
  "\<exists>s'. broker_publish (Some 40) (Some 21) (Some 5) (demo_bmem demo_queue (full_net (\<lambda>_. []))) = Inr (True, s') \<and>
     contents s' 11 = [demo_message]"
  using broker_fanout_delivers_to_all [OF _ demo_queues_ok [OF demo_at(1)] demo_consumers_ok demo_broker_at,
      of "full_net (\<lambda>_. [])" "''test''" 21 5 demo_message "[10, 11]"]
  by (auto simp: demo_bindings demo_contents pointer_cases)

text \<open>The rule for topics: words separated by dots, \<open>*\<close> for one word, \<open>#\<close> for any number.\<close>

fun topic_words :: "string \<Rightarrow> string list" where
  "topic_words [] = [[]]"
| "topic_words (c # s) =
     (if c = CHR ''.'' then [] # topic_words s
      else (case topic_words s of [] \<Rightarrow> [[c]] | w # ws \<Rightarrow> (c # w) # ws))"

fun words_match :: "string list \<Rightarrow> string list \<Rightarrow> bool" where
  "words_match [] ws = (ws = [])"
| "words_match (p # ps) [] = (p = ''#'' \<and> words_match ps [])"
| "words_match (p # ps) (w # ws) =
     (if p = ''#'' then words_match ps (w # ws) \<or> words_match (p # ps) ws
      else (p = ''*'' \<or> p = w) \<and> words_match ps ws)"

lemma words_match_hash: "words_match [''#''] ws"
  by (induction ws) simp_all

lemma words_match_zero: "words_match ps ws \<Longrightarrow> words_match (''#'' # ps) ws"
  by (cases ws) simp_all

lemma words_match_refl: "words_match ws ws"
  by (induction ws) (simp_all add: words_match_zero)

lemma topic_words_single: "CHR ''.'' \<notin> set s \<Longrightarrow> topic_words s = [s]"
  by (induction s) auto

text \<open>
  The topic match is sound but incomplete with respect to the rule the code quotes: let a
  pattern's words be separated by dots, \<open>*\<close> stand for one word and \<open>#\<close> for any number of
  words. Whenever \<open>match_topic\<close> accepts, the rule does; it never faults on a routing key; and
  it takes a wildcard inside a longer pattern literally, so that \<open>test.#\<close> rejects
  \<open>test.x\<close>, which the rule accepts.
\<close>

theorem match_topic_sound:
  "\<exists>r. match_topic pattern (Some key) = Inr r \<and>
     (r \<longrightarrow> words_match (topic_words pattern) (topic_words key)) \<and>
     (pattern \<noteq> ''#'' \<and> pattern \<noteq> ''*'' \<longrightarrow> r = (pattern = key))"
proof -
  have "match_topic pattern (Some key) = Inr (topic_matches pattern key)"
    by (auto simp: match_topic_def topic_matches_def)
  moreover have "words_match (topic_words pattern) (topic_words key)" if "topic_matches pattern key"
    using that words_match_hash words_match_refl
    by (auto simp: topic_matches_def topic_words_single)
  moreover have "pattern \<noteq> ''#'' \<and> pattern \<noteq> ''*'' \<longrightarrow> topic_matches pattern key = (pattern = key)"
    by (simp add: topic_matches_def)
  ultimately show ?thesis by blast
qed

theorem match_topic_sound_witness:
  "\<exists>r. match_topic ''test.#'' (Some ''test.x'') = Inr r \<and> \<not> r \<and>
     words_match (topic_words ''test.#'') (topic_words ''test.x'')"
  using match_topic_sound [of "''test.#''" "''test.x''"] by simp

end
