(* ===== verification/Broker_Races.thy ===== *)
theory Broker_Races
  imports Broker_Handler
begin

text \<open>
  The table of consumers of \<open>src/core/broker.c\<close> under concurrent handlers: \<open>register_consumer\<close>
  runs on every handler's thread without a lock, so its statements interleave. Here it is cut
  into the test of the bound, the write of the entry, the increment of \<open>consumer_count\<close> and the
  marking of the client; run alone, the four are \<open>register_consumer\<close>.
\<close>

datatype register_pc = Reg_Check | Reg_Write | Reg_Count | Reg_Mark | Reg_Done bool

definition register_step :: "nat \<Rightarrow> string \<Rightarrow> register_pc \<Rightarrow> 'z bmem_scheme \<Rightarrow> fault + register_pc \<times> 'z bmem_scheme" where
  "register_step i nm pc s =
     (case pc of
        Reg_Check \<Rightarrow>
          Inr (if i \<ge> MAX_CONNECTIONS \<or> consumer_count s \<ge> MAX_CONNECTIONS then Reg_Done False else Reg_Write, s)
      | Reg_Write \<Rightarrow>
          ebind (arr_put (consumers s) (consumer_count s) \<lparr>client_index = i, ci_queue_name = strncpy_z 64 nm\<rparr>) (\<lambda>cs.
          Inr (Reg_Count, s\<lparr>consumers := cs\<rparr>))
      | Reg_Count \<Rightarrow> Inr (Reg_Mark, s\<lparr>consumer_count := consumer_count s + 1\<rparr>)
      | Reg_Mark \<Rightarrow>
          ebind (arr_get (client_connections s) i) (\<lambda>conn.
          ebind (arr_put (client_connections s) i (conn\<lparr>is_consumer := True, cc_queue_name := strncpy_z 64 nm\<rparr>)) (\<lambda>conns.
          Inr (Reg_Done True, s\<lparr>client_connections := conns\<rparr>)))
      | Reg_Done r \<Rightarrow> Inr (Reg_Done r, s))"

text \<open>Two handlers, and the order in which they take steps: \<open>False\<close> is the first.\<close>

definition race_step ::
    "nat \<times> string \<Rightarrow> nat \<times> string \<Rightarrow> bool \<Rightarrow> (register_pc \<times> register_pc) \<times> 'z bmem_scheme
      \<Rightarrow> fault + (register_pc \<times> register_pc) \<times> 'z bmem_scheme" where
  "race_step x y who st =
     (case st of ((p, q), s) \<Rightarrow>
        if who then ebind (register_step (fst y) (snd y) q s) (\<lambda>(q, s). Inr ((p, q), s))
        else ebind (register_step (fst x) (snd x) p s) (\<lambda>(p, s). Inr ((p, q), s)))"

text \<open>One handler after the other is two calls of \<open>register_consumer\<close>.\<close>

lemma register_alone:
  assumes "i < MAX_CONNECTIONS"
  shows "for_loop (\<lambda>_ (pc, s). register_step i nm pc s) [0..<4] (Reg_Check, s) =
    ebind (register_consumer (int i) (Some nm) s) (\<lambda>(ok, s). Inr (Reg_Done ok, s))"
  using assms
  by (simp add: register_step_def register_consumer_def Let_def arr_put_def arr_get_def upt_rec)

lemma race_turns:
  "for_loop (race_step x y) (False # ws) ((p, q), s) =
     ebind (register_step (fst x) (snd x) p s) (\<lambda>(p, s). for_loop (race_step x y) ws ((p, q), s))"
  "for_loop (race_step x y) (True # ws) ((p, q), s) =
     ebind (register_step (fst y) (snd y) q s) (\<lambda>(q, s). for_loop (race_step x y) ws ((p, q), s))"
  by (simp_all add: race_step_def ebind_assoc split_def)

lemmas register_steps =
  register_step_def [of _ _ Reg_Check] register_step_def [of _ _ Reg_Write] register_step_def [of _ _ Reg_Count]
  register_step_def [of _ _ Reg_Mark]

lemma race_lost:
  assumes ok: "consumers_ok s" and ij: "i < MAX_CONNECTIONS" "j < MAX_CONNECTIONS" and n: "consumer_count s + 1 < MAX_CONNECTIONS"
  shows "\<exists>s'. for_loop (race_step (i, nm) (j, nm')) [False, True, False, True, False, True, False, True]
      ((Reg_Check, Reg_Check), s) = Inr ((Reg_Done True, Reg_Done True), s') \<and>
    consumer_count s' = consumer_count s + 2 \<and>
    consumers s' = (consumers s)[consumer_count s := \<lparr>client_index = j, ci_queue_name = strncpy_z 64 nm'\<rparr>]"
proof -
  have "length (consumers s) = MAX_CONNECTIONS" "length (client_connections s) = MAX_CONNECTIONS"
    using ok by (simp_all add: consumers_ok_def)
  with ij n show ?thesis
    by (simp add: race_turns register_steps arr_put_def arr_get_def del: for_loop.simps(2) ebind_Inr_iff)
qed

lemma race_overflow:
  assumes ok: "consumers_ok s" and ij: "i < MAX_CONNECTIONS" "j < MAX_CONNECTIONS" and n: "consumer_count s + 1 = MAX_CONNECTIONS"
  shows "for_loop (race_step (i, nm) (j, nm')) [False, True, False, False, True]
      ((Reg_Check, Reg_Check), s) = Inl (OutOfBounds MAX_CONNECTIONS)"
proof -
  have "length (consumers s) = MAX_CONNECTIONS" "consumer_count s < MAX_CONNECTIONS" "Suc (consumer_count s) = MAX_CONNECTIONS"
    using ok n by (simp_all add: consumers_ok_def)
  with ij show ?thesis
    by (simp add: race_turns register_steps arr_put_def del: for_loop.simps(2) ebind_Inr_iff)
qed

lemma race_free:
  assumes "i < MAX_CONNECTIONS" and "j < MAX_CONNECTIONS"
  shows "for_loop (race_step (i, nm) (j, nm')) [False, False, False, False, True, True, True, True] ((Reg_Check, Reg_Check), s) =
    ebind (register_consumer (int i) (Some nm) s) (\<lambda>(ok, s).
    ebind (register_consumer (int j) (Some nm') s) (\<lambda>(ok', s).
    Inr ((Reg_Done ok, Reg_Done ok'), s)))"
  using assms
  by (simp add: race_turns register_step_def register_consumer_def Let_def arr_put_def arr_get_def
      del: for_loop.simps(2) ebind_Inr_iff)

end
