(* ===== verification/Broker_Server.thy ===== *)
theory Broker_Server
  imports Broker_Main
begin

text \<open>
  The server of \<open>src/core/broker.c\<close> as a whole: the invariant that every step of its threads
  keeps, whatever arrives on the sockets, the faults its process can end with, and what its
  steps do to the queues. The server only ever enqueues: no function of \<open>broker.c\<close> calls a
  dequeue, an acknowledgement or a rejection.
\<close>

subsection \<open>Receiving from arbitrary peers\<close>

lemma recv_settles:
  "settles (recv_into room fd len n) (\<lambda>(bs, n'). \<forall>b. bs = Some b \<longrightarrow> length b = len \<and> len \<le> room)
     (\<lambda>e. e = OutOfBounds room \<and> room < len)"
  by (auto simp: recv_into_def c_recv_def Let_def split: option.split)

lemma same_calls:
  "\<exists>k. s = s\<lparr>sys_calls := k\<rparr>" "\<exists>k. s\<lparr>sys_calls := j\<rparr> = s\<lparr>sys_calls := k\<rparr>"
  by (rule exI [of _ "sys_calls s"], simp) (rule exI [of _ j], simp)

lemma receive_string_settles:
  "settles (receive_string fd s n) (\<lambda>(x, s', n'). \<exists>k. s' = s\<lparr>sys_calls := k\<rparr>) (\<lambda>e. e = OutOfBounds 0)"
proof -
  have room: "unat (w + 1) = 0 \<and> unat w \<noteq> 0 \<or> unat (w + 1) = Suc (unat w)" for w :: u32
    using unat_word_ariths(1) [of w 1] unat_bounds(1) [of w] by (auto simp: mod_Suc)
  have read: "settles (recv_into (unat (w + 1)) fd (unat w) n')
      (\<lambda>(str, n'). (case str of None \<Rightarrow> True | Some bs \<Rightarrow> unat w < unat (w + 1))) (\<lambda>e. e = OutOfBounds 0)"
    for w :: u32 and n'
    by (rule settles_mono [OF recv_settles]) (use room [of w] in \<open>auto split: option.split\<close>)
  show ?thesis
    unfolding receive_string_def settles_simps
    by (rule settles_mono [OF recv_settles])
      (auto simp: same_calls sys_malloc_def Let_def split: option.splits intro!: settles_mono [OF read])
qed

lemma receive_body_settles:
  "settles (receive_body fd w s n) (\<lambda>(x, s', n'). (\<exists>k. s' = s\<lparr>sys_calls := k\<rparr>) \<and>
     (case x of None \<Rightarrow> True | Some None \<Rightarrow> w = 0 | Some (Some b) \<Rightarrow> length b = unat w)) (\<lambda>e. False)"
  unfolding receive_body_def
  by (auto simp: same_calls sys_malloc_def Let_def word_gt_0 split: option.split intro!: settles_mono [OF recv_settles])

lemma receive_property_settles:
  assumes "msgs s a = Some m"
  shows "settles (receive_property fd k f a s n) (\<lambda>(p, s', n').
    p = None \<and> s' = s\<lparr>msgs := (msgs s)(a := None)\<rparr> \<or> p = Some a \<and> (\<exists>b. s' = s\<lparr>msgs := (msgs s)(a \<mapsto> f b m)\<rparr>))
    (\<lambda>e. False)"
  unfolding receive_property_def using assms
  by (auto simp: message_free_live write_message_def split: option.split intro!: settles_mono [OF recv_settles])

lemma msg_complete_properties [simp]:
  "msg_complete (m\<lparr>priority := x\<rparr>) = msg_complete m" "msg_complete (m\<lparr>expiration := y\<rparr>) = msg_complete m"
  "msg_complete (m\<lparr>persistent := z\<rparr>) = msg_complete m"
  by (auto simp: msg_complete_def msg_ok_def split: option.splits)

lemma receive_properties_settles:
  assumes "msgs s a = Some m" and "msg_complete m"
  shows "settles (receive_properties fd a s n) (\<lambda>(p, s', n').
    p = None \<and> s' = s\<lparr>msgs := (msgs s)(a := None)\<rparr> \<or>
    p = Some a \<and> (\<exists>m'. msg_complete m' \<and> s' = s\<lparr>msgs := (msgs s)(a \<mapsto> m')\<rparr>)) (\<lambda>e. False)"
proof -
  define P where "P t \<longleftrightarrow> (\<exists>m'. msg_complete m' \<and> t = s\<lparr>msgs := (msgs s)(a \<mapsto> m')\<rparr>)" for t
  have step: "settles (receive_property fd k f a t n') (\<lambda>(p, s', n').
      p = None \<and> s' = s\<lparr>msgs := (msgs s)(a := None)\<rparr> \<or> p = Some a \<and> P s') (\<lambda>e. False)"
    if "P t" and f: "\<And>b x. msg_complete x \<Longrightarrow> msg_complete (f b x)" for t k f n'
  proof -
    from \<open>P t\<close> obtain m' where "msg_complete m'" "t = s\<lparr>msgs := (msgs s)(a \<mapsto> m')\<rparr>" by (auto simp: P_def)
    with f show ?thesis by (intro settles_mono [OF receive_property_settles [of t a m']]) (auto simp: P_def)
  qed
  have "P s" using assms by (auto simp: P_def map_upd_triv intro: exI [of _ m])
  then show ?thesis
    unfolding receive_properties_def settles_simps P_def [symmetric]
    by (auto intro!: settles_mono [OF step] step)
qed

text \<open>
  Any bytes: the message is complete and new, or nothing stays allocated; the one fault is the
  length that wraps around.
\<close>

definition received_as :: "'z mem_scheme \<Rightarrow> ptr \<Rightarrow> 'z mem_scheme \<Rightarrow> bool" where
  "received_as s p s' \<longleftrightarrow>
     p = None \<and> (\<exists>j k. brk s \<le> j \<and> s' = s\<lparr>sys_calls := k, brk := j\<rparr>) \<or>
     p = Some (brk s) \<and> (\<exists>m k. msg_complete m \<and> s' = with_message m k s)"

lemma receive_message_settles:
  assumes fine: "sys_fine s" and h: "heap_ok s"
  shows "settles (receive_message_data fd s n) (\<lambda>(p, s', n'). received_as s p s') (\<lambda>e. e = OutOfBounds 0)"
proof -
  have body: "settles (ebind (message_create (Some ex) (Some rk) b (unat w) t) (\<lambda>(message, s).
      case message of None \<Rightarrow> Inr (None, s, n') | Some a \<Rightarrow> receive_properties fd a s n')) (\<lambda>(p, s', n'). received_as s p s') (\<lambda>e. e = OutOfBounds 0)"
    if same: "\<exists>j. t = s\<lparr>sys_calls := j\<rparr>" and b: "case b of None \<Rightarrow> w = 0 | Some x \<Rightarrow> length x = unat w"
    for ex rk b t n' and w :: u32
  proof -
    from same obtain j where t: "t = s\<lparr>sys_calls := j\<rparr>" by blast
    have len: "unat w < 2 ^ 63" using unat_bounds(1) [of w] by simp
    have b': "case b of None \<Rightarrow> unat w = 0 | Some x \<Rightarrow> unat w \<le> length x" using b by (auto split: option.splits)
    define m where "m = \<lparr>exchange = Some (cstr ex), routing_key = Some (cstr rk),
      body = (if unat w = 0 then None else Some (take (unat w) (the b))), body_size = unat w,
      priority = 0, expiration = 0, persistent = 0\<rparr>"
    obtain k where c: "message_create (Some ex) (Some rk) b (unat w) t = Inr (Some (brk s), with_message m k s)"
      using message_create_fine [OF _ b' len, of t ex rk] fine t by (auto simp: with_message_def m_def sys_fine_def)
    have m: "msg_complete m"
      using b len by (auto simp: m_def msg_complete_def msg_ok_def split: option.splits)
    have gone: "(msgs (with_message m k s))(brk s := None) = msgs s" by (rule released_clone [OF h])
    have "settles (receive_properties fd (brk s) (with_message m k s) n') (\<lambda>(p, s', n'). received_as s p s') (\<lambda>e. e = OutOfBounds 0)"
    proof (rule settles_mono [OF receive_properties_settles [OF _ m]], goal_cases)
      case (2 x)
      have "(with_message m k s)\<lparr>msgs := (msgs (with_message m k s))(brk s \<mapsto> m')\<rparr> = with_message m' k s" for m'
        by (cases s) (simp add: with_message_def)
      moreover have "(with_message m k s)\<lparr>msgs := msgs s\<rparr> = s\<lparr>sys_calls := k, brk := Suc (brk s)\<rparr>"
        by (cases s) (simp add: with_message_def)
      moreover have "received_as s None (s\<lparr>sys_calls := k, brk := Suc (brk s)\<rparr>)"
        unfolding received_as_def by (intro disjI1 conjI exI [of _ "Suc (brk s)"] exI [of _ k]) simp_all
      ultimately show ?case using 2 gone by (auto simp: received_as_def)
    qed simp_all
    then show ?thesis by (simp add: c)
  qed
  have none: "received_as s None (s\<lparr>sys_calls := k\<rparr>)" for k
    unfolding received_as_def by (intro disjI1 conjI exI [of _ "brk s"] exI [of _ k]) simp_all
  have none_same: "received_as s None s" using none [of "sys_calls s"] by simp
  have word: "settles (recv_into 4 fd 4 n) (\<lambda>_. True) (\<lambda>e. e = OutOfBounds 0)" for n
    by (rule settles_mono [OF recv_settles]) auto
  have bytes: "settles (receive_body fd w s n) (\<lambda>(x, s', n'). (\<exists>k. s' = s\<lparr>sys_calls := k\<rparr>) \<and>
     (case x of None \<Rightarrow> True | Some None \<Rightarrow> w = 0 | Some (Some b) \<Rightarrow> length b = unat w)) (\<lambda>e. e = OutOfBounds 0)"
    for w n and s :: "'a mem_scheme"
    by (rule settles_mono [OF receive_body_settles]) auto
  note binds = settles_bind [OF word] settles_bind [OF receive_string_settles] settles_bind [OF bytes]
  show ?thesis
    unfolding receive_message_data_def
    using none none_same
    by (auto simp: same_calls split: option.split simp del: settles_simps(3) intro!: binds body)
qed

subsection \<open>The invariant of the server\<close>

text \<open>
  Queues, brokers, consumers and slots are well formed, every running handler belongs to the
  broker, and no delivery is pending in any queue.
\<close>

definition server_ok :: "addr \<Rightarrow> 'z bmem_scheme \<Rightarrow> bool" where
  "server_ok ba s \<longleftrightarrow>
     sys_fine s \<and> queues_ok s \<and> consumers_ok s \<and> slots_inv s \<and> (\<exists>b. broker_at ba s b) \<and>
     (\<forall>conn\<in>set (client_connections s). cc_running conn \<longrightarrow> cc_broker conn = Some ba) \<and>
     (\<forall>qa q. queues s qa = Some q \<longrightarrow> unacked_list q = [])"

text \<open>A step leaves the broker and its tables alone and only appends to queues.\<close>

definition only_adds :: "'z bmem_scheme \<Rightarrow> 'z bmem_scheme \<Rightarrow> bool" where
  "only_adds s s' \<longleftrightarrow>
     brokers s' = brokers s \<and> exchange_heap s' = exchange_heap s \<and> binding_heap s' = binding_heap s \<and>
     (\<forall>qa. map_option queue_key (queues s' qa) = map_option queue_key (queues s qa)) \<and>
     (\<forall>qa. \<exists>new. contents s' qa = contents s qa @ new)"

lemma only_adds_refl [simp]: "only_adds s s"
  by (simp add: only_adds_def)

lemma only_adds_trans:
  assumes "only_adds s t" and "only_adds t u"
  shows "only_adds s u"
  using assms unfolding only_adds_def by (metis append.assoc)

lemma only_adds_same:
  assumes "only_adds s s'"
  shows "targets s' b ea key = targets s b ea key" and "room_of s' qa = room_of s qa"
    and "length (contents s qa) \<le> length (contents s' qa)"
proof -
  show "targets s' b ea key = targets s b ea key"
    using assms by (simp add: only_adds_def targets_def bindings_of_def)
  have "map_option queue_key (queues s' qa) = map_option queue_key (queues s qa)"
    using assms by (simp add: only_adds_def)
  then show "room_of s' qa = room_of s qa"
    by (cases "queues s qa"; cases "queues s' qa") (simp_all add: room_of_def queue_key_def)
  obtain new where "contents s' qa = contents s qa @ new" using assms by (auto simp: only_adds_def)
  then show "length (contents s qa) \<le> length (contents s' qa)" by simp
qed

lemma server_ok_same:
  assumes ok: "server_ok ba s" and "queues s' = queues s" "msgs s' = msgs s" "brk s \<le> brk s'" "sys_ok s' = sys_ok s"
    and same: "brokers s' = brokers s" "exchange_heap s' = exchange_heap s" "binding_heap s' = binding_heap s"
    and new: "consumers_ok s'" "slots_inv s'"
      "\<forall>conn\<in>set (client_connections s'). cc_running conn \<longrightarrow> cc_broker conn = Some ba"
  shows "server_ok ba s'" and "only_adds s s'"
proof -
  have c: "contents s' = contents s" using assms(2,3) by (intro ext) (simp add: contents_def split: option.split)
  with assms(2) same show "only_adds s s'" by (simp add: only_adds_def)
  have "queues_ok s'" using ok by (intro same_queues_ok [OF assms(2-4)]) (simp add: server_ok_def)
  moreover have "sys_fine s'" using ok assms(5) by (simp add: server_ok_def sys_fine_def)
  moreover have "broker_at ba s' b" if "broker_at ba s b" for b
    using that by (rule broker_at_mono) (use assms(2) same that in \<open>simp_all add: broker_at_def\<close>)
  ultimately show "server_ok ba s'" using ok new assms(2) by (auto simp: server_ok_def)
qed

lemma spec_route_adds: "\<exists>new. snd (spec_route room m qs c) qa = c qa @ new"
proof (induction qs rule: rev_induct)
  case Nil
  then show ?case by (simp add: spec_route_def)
next
  case (snoc q qs)
  then show ?case by (auto simp: spec_route_snoc spec_deliver_def split: prod.split)
qed

subsection \<open>The steps keep the invariant\<close>

text \<open>A pass that ends without delivering: nothing was received, or the message was freed.\<close>

lemma handler_quiet:
  fixes s :: "'z bmem_scheme" and k :: nat
  assumes "server_ok ba s" and "brk s \<le> j"
  shows "server_ok ba (s\<lparr>sys_calls := k, brk := j, net := n\<rparr>)" "only_adds s (s\<lparr>sys_calls := k, brk := j, net := n\<rparr>)"
proof -
  let ?s = "s\<lparr>sys_calls := k, brk := j, net := n\<rparr>"
  have "consumers_ok ?s" "slots_inv ?s"
    "\<forall>conn\<in>set (client_connections ?s). cc_running conn \<longrightarrow> cc_broker conn = Some ba"
    using assms(1) by (simp_all add: server_ok_def consumers_ok_def slots_inv_def used_slots_def)
  with assms(2) show "server_ok ba ?s" "only_adds s ?s"
    by (simp_all add: server_ok_same [OF assms(1), of ?s])
qed

lemma free_received:
  fixes s :: "'z bmem_scheme"
  assumes "heap_ok s"
  shows "message_free (Some (brk s)) (received m k n s) = Inr (s\<lparr>sys_calls := k, brk := Suc (brk s), net := n\<rparr>)"
proof -
  have "(received m k n s)\<lparr>msgs := msgs s\<rparr> = s\<lparr>sys_calls := k, brk := Suc (brk s), net := n\<rparr>"
    by (cases s) (simp add: received_def with_message_def)
  then show ?thesis
    using released_clone [OF assms, of m k] by (simp add: message_free_live received_def)
qed

lemma kept_adds:
  assumes "routing_kept s s'" and "\<And>qa. \<exists>new. contents s' qa = contents s qa @ new"
  shows "only_adds s s'"
  using assms by (simp add: only_adds_def routing_kept_def routing_frame_def)

lemma server_ok_kept:
  assumes ok: "server_ok ba s" and kept: "routing_kept s s'" and new: "queues_ok s'" "slots_inv s'"
  shows "server_ok ba s'"
proof -
  have f: "sys_ok s' = sys_ok s" "client_connections s' = client_connections s" "consumers s' = consumers s"
    "consumer_count s' = consumer_count s" and key: "\<And>qa. map_option queue_key (queues s' qa) = map_option queue_key (queues s qa)"
    using kept by (simp_all add: routing_kept_def routing_frame_def)
  have "unacked_list q = []" if "queues s' qa = Some q" for qa q
  proof -
    from key [of qa] that obtain q0 where "queues s qa = Some q0" "queue_key q = queue_key q0"
      by (cases "queues s qa") auto
    with ok show ?thesis by (auto simp: server_ok_def queue_key_def)
  qed
  moreover have "sys_fine s'" "consumers_ok s'"
    using ok f by (simp_all add: server_ok_def sys_fine_def consumers_ok_def)
  ultimately show ?thesis
    using ok new f(2) kept_broker_at [OF kept, of ba] unfolding server_ok_def by auto
qed

text \<open>With a message just received, and without a message that no queue owns.\<close>

lemma server_ok_received:
  fixes s :: "'z bmem_scheme"
  assumes ok: "server_ok ba s" and m: "msg_complete m"
  shows "server_ok ba (received m k n s)" "only_adds s (received m k n s)"
proof -
  have q: "queues_ok s" and slots: "slots_inv s" using ok by (simp_all add: server_ok_def)
  note w = received_ok [OF q m, of k n]
  have kept: "routing_kept s (received m k n s)" by (rule frame_kept [OF w(4)])
  have "slots_kept s (received m k n s)" by (simp add: slots_kept_def received_def with_message_def)
  then show "server_ok ba (received m k n s)"
    by (rule server_ok_kept [OF ok kept w(1) slots_inv_kept [OF slots]])
  show "only_adds s (received m k n s)" by (rule kept_adds [OF kept]) (simp add: w(3))
qed

lemma free_settles:
  fixes s :: "'z bmem_scheme"
  assumes ok: "server_ok ba s" and a: "a \<in> unowned s"
  shows "settles (message_free (Some a) s) (\<lambda>s'. server_ok ba s' \<and> only_adds s s' \<and> unowned s' = unowned s - {a} \<and>
    msgs s' = (msgs s)(a := None) \<and> brk s' = brk s) (\<lambda>e. False)"
proof -
  have q: "queues_ok s" and slots: "slots_inv s" using ok by (simp_all add: server_ok_def)
  note f = free_unowned [OF q a]
  let ?s = "s\<lparr>msgs := (msgs s)(a := None)\<rparr>"
  have kept: "routing_kept s ?s" by (simp add: frame_kept)
  have "slots_kept s ?s" by (simp add: slots_kept_def)
  then have "server_ok ba ?s" by (rule server_ok_kept [OF ok kept f(2) slots_inv_kept [OF slots]])
  moreover have "only_adds s ?s" by (rule kept_adds [OF kept]) (simp add: f(4))
  ultimately show ?thesis using f(1,3) by simp
qed

text \<open>A registration, whether the table has room or not.\<close>

lemma register_settles:
  fixes s :: "'z bmem_scheme"
  assumes ok: "server_ok ba s" and i: "i < MAX_CONNECTIONS"
  shows "settles (register_consumer (int i) (Some nm) s) (\<lambda>(r, s'). server_ok ba s' \<and> only_adds s s' \<and>
    unowned s' = unowned s \<and> msgs s' = msgs s \<and> brk s' = brk s) (\<lambda>e. False)"
proof (cases "consumer_count s < MAX_CONNECTIONS")
  case False
  then show ?thesis using i ok by (simp add: register_consumer_def)
next
  case True
  have lens: "length (consumers s) = MAX_CONNECTIONS" "length (client_connections s) = MAX_CONNECTIONS"
    and conns: "\<forall>conn\<in>set (client_connections s). cc_running conn \<longrightarrow> cc_broker conn = Some ba"
    and slots: "slots_inv s" and cons: "consumers_ok s"
    using ok by (simp_all add: server_ok_def consumers_ok_def)
  let ?name = "strncpy_z 64 nm"
  define u where "u = s\<lparr>consumers := (consumers s)[consumer_count s := \<lparr>client_index = i, ci_queue_name = ?name\<rparr>],
      consumer_count := Suc (consumer_count s),
      client_connections := (client_connections s)[i := (client_connections s ! i)\<lparr>is_consumer := True, cc_queue_name := ?name\<rparr>]\<rparr>"
  have r: "register_consumer (int i) (Some nm) s = Inr (True, u)"
    using i lens True by (cases s) (simp add: register_consumer_def Let_def arr_put_Inr arr_get_Inr u_def)
  have "slots_kept s u"
    using i lens by (simp add: slots_kept_def u_def map_update) (metis length_map list_update_id nth_map)
  with slots have "slots_inv u" by (rule slots_inv_kept)
  moreover have "consumers_ok u"
    using cons True i by (auto simp: consumers_ok_def u_def nth_list_update less_Suc_eq)
  moreover have "\<forall>conn\<in>set (client_connections u). cc_running conn \<longrightarrow> cc_broker conn = Some ba"
    using conns i lens by (auto simp: u_def dest!: subsetD [OF set_update_subset_insert])
  moreover have "unowned u = unowned s" by (simp add: unowned_def all_held_def u_def)
  ultimately show ?thesis
    using r server_ok_same [OF ok, of u] by (simp add: u_def)
qed

lemma handler_registration:
  fixes s :: "'z bmem_scheme"
  assumes ok: "server_ok ba s" and m: "msg_complete m" and i: "i < MAX_CONNECTIONS"
  shows "settles (ebind (register_consumer (int i) (Some nm) (received m k n s))
      (\<lambda>(ok, s'). ebind (message_free (Some (brk s)) s') (\<lambda>s'. Inr (True, s'))))
    (\<lambda>(r, s'). server_ok ba s' \<and> only_adds s s') (\<lambda>e. False)"
proof -
  note r = server_ok_received [OF ok m, of k n]
  have "queues_ok s" using ok by (simp add: server_ok_def)
  from received_ok(2) [OF this m, of k n] have "brk s \<in> unowned (received m k n s)" by simp
  then show ?thesis
    by (auto intro!: settles_mono [OF register_settles [OF r(1) i]] settles_mono [OF free_settles]
        intro: only_adds_trans [OF only_adds_trans [OF r(2)]])
qed

text \<open>A message for an exchange: published, or the double free when no queue has room.\<close>

lemma spec_route_none:
  "fst (spec_route room m qs c) = 0 \<Longrightarrow> snd (spec_route room m qs c) = c \<and> (\<forall>qa\<in>set qs. room qa \<le> length (c qa))"
  by (induction qs rule: rev_induct)
    (auto simp: spec_route_snoc spec_deliver_def split: prod.splits if_splits, simp_all add: spec_route_def)

lemma handler_publication:
  fixes s :: "'z bmem_scheme"
  assumes ok: "server_ok ba s" and m: "msg_complete m" and b: "broker_at ba s b"
    and get: "broker_get_exchange (Some ba) (exchange m) s = Inr (Some ea)"
  shows "settles (ebind (broker_publish (Some ba) (Some ea) (Some (brk s)) (received m k n s)) (\<lambda>(ok, s').
      ebind (deref (msgs s') (Some (brk s))) (\<lambda>_. Inr (True, s'))))
    (\<lambda>(r, s'). server_ok ba s' \<and> only_adds s s')
    (\<lambda>e. e = DoubleFree (Suc (brk s)) \<and>
      (\<forall>qa\<in>set (targets s b ea (the (routing_key m))). room_of s qa \<le> length (contents s qa)))"
proof -
  define s1 where "s1 = received m k n s"
  have q: "queues_ok s" and fine: "sys_fine s" and cons: "consumers_ok s" and slots: "slots_inv s"
    using ok by (simp_all add: server_ok_def)
  note w = received_ok [OF q m, of k n, folded s1_def]
  note fs = frame_simps [OF w(4)]
  have s1: "sys_fine s1" "msgs s1 (brk s) = Some m" "consumers_ok s1" "brk s1 = Suc (brk s)"
    using fine cons fs by (simp_all add: s1_def sys_fine_def)
  have e: "points_named (exchange_heap s1) ex_name (Some ea)"
    using get_exchange_points [OF b get] by (simp add: s1_def)
  obtain r C where spec: "spec_route (room_of s) m (targets s b ea (the (routing_key m))) (contents s) = (r, C)"
    by (cases "spec_route (room_of s) m (targets s b ea (the (routing_key m))) (contents s)")
  have "room_of s1 = room_of s" by (rule ext) (rule fs(5))
  then have sp: "spec_route (room_of s1) m (targets s1 b ea (the (routing_key m))) (contents s1) = (r, C)"
    using spec fs(2) w(3) by simp
  note p = publish_cases [OF s1(1) w(1) s1(3,2) m frame_broker_at [OF w(4) b] e sp]
  show ?thesis
  proof (cases "r = 0")
    case True
    with p s1(4) have "broker_publish (Some ba) (Some ea) (Some (brk s)) s1 = Inl (DoubleFree (Suc (brk s)))" by simp
    with spec_route_none [of "room_of s" m "targets s b ea (the (routing_key m))" "contents s"] spec True show ?thesis
      by (simp add: s1_def)
  next
    case False
    with p obtain s2 where 2: "broker_publish (Some ba) (Some ea) (Some (brk s)) s1 = Inr (True, s2)"
      "queues_ok s2" "contents s2 = C" "msgs s2 (brk s) = Some m" "routing_kept s1 s2" by auto
    have kept: "routing_kept s s2" by (rule routing_kept_trans [OF frame_kept [OF w(4)] 2(5)])
    have core: "core_step s1 s2" by (rule broker_publish_frame [OF 2(1)])
    have "only_adds s s2"
      using spec_route_adds [of "room_of s" m "targets s b ea (the (routing_key m))" "contents s"] spec 2(3)
      by (intro kept_adds [OF kept]) simp
    moreover have "server_ok ba s2"
    proof (rule server_ok_kept [OF ok kept 2(2)])
      have "slots_kept s s1" by (simp add: slots_kept_def s1_def received_def with_message_def)
      then show "slots_inv s2" by (rule slots_inv_kept [OF slots slots_kept_trans [OF _ core_slots [OF core]]])
    qed
    ultimately show ?thesis using 2 by (simp add: s1_def)
  qed
qed

text \<open>
  A pass of a handler, whatever its client sends: the invariant is kept and queues only grow,
  or the process ends with one of two faults.
\<close>

definition server_fault :: "'z bmem_scheme \<Rightarrow> fault \<Rightarrow> bool" where
  "server_fault s e \<longleftrightarrow> e = OutOfBounds 0 \<or> e = DoubleFree (Suc (brk s))"

lemma handler_settles:
  fixes s :: "'z bmem_scheme"
  assumes ok: "server_ok ba s" and i: "i < MAX_CONNECTIONS"
  shows "settles (client_handler_thread i s) (\<lambda>(r, s'). server_ok ba s' \<and> only_adds s s') (server_fault s)"
proof -
  define conn where "conn = client_connections s ! i"
  have q: "queues_ok s" "heap_ok s" "sys_fine s" and len: "i < length (client_connections s)"
    and br: "cc_running conn \<Longrightarrow> cc_broker conn = Some ba"
    using ok i by (auto simp: server_ok_def consumers_ok_def queues_okD conn_def)
  obtain b where b: "broker_at ba s b" using ok by (auto simp: server_ok_def)
  have recv: "settles (receive_message_data (cc_fd conn) s (net s)) (\<lambda>(p, s', n'). received_as s p s') (server_fault s)"
    by (rule settles_mono [OF receive_message_settles [OF q(3,2)]]) (auto simp: server_fault_def)
  note quiet = handler_quiet [OF ok]
  have free: "settles (ebind (message_free (Some (brk s)) (received m k n s)) (\<lambda>s. Inr (True, s)))
      (\<lambda>(r, s'). server_ok ba s' \<and> only_adds s s') (server_fault s)" for m k n
    using quiet [of "Suc (brk s)"] by (simp add: free_received [OF q(2)])
  have get: "broker_get_exchange (Some ba) x (received m k n s) = broker_get_exchange (Some ba) x s" for x m k n
    by (simp add: broker_get_exchange_def exchange_name_at_def [abs_def] split: option.split)
  have looked: "\<exists>p. broker_get_exchange (Some ba) (exchange m) s = Inr p" if "msg_complete m" for m
    using get_exchange_eq [OF b] that by (auto simp: msg_complete_def)
  show ?thesis
  proof (cases "cc_running conn")
    case False
    then show ?thesis using len ok by (simp add: client_handler_thread_def arr_get_Inr conn_def)
  next
    case True
    note start = client_handler_thread_def arr_get_Inr [OF len] conn_def [symmetric]
    show ?thesis
    proof (cases "receive_message_data (cc_fd conn) s (net s)")
      case (Inl e)
      with recv True show ?thesis by (simp add: start)
    next
      case (Inr x)
      then obtain p s1 n where r: "receive_message_data (cc_fd conn) s (net s) = Inr (p, s1, n)" by (cases x) auto
      with recv have "received_as s p s1" by simp
      then consider (none) j k where "p = None" "brk s \<le> j" "s1 = s\<lparr>sys_calls := k, brk := j\<rparr>"
        | (some) m k where "p = Some (brk s)" "msg_complete m" "s1 = with_message m k s"
        by (auto simp: received_as_def)
      then show ?thesis
      proof cases
        case none
        then show ?thesis using quiet [of j] True by (simp add: start r Let_def)
      next
        case (some m k)
        then obtain ex rk where e: "exchange m = Some ex" "routing_key m = Some rk" by (auto simp: msg_complete_def)
        have s1: "s1\<lparr>net := n\<rparr> = received m k n s" "msgs s1 (brk s) = Some m" by (simp_all add: some received_def)
        obtain exch where ex: "broker_get_exchange (Some ba) (Some ex) s = Inr exch" using looked [OF some(2)] e by auto
        have reg: "settles (ebind (register_consumer (int i) (Some nm) (received m k n s))
            (\<lambda>(ok, s'). ebind (message_free (Some (brk s)) s') (\<lambda>s'. Inr (True, s'))))
          (\<lambda>(r, s'). server_ok ba s' \<and> only_adds s s') (server_fault s)" for nm
          by (rule settles_mono [OF handler_registration [OF ok some(2) i]]) simp_all
        have pub: "settles (ebind (broker_publish (Some ba) (Some ea) (Some (brk s)) (received m k n s)) (\<lambda>(ok, s').
            ebind (deref (msgs s') (Some (brk s))) (\<lambda>_. Inr (True, s'))))
          (\<lambda>(r, s'). server_ok ba s' \<and> only_adds s s') (server_fault s)" if "exch = Some ea" for ea
          by (rule settles_mono [OF handler_publication [OF ok some(2) b]]) (use ex e that in \<open>auto simp: server_fault_def\<close>)
        show ?thesis
          using True e br [OF True] some(1) ex free [of m k n] reg pub
          by (cases exch) (auto simp: start r s1 get Let_def simp del: settles_simps(3) ebind_Inr_iff)
      qed
    qed
  qed
qed

text \<open>The accept loop and the event loop never fault, and the event loop finds nothing to requeue.\<close>

lemma accept_settles:
  assumes ok: "server_ok ba s" and fd: "fd \<noteq> -1" and b: "broker_at ba s b"
  shows "settles (network_accept ba fd s)
    (\<lambda>(r, s'). server_ok ba s' \<and> only_adds s s' \<and> queues s' = queues s \<and> msgs s' = msgs s) (\<lambda>e. False)"
proof -
  have slots: "slots_inv s" and cons: "consumers_ok s"
    and conns: "\<forall>conn\<in>set (client_connections s). cc_running conn \<longrightarrow> cc_broker conn = Some ba"
    using ok by (simp_all add: server_ok_def)
  have br: "brokers s ba = Some b" using b by (simp add: broker_at_def)
  have lens: "length (client_connections s) = MAX_CONNECTIONS" "length (client_fds s) = MAX_CONNECTIONS"
    using slots by (simp_all add: slots_inv_def)
  have step: "settles (network_accept ba fd s) (\<lambda>(r, s'). queues s' = queues s \<and> msgs s' = msgs s \<and> brk s' = brk s \<and>
      sys_ok s' = sys_ok s \<and> brokers s' = brokers s \<and> exchange_heap s' = exchange_heap s \<and>
      binding_heap s' = binding_heap s \<and> consumers s' = consumers s \<and> consumer_count s' = consumer_count s \<and>
      (\<forall>conn\<in>set (client_connections s'). cc_running conn \<longrightarrow> cc_broker conn = Some ba)) (\<lambda>e. False)"
  proof (cases "br_running b \<noteq> 0 \<and> \<not> fd < 0 \<and> client_count s < MAX_CONNECTIONS")
    case False
    then show ?thesis using br conns by (auto simp: network_accept_def close_fd_def)
  next
    case True
    with free_slot_exists [OF slots] obtain i where f: "free_slot s = Inr (Some i)" by blast
    have i: "i < MAX_CONNECTIONS" using free_slot_some [OF f] lens by simp
    then show ?thesis using True br conns f lens
      by (auto simp: network_accept_def sys_try_def arr_put_Inr close_fd_def Let_def
          dest!: subsetD [OF set_update_subset_insert])
  qed
  show ?thesis
  proof (cases "network_accept ba fd s")
    case (Inl e)
    with step show ?thesis by simp
  next
    case (Inr x)
    then obtain r s' where r: "network_accept ba fd s = Inr (r, s')" by (cases x) auto
    with step have f: "queues s' = queues s" "msgs s' = msgs s" "brk s' = brk s" "sys_ok s' = sys_ok s"
      "brokers s' = brokers s" "exchange_heap s' = exchange_heap s" "binding_heap s' = binding_heap s"
      "consumers s' = consumers s" "consumer_count s' = consumer_count s"
      "\<forall>conn\<in>set (client_connections s'). cc_running conn \<longrightarrow> cc_broker conn = Some ba" by simp_all
    have "slots_inv s'" using accept_slots [OF slots r fd] by blast
    moreover from this have "consumers_ok s'" using cons f(8,9) by (simp add: consumers_ok_def slots_inv_def)
    ultimately show ?thesis using r server_ok_same [OF ok f(1,2) _ f(4-7) _ _ f(10)] f(1-3) by simp
  qed
qed

lemma event_loop_idle:
  assumes ok: "server_ok ba s"
  shows "\<exists>r. broker_event_loop ba t s = Inr (r, s)"
proof -
  obtain b where b: "broker_at ba s b" using ok by (auto simp: server_ok_def)
  have idle: "timeouts_at b i s = Inr s" if "i < queue_count b" for i
  proof -
    have len: "i < length (br_queues b)" and "points_named (queues s) q_name (br_queues b ! i)"
      using b that by (simp_all add: broker_at_def list_all_length)
    then obtain qa q where q: "br_queues b ! i = Some qa" "queues s qa = Some q" by (auto simp: points_named_def)
    have "queue_at qa s q" and none: "unacked_list q = []"
      using ok q(2) by (auto simp: server_ok_def queues_okD)
    then have "unacked_count q = 0"
      using length_unacked_list [OF queue_atD(4)] none by (metis list.size(3))
    then show ?thesis
      using q len by (simp add: timeouts_at_def arr_get_Inr queue_process_timeouts_def ACK_TIMEOUT_SECONDS_def
          put_queue_def fun_upd_idem)
  qed
  have "for_loop (timeouts_at b) [0..<n] s = Inr s" if "n \<le> queue_count b" for n
    using that by (induction n) (simp_all add: for_loop_append idle)
  with b show ?thesis by (auto simp: broker_event_loop_def broker_at_def)
qed

subsection \<open>Every run of the server\<close>

lemma handler_index: "client_handler_thread i s = Inr x \<Longrightarrow> i < length (client_connections s)"
  by (auto simp: client_handler_thread_def arr_get_def split: if_split_asm)

lemma server_step_ok:
  assumes ok: "server_ok ba s" and st: "server_step ba s s'"
  shows "server_ok ba s' \<and> only_adds s s'"
  using st
proof cases
  case (serve i r)
  then have "i < MAX_CONNECTIONS" using handler_index ok by (force simp: server_ok_def consumers_ok_def)
  from settlesD(1) [OF handler_settles [OF ok this] serve] show ?thesis by simp
next
  case (accepted fd r)
  obtain b where "broker_at ba s b" using ok by (auto simp: server_ok_def)
  from settlesD(1) [OF accept_settles [OF ok accepted(1) this] accepted(2)] show ?thesis by simp
next
  case (timeouts t r)
  with event_loop_idle [OF ok, of t] ok show ?thesis by auto
next
  case (tick t)
  then have "consumers_ok s'" "slots_inv s'"
    "\<forall>conn\<in>set (client_connections s'). cc_running conn \<longrightarrow> cc_broker conn = Some ba"
    using ok by (simp_all add: server_ok_def consumers_ok_def slots_inv_def used_slots_def)
  with tick server_ok_same [OF ok, of s'] show ?thesis by simp
qed

text \<open>What \<open>main\<close> and the start of the network thread leave, when no system call fails.\<close>

definition server_up :: "addr \<Rightarrow> bmem \<Rightarrow> bool" where
  "server_up ba s \<longleftrightarrow>
     (\<exists>args log_fp st s0 cfg st' s1 fd. blank s0 \<and> sys_fine s0 \<and>
        main_start args log_fp st s0 = Inr (cfg, Some ba, st', s1) \<and> network_start fd True True s1 = (True, s))"

lemma server_up_ok:
  assumes "server_up ba s"
  shows "server_ok ba s"
proof -
  from assms obtain args log_fp st s0 cfg st' s1 fd where
    u: "blank s0" "sys_fine s0" "main_start args log_fp st s0 = Inr (cfg, Some ba, st', s1)"
      "network_start fd True True s1 = (True, s)" by (auto simp: server_up_def)
  from main_started [OF u(1,2)] obtain ba' e1 e2 e3 qa b t where
    d': "default_broker ba' e1 e2 e3 qa b t" "sys_fine t" and
    eq: "main_start args log_fp st s0 =
       (case parse_args args default_config of
          Inl code \<Rightarrow> Inl (ProcessExit (nat code))
        | Inr cfg \<Rightarrow>
            let st = log_set_level (if cfg_verbose cfg then 0 else 1) st in
            if cfg_log_file cfg \<noteq> None \<and> log_fp = None then Inl (ProcessExit 1)
            else Inr (cfg, Some ba', (if cfg_log_file cfg \<noteq> None then log_set_output log_fp st else st), t))"
    by blast
  have "ba' = ba" "t = s1"
    using eq unfolding u(3) by (auto simp: Let_def split: sum.split_asm if_split_asm)
  with d' have d: "default_broker ba e1 e2 e3 qa b s1" "sys_fine s1" by simp_all
  then have ok: "queues_ok s1" "consumers_ok s1" "broker_at ba s1 b"
    by (simp_all add: default_broker_def broker_ok_def)
  have s: "s = s1\<lparr>broker_listen_fd := fd, client_fds := replicate MAX_CONNECTIONS (-1),
      client_connections := map (\<lambda>c. c\<lparr>cc_fd := -1, cc_running := False\<rparr>) (client_connections s1), client_count := 0\<rparr>"
    using u(4) by (auto simp: network_start_def Let_def split: if_split_asm)
  have len: "length (client_connections s1) = MAX_CONNECTIONS" using ok(2) by (simp add: consumers_ok_def)
  have "server_start s" unfolding server_start_def using u(4) len by blast
  then have "slots_inv s" by (rule slots.inv_init)
  moreover have "consumers_ok s" using ok(2) by (simp add: consumers_ok_def s)
  moreover have "queues_ok s" by (rule same_queues_ok [OF _ _ _ ok(1)]) (simp_all add: s)
  moreover have "broker_at ba s b" by (rule broker_at_mono [OF ok(3)]) (use ok(3) in \<open>simp_all add: s broker_at_def\<close>)
  moreover have "unacked_list q = []" if q: "queues s qb = Some q" for qb q
  proof -
    have "queue_at qb s q" using \<open>queues_ok s\<close> q by (rule queues_okD)
    moreover have "msgs s = Map.empty" using d(1) by (simp add: s default_broker_def)
    ultimately have "set (held q) = {}" using queue_atD(8) by fastforce
    then show ?thesis by (simp add: held_def)
  qed
  ultimately show ?thesis using d(2) by (auto simp: server_ok_def s sys_fine_def)
qed

interpretation server: invariant_system "server_up ba" "server_step ba" "server_ok ba" for ba
  by unfold_locales (auto intro: server_up_ok dest: server_step_ok)

lemma server_only_adds:
  assumes "(server_step ba)\<^sup>*\<^sup>* s t" and "server_ok ba s"
  shows "only_adds s t"
  using assms(1)
proof (induction rule: rtranclp_induct)
  case (step t u)
  have "server_ok ba t" by (rule server.steps_inv [OF step(1) assms(2)])
  with step server_step_ok show ?case by (blast intro: only_adds_trans)
qed simp

text \<open>Queues stay within their capacity, and what is full stays full.\<close>

lemma contents_bound:
  assumes "queues_ok s"
  shows "length (contents s qa) \<le> room_of s qa"
proof (cases "queues s qa")
  case (Some q)
  have "ring_ok q" by (rule queue_atD(3) [OF queues_okD(2) [OF assms Some]])
  then show ?thesis using Some by (simp add: contents_def room_of_def ring_ok_def)
qed (simp add: contents_def)

lemma full_stays_full:
  assumes adds: "only_adds s t" and full: "\<forall>qa\<in>set (targets s b ea key). room_of s qa \<le> length (contents s qa)"
  shows "\<forall>qa\<in>set (targets t b ea key). room_of t qa \<le> length (contents t qa)"
  using full only_adds_same [OF adds] order_trans by metis

lemma full_crashes:
  assumes ok: "server_ok ba t" and b: "broker_at ba t b"
    and full: "\<forall>qa\<in>set (targets t b ea (the (routing_key m))). room_of t qa \<le> length (contents t qa)"
    and sv: "serving i ba t conn m" "\<not> is_consumer conn" "\<not> registration m"
    and get: "broker_get_exchange (Some ba) (exchange m) t = Inr (Some ea)"
  shows "client_handler_thread i t = Inl (DoubleFree (Suc (brk t)))"
proof -
  have "sys_fine t" "queues_ok t" "consumers_ok t" using ok by (simp_all add: server_ok_def)
  from handler_publishes [OF sv(1) this b sv(2,3) get spec_route_full [OF full]] show ?thesis by simp
qed

end
