(* ===== verification/Broker_Interleaved.thy ===== *)
theory Broker_Interleaved
  imports Broker_Server
begin

text \<open>
  The handlers of \<open>src/core/broker.c\<close> interleaved: a pass of \<open>client_handler_thread\<close> cut where
  another thread can get in between. The table of exchanges and the routing are each under the
  broker's mutex; a receive fills a message only this handler knows; the other steps touch the
  handler's own messages, apart from \<open>register_consumer\<close>, whose statements \<open>Broker_Races\<close> cuts
  further. Run alone, the steps are a pass of \<open>client_handler_thread\<close>.
\<close>

subsection \<open>The steps of a handler\<close>

text \<open>
  Where a handler is, with the message it received, the exchange it found and the clone it is
  about to route.
\<close>

datatype handler_pc =
    Loop_Head
  | Has_Message addr
  | Has_Exchange addr addr
  | Has_Clone addr addr addr
  | Dropping addr
  | Ended

definition handler_step :: "ptr \<Rightarrow> nat \<Rightarrow> handler_pc \<Rightarrow> 'z bmem_scheme \<Rightarrow> fault + handler_pc \<times> 'z bmem_scheme" where
  "handler_step broker i pc s =
     ebind (arr_get (client_connections s) i) (\<lambda>conn.
     case pc of
       Loop_Head \<Rightarrow>
         if \<not> cc_running conn then Inr (Ended, s)
         else
           ebind (receive_message_data (cc_fd conn) s (net s)) (\<lambda>(message, s, n).
           Inr (case message of None \<Rightarrow> Ended | Some a \<Rightarrow> Has_Message a, s\<lparr>net := n\<rparr>))
     | Has_Message a \<Rightarrow>
         ebind (deref (msgs s) (Some a)) (\<lambda>m.
         ebind (str_eq (exchange m) (Some ''consumer'')) (\<lambda>to_consumer.
         ebind (if to_consumer then str_eq (routing_key m) (Some ''register'') else Inr False) (\<lambda>register.
         if register \<and> body m \<noteq> None \<and> body_size m > 0
         then
           ebind (register_consumer (int i)
             (Some (registered_name (the (body m)) (body_size m))) s) (\<lambda>(ok, s). Inr (Dropping a, s))
         else if \<not> is_consumer conn
         then
           ebind (broker_get_exchange broker (exchange m) s) (\<lambda>exch.
           Inr (case exch of None \<Rightarrow> Dropping a | Some ea \<Rightarrow> Has_Exchange a ea, s))
         else Inr (Dropping a, s))))
     | Has_Exchange a ea \<Rightarrow>
         ebind (message_clone (Some a) s) (\<lambda>(msg_clone, s).
         case msg_clone of
           None \<Rightarrow> ebind (deref (msgs s) (Some a)) (\<lambda>_. Inr (Loop_Head, s))
         | Some c \<Rightarrow>
             ebind (exchange_name_at s (Some ea)) (\<lambda>_.
             ebind (deref (msgs s) (Some a)) (\<lambda>_.
             Inr (Has_Clone a ea c, s))))
     | Has_Clone a ea c \<Rightarrow>
         (case broker of
            None \<Rightarrow> Inl NullDeref
          | Some ba \<Rightarrow>
              ebind (broker_route_message ba ea c s) (\<lambda>(routed, s).
              ebind (if routed = 0 then message_free (Some c) s else Inr s) (\<lambda>s.
              ebind (deref (msgs s) (Some a)) (\<lambda>_.
              Inr (Loop_Head, s)))))
     | Dropping a \<Rightarrow> ebind (message_free (Some a) s) (\<lambda>s. Inr (Loop_Head, s))
     | Ended \<Rightarrow> Inr (Ended, s))"

text \<open>The steps of one handler in a row, until it is back at the head of its loop or has ended.\<close>

fun handler_steps :: "ptr \<Rightarrow> nat \<Rightarrow> nat \<Rightarrow> handler_pc \<Rightarrow> 'z bmem_scheme \<Rightarrow> fault + handler_pc \<times> 'z bmem_scheme" where
  "handler_steps g 0 i pc s = Inr (pc, s)"
| "handler_steps g (Suc k) i pc s =
     (if pc = Loop_Head \<or> pc = Ended then Inr (pc, s)
      else ebind (handler_step g i pc s) (\<lambda>(pc, s). handler_steps g k i pc s))"

definition handler_pass :: "ptr \<Rightarrow> nat \<Rightarrow> 'z bmem_scheme \<Rightarrow> fault + bool \<times> 'z bmem_scheme" where
  "handler_pass g i s =
     ebind (handler_step g i Loop_Head s) (\<lambda>(pc, s).
     ebind (handler_steps g 3 i pc s) (\<lambda>(pc, s). Inr (pc = Loop_Head, s)))"

subsection \<open>The steps in a row are a pass\<close>

lemma steps_end [simp]: "handler_steps g k i Loop_Head s = Inr (Loop_Head, s)" "handler_steps g k i Ended s = Inr (Ended, s)"
  by (cases k; simp)+

lemma steps_drop:
  assumes "arr_get (client_connections s) i = Inr conn"
  shows "handler_steps g (Suc k) i (Dropping a) s = ebind (message_free (Some a) s) (\<lambda>s. Inr (Loop_Head, s))"
  using assms by (simp add: handler_step_def ebind_assoc)

lemma steps_publish:
  assumes conn: "arr_get (client_connections s) i = Inr conn"
  shows "handler_steps (Some ba) (Suc (Suc k)) i (Has_Exchange a ea) s =
    ebind (broker_publish (Some ba) (Some ea) (Some a) s) (\<lambda>(ok, s').
    ebind (deref (msgs s') (Some a)) (\<lambda>_. Inr (Loop_Head, s')))"
proof (cases "message_clone (Some a) s")
  case (Inl e)
  with conn show ?thesis by (simp add: handler_step_def broker_publish_def)
next
  case (Inr x)
  then obtain p s1 where c: "message_clone (Some a) s = Inr (p, s1)" by (cases x) auto
  then have "client_connections s1 = client_connections s"
    by (auto dest!: message_clone_frame mem_core simp: core_step_def)
  with conn have conn1: "arr_get (client_connections s1) i = Inr conn" by simp
  show ?thesis
  proof (cases p)
    case None
    with c conn show ?thesis by (simp add: handler_step_def broker_publish_def ebind_assoc)
  next
    case (Some c)
    with \<open>message_clone (Some a) s = Inr (p, s1)\<close> conn conn1 show ?thesis
      by (cases "exchange_name_at s1 (Some ea)"; cases "deref (msgs s1) (Some a)";
          cases "broker_route_message ba ea c s1")
        (auto simp: handler_step_def broker_publish_def ebind_assoc)
  qed
qed

lemma steps_message:
  assumes conn: "arr_get (client_connections s) i = Inr conn"
  shows "handler_steps g 3 i (Has_Message a) s =
     ebind (deref (msgs s) (Some a)) (\<lambda>m.
     ebind (str_eq (exchange m) (Some ''consumer'')) (\<lambda>to_consumer.
     ebind (if to_consumer then str_eq (routing_key m) (Some ''register'') else Inr False) (\<lambda>register.
     if register \<and> body m \<noteq> None \<and> body_size m > 0
     then
       ebind (register_consumer (int i)
         (Some (registered_name (the (body m)) (body_size m))) s) (\<lambda>(ok, s).
       ebind (message_free (Some a) s) (\<lambda>s. Inr (Loop_Head, s)))
     else if \<not> is_consumer conn
     then
       ebind (broker_get_exchange g (exchange m) s) (\<lambda>exch.
       if exch = None then ebind (message_free (Some a) s) (\<lambda>s. Inr (Loop_Head, s))
       else
         ebind (broker_publish g exch (Some a) s) (\<lambda>(ok, s).
         ebind (deref (msgs s) (Some a)) (\<lambda>_.
         Inr (Loop_Head, s))))
     else ebind (message_free (Some a) s) (\<lambda>s. Inr (Loop_Head, s)))))"
proof (cases "deref (msgs s) (Some a)")
  case (Inl e)
  with conn show ?thesis by (simp add: handler_step_def numeral_3_eq_3)
next
  case (Inr m)
  have first: "handler_steps g 3 i (Has_Message a) s =
      ebind (handler_step g i (Has_Message a) s) (\<lambda>(pc, s). handler_steps g 2 i pc s)"
    using handler_steps.simps(2) [of g 2 i "Has_Message a" s] by simp
  have drop: "arr_get (client_connections t) i = Inr cn \<Longrightarrow>
      handler_steps g 2 i (Dropping a) t = ebind (message_free (Some a) t) (\<lambda>s. Inr (Loop_Head, s))" for t cn
    using steps_drop [of t i cn g 1] by (simp add: numeral_2_eq_2)
  have publish: "handler_steps g 2 i (Has_Exchange a ea) s =
      ebind (broker_publish g (Some ea) (Some a) s) (\<lambda>(ok, s').
      ebind (deref (msgs s') (Some a)) (\<lambda>_. Inr (Loop_Head, s')))" if "g \<noteq> None" for ea
    using steps_publish [OF conn, of _ 0 a ea] that by (cases g) (simp_all add: numeral_2_eq_2)
  have register: "ebind (register_consumer (int i) nm s) (\<lambda>(ok, s). handler_steps g 2 i (Dropping a) s) =
      ebind (register_consumer (int i) nm s) (\<lambda>(ok, s). ebind (message_free (Some a) s) (\<lambda>s. Inr (Loop_Head, s)))" for nm
  proof (cases "register_consumer (int i) nm s")
    case (Inr x)
    then obtain ok t where r: "register_consumer (int i) nm s = Inr (ok, t)" by (cases x) auto
    then have "length (client_connections t) = length (client_connections s)"
      by (auto dest!: register_frame simp: slots_kept_def dest: map_eq_imp_length_eq)
    with conn obtain cn where "arr_get (client_connections t) i = Inr cn" by (auto simp: arr_get_def split: if_split_asm)
    with r show ?thesis by (simp add: drop)
  qed simp
  have no_broker: "broker_get_exchange None x s = Inr None" for x by (simp add: broker_get_exchange_def)
  show ?thesis
    unfolding first using Inr conn drop [OF conn] register no_broker publish
    by (cases "g = None"; cases "str_eq (exchange m) (Some ''consumer'')"; cases "str_eq (routing_key m) (Some ''register'')";
        cases "broker_get_exchange g (exchange m) s")
      (auto simp: handler_step_def ebind_assoc split_def split: option.split)
qed

text \<open>Run alone, the steps are a pass of \<open>client_handler_thread\<close>, faults included.\<close>

lemma pass_is_handler:
  assumes "i < length (client_connections s) \<Longrightarrow> g = cc_broker (client_connections s ! i)"
  shows "handler_pass g i s = client_handler_thread i s"
proof (cases "arr_get (client_connections s) i")
  case (Inl e)
  then show ?thesis by (simp add: handler_pass_def handler_step_def client_handler_thread_def)
next
  case conn: (Inr conn)
  then have g: "g = cc_broker conn" using assms by (auto simp: arr_get_def split: if_split_asm)
  show ?thesis
  proof (cases "\<not> cc_running conn")
    case True
    with conn show ?thesis by (simp add: handler_pass_def handler_step_def client_handler_thread_def)
  next
    case run: False
    show ?thesis
    proof (cases "receive_message_data (cc_fd conn) s (net s)")
      case (Inl e)
      with conn run show ?thesis by (simp add: handler_pass_def handler_step_def client_handler_thread_def)
    next
      case (Inr x)
      then obtain p s1 n where r: "receive_message_data (cc_fd conn) s (net s) = Inr (p, s1, n)" by (cases x) auto
      then have "client_connections (s1\<lparr>net := n\<rparr>) = client_connections s"
        by (auto dest!: receive_message_frame mem_core simp: core_step_def)
      with conn have conn1: "arr_get (client_connections (s1\<lparr>net := n\<rparr>)) i = Inr conn" by simp
      show ?thesis
        using conn run r g steps_message [OF conn1]
        by (cases p) (auto simp: handler_pass_def handler_step_def client_handler_thread_def Let_def ebind_assoc split_def
            if_distrib [of "\<lambda>r. ebind r _"] cong: if_cong)
    qed
  qed
qed

subsection \<open>What a step does\<close>

text \<open>The messages a handler holds: live, complete, in no queue, and its exchange exists.\<close>

fun owned :: "handler_pc \<Rightarrow> addr list" where
  "owned (Has_Message a) = [a]"
| "owned (Has_Exchange a ea) = [a]"
| "owned (Has_Clone a ea c) = [a, c]"
| "owned (Dropping a) = [a]"
| "owned _ = []"

fun found :: "handler_pc \<Rightarrow> addr option" where
  "found (Has_Exchange a ea) = Some ea"
| "found (Has_Clone a ea c) = Some ea"
| "found _ = None"

definition complete_at :: "'z mem_scheme \<Rightarrow> addr \<Rightarrow> bool" where
  "complete_at s a \<longleftrightarrow> (\<exists>m. msgs s a = Some m \<and> msg_complete m)"

definition holds :: "'z bmem_scheme \<Rightarrow> handler_pc \<Rightarrow> bool" where
  "holds s pc \<longleftrightarrow>
     distinct (owned pc) \<and> (\<forall>a\<in>set (owned pc). a \<in> unowned s \<and> complete_at s a) \<and>
     (\<forall>ea. found pc = Some ea \<longrightarrow> points_named (exchange_heap s) ex_name (Some ea))"

text \<open>
  The guarantee of a step to the other handlers: the server stays well formed, what they hold
  is not touched, and what the handler holds afterwards it held before or is new.
\<close>

definition step_gives :: "addr \<Rightarrow> handler_pc \<Rightarrow> 'z bmem_scheme \<Rightarrow> handler_pc \<times> 'z bmem_scheme \<Rightarrow> bool" where
  "step_gives ba pc s st \<longleftrightarrow>
     (case st of (pc', s') \<Rightarrow>
        server_ok ba s' \<and> only_adds s s' \<and> holds s' pc' \<and>
        (\<forall>a\<in>set (owned pc'). a \<in> set (owned pc) \<or> brk s \<le> a) \<and>
        (\<forall>a\<in>unowned s - set (owned pc). a \<in> unowned s' \<and> msgs s' a = msgs s a))"

definition step_fault :: "handler_pc \<Rightarrow> fault \<Rightarrow> bool" where
  "step_fault pc e \<longleftrightarrow> e = OutOfBounds 0 \<or> (\<exists>a ea c. pc = Has_Clone a ea c \<and> e = DoubleFree c)"

lemma receive_step:
  fixes s :: "'z bmem_scheme"
  assumes ok: "server_ok ba s" and i: "i < MAX_CONNECTIONS"
  shows "settles (handler_step (Some ba) i Loop_Head s) (step_gives ba Loop_Head s) (step_fault Loop_Head)"
proof -
  define conn where "conn = client_connections s ! i"
  have q: "queues_ok s" "heap_ok s" "sys_fine s" and len: "i < length (client_connections s)"
    using ok i by (auto simp: server_ok_def consumers_ok_def queues_okD)
  have ended: "step_gives ba Loop_Head s (Ended, s\<lparr>sys_calls := k, brk := j, net := n\<rparr>)" if "brk s \<le> j" for j k n
    using handler_quiet [OF ok that] that
    by (auto simp: step_gives_def holds_def unowned_def all_held_def)
  have got: "step_gives ba Loop_Head s (Has_Message (brk s), received m k n s)" if m: "msg_complete m" for m k n
    using server_ok_received [OF ok m, of k n] received_ok(2) [OF q(1) m, of k n] brk_not_unowned [OF q(1)] m
    by (auto simp: step_gives_def holds_def complete_at_def)
  have recv: "settles (receive_message_data (cc_fd conn) s (net s)) (\<lambda>(p, s', n'). received_as s p s') (step_fault Loop_Head)"
    by (rule settles_mono [OF receive_message_settles [OF q(3,2)]]) (auto simp: step_fault_def)
  have each: "step_gives ba Loop_Head s (case p of None \<Rightarrow> Ended | Some a \<Rightarrow> Has_Message a, s1\<lparr>net := n\<rparr>)"
    if "received_as s p s1" for p s1 n
    using that ended got by (auto simp: received_as_def received_def [symmetric])
  have "step_gives ba Loop_Head s (Ended, s)"
    using ok by (auto simp: step_gives_def holds_def)
  with len each show ?thesis
    by (auto simp: handler_step_def arr_get_Inr conn_def [symmetric] intro!: settles_mono [OF recv])
qed

lemma drop_step:
  assumes ok: "server_ok ba s" and i: "i < MAX_CONNECTIONS" and h: "holds s (Dropping a)"
  shows "settles (handler_step (Some ba) i (Dropping a) s) (step_gives ba (Dropping a) s) (step_fault (Dropping a))"
proof -
  have len: "i < length (client_connections s)" using ok i by (simp add: server_ok_def consumers_ok_def)
  have a: "a \<in> unowned s" using h by (simp add: holds_def)
  have "settles (message_free (Some a) s) (\<lambda>s'. step_gives ba (Dropping a) s (Loop_Head, s')) (step_fault (Dropping a))"
    by (rule settles_mono [OF free_settles [OF ok a]]) (auto simp: step_gives_def holds_def)
  with len show ?thesis by (simp add: handler_step_def arr_get_Inr)
qed

lemma clone_step:
  fixes s :: "'z bmem_scheme"
  assumes ok: "server_ok ba s" and i: "i < MAX_CONNECTIONS" and h: "holds s (Has_Exchange a ea)"
  shows "settles (handler_step (Some ba) i (Has_Exchange a ea) s) (step_gives ba (Has_Exchange a ea) s) (step_fault (Has_Exchange a ea))"
proof -
  have q: "queues_ok s" "sys_fine s" and len: "i < length (client_connections s)"
    using ok i by (simp_all add: server_ok_def consumers_ok_def)
  from h obtain m where m: "msgs s a = Some m" "msg_complete m" and a: "a \<in> unowned s"
    and e: "points_named (exchange_heap s) ex_name (Some ea)" by (auto simp: holds_def complete_at_def)
  obtain k where c: "message_clone (Some a) s = Inr (Some (brk s), with_message m k s)"
    using clone_with_message [OF q(2) m] by blast
  have w: "with_message m k s = received m k (net s) s" by (simp add: received_def with_message_def)
  note r = server_ok_received [OF ok m(2), of k "net s", folded w] received_ok(2) [OF q(1) m(2), of k "net s", folded w]
  have fresh: "brk s \<notin> unowned s" by (rule brk_not_unowned [OF q(1)])
  then have "a \<noteq> brk s" using a by blast
  have "step_gives ba (Has_Exchange a ea) s (Has_Clone a ea (brk s), with_message m k s)"
    using r m a e fresh by (auto simp: step_gives_def holds_def complete_at_def w)
  with len c e m \<open>a \<noteq> brk s\<close> show ?thesis
    by (auto simp: handler_step_def arr_get_Inr exchange_name_at_def points_named_def w)
qed

lemma dispatch_step:
  fixes s :: "'z bmem_scheme"
  assumes ok: "server_ok ba s" and i: "i < MAX_CONNECTIONS" and h: "holds s (Has_Message a)"
  shows "settles (handler_step (Some ba) i (Has_Message a) s) (step_gives ba (Has_Message a) s) (step_fault (Has_Message a))"
proof -
  define conn where "conn = client_connections s ! i"
  have len: "i < length (client_connections s)" using ok i by (simp add: server_ok_def consumers_ok_def)
  obtain b where b: "broker_at ba s b" using ok by (auto simp: server_ok_def)
  from h obtain m where m: "msgs s a = Some m" "msg_complete m" and a: "a \<in> unowned s"
    by (auto simp: holds_def complete_at_def)
  from m(2) obtain ex rk where e: "exchange m = Some ex" "routing_key m = Some rk" by (auto simp: msg_complete_def)
  have drop: "step_gives ba (Has_Message a) s (Dropping a, s)"
    using ok h by (simp add: step_gives_def holds_def)
  have register: "settles (register_consumer (int i) (Some nm) s)
      (\<lambda>(r, s'). step_gives ba (Has_Message a) s (Dropping a, s')) (step_fault (Has_Message a))" for nm
    by (rule settles_mono [OF register_settles [OF ok i]])
      (use h in \<open>auto simp: step_gives_def holds_def complete_at_def\<close>)
  have found: "step_gives ba (Has_Message a) s (Has_Exchange a ea, s)"
    if "broker_get_exchange (Some ba) (Some ex) s = Inr (Some ea)" for ea
    using ok h get_exchange_points [OF b that] by (simp add: step_gives_def holds_def)
  obtain exch where "broker_get_exchange (Some ba) (Some ex) s = Inr exch" using get_exchange_eq [OF b] by blast
  with len m(1) e drop register found show ?thesis
    by (cases exch) (auto simp: handler_step_def arr_get_Inr simp del: settles_simps(3) intro!: settles_bind [OF register])
qed

lemma route_step:
  fixes s :: "'z bmem_scheme"
  assumes ok: "server_ok ba s" and i: "i < MAX_CONNECTIONS" and h: "holds s (Has_Clone a ea c)"
  shows "settles (handler_step (Some ba) i (Has_Clone a ea c) s) (step_gives ba (Has_Clone a ea c) s)
    (step_fault (Has_Clone a ea c))"
proof -
  have q: "sys_fine s" "queues_ok s" "consumers_ok s" and slots: "slots_inv s" and len: "i < length (client_connections s)"
    using ok i by (simp_all add: server_ok_def consumers_ok_def)
  obtain b where b: "broker_at ba s b" using ok by (auto simp: server_ok_def)
  from h obtain m where c: "msgs s c = Some m" "msg_complete m" "c \<in> unowned s" and a: "a \<in> unowned s" "a \<noteq> c"
    and e: "exchange_heap s ea \<noteq> None" by (auto simp: holds_def complete_at_def points_named_def)
  obtain r C where spec: "spec_route (room_of s) m (targets s b ea (the (routing_key m))) (contents s) = (r, C)"
    by (cases "spec_route (room_of s) m (targets s b ea (the (routing_key m))) (contents s)")
  from route_message_ok [OF q c b e spec] obtain t where
    t: "broker_route_message ba ea c s = Inr (r, t)" "queues_ok t" "contents t = C" "routing_kept s t"
      "if r = 1 then unowned t = unowned s \<and> msgs t c = Some m else unowned t = unowned s - {c} \<and> msgs t c = None"
      "\<And>x. x \<noteq> c \<Longrightarrow> msgs s x \<noteq> None \<Longrightarrow> msgs t x = msgs s x" by blast
  have "slots_inv t" by (rule slots_inv_kept [OF slots core_slots [OF route_message_frame [OF t(1)]]])
  then have "server_ok ba t" by (rule server_ok_kept [OF ok t(4,2)])
  moreover have "only_adds s t"
    using spec_route_adds [of "room_of s" m "targets s b ea (the (routing_key m))" "contents s"] spec t(3)
    by (intro kept_adds [OF t(4)]) simp
  moreover have "x \<in> unowned t \<and> msgs t x = msgs s x" if "x \<in> unowned s" "x \<noteq> c" for x
    using t(5,6) that by (auto simp: unowned_def split: if_split_asm)
  moreover have "msgs t a = msgs s a" using t(6) [of a] a by (auto simp: unowned_def)
  moreover have "msgs s a \<noteq> None" using a(1) by (auto simp: unowned_def)
  ultimately show ?thesis
    using len t(1,5)
    by (auto simp: handler_step_def arr_get_Inr step_gives_def step_fault_def holds_def message_free_dead)
qed

lemma step_settles:
  assumes "server_ok ba s" and "i < MAX_CONNECTIONS" and "holds s pc"
  shows "settles (handler_step (Some ba) i pc s) (step_gives ba pc s) (step_fault pc)"
proof (cases pc)
  case Ended
  have "i < length (client_connections s)" using assms(1,2) by (simp add: server_ok_def consumers_ok_def)
  then show ?thesis using assms(1) Ended by (simp add: handler_step_def arr_get_Inr step_gives_def holds_def)
qed (use assms receive_step dispatch_step clone_step route_step drop_step in auto)

subsection \<open>The interleaving\<close>

text \<open>Each handler is where its counter says; the accept loop starts handlers at their loop's head.\<close>

type_synonym threads_state = "(nat \<Rightarrow> handler_pc) \<times> bmem"

inductive inter_step :: "addr \<Rightarrow> threads_state \<Rightarrow> threads_state \<Rightarrow> bool" for ba where
  handle: "Handler i \<in> set (threads s) \<Longrightarrow> handler_step (Some ba) i (pcs i) s = Inr (pc, s') \<Longrightarrow>
    inter_step ba (pcs, s) (pcs(i := pc), s')"
| accepting: "fd \<noteq> -1 \<Longrightarrow> network_accept ba fd s = Inr (r, s') \<Longrightarrow> inter_step ba (pcs, s) (pcs, s')"
| timing_out: "broker_event_loop ba t s = Inr (r, s') \<Longrightarrow> inter_step ba (pcs, s) (pcs, s')"
| ticking: "inter_step ba (pcs, s) (pcs, s\<lparr>clock := t\<rparr>)"

inductive_cases inter_stepE: "inter_step ba st st'"

definition inter_start :: "addr \<Rightarrow> threads_state \<Rightarrow> bool" where
  "inter_start ba st \<longleftrightarrow> server_up ba (snd st) \<and> fst st = (\<lambda>_. Loop_Head)"

definition inter_ok :: "addr \<Rightarrow> threads_state \<Rightarrow> bool" where
  "inter_ok ba st \<longleftrightarrow>
     (case st of (pcs, s) \<Rightarrow>
        server_ok ba s \<and> (\<forall>i. holds s (pcs i)) \<and>
        (\<forall>i j. i \<noteq> j \<longrightarrow> set (owned (pcs i)) \<inter> set (owned (pcs j)) = {}))"

lemma handler_step_index: "handler_step g i pc s = Inr x \<Longrightarrow> i < length (client_connections s)"
  by (auto simp: handler_step_def arr_get_def split: if_split_asm)

text \<open>What one handler does leaves the others what they hold, and takes nothing of theirs.\<close>

lemma inter_handle:
  assumes ok: "inter_ok ba (pcs, s)" and st: "handler_step (Some ba) i (pcs i) s = Inr (pc, s')"
  shows "inter_ok ba (pcs(i := pc), s')"
proof -
  have s: "server_ok ba s" "\<And>j. holds s (pcs j)"
    and apart: "\<And>j k. j \<noteq> k \<Longrightarrow> set (owned (pcs j)) \<inter> set (owned (pcs k)) = {}"
    using ok by (auto simp: inter_ok_def)
  have i: "i < MAX_CONNECTIONS" using handler_step_index [OF st] s(1) by (simp add: server_ok_def consumers_ok_def)
  from settlesD(1) [OF step_settles [OF s(1) i s(2)] st]
  have g: "server_ok ba s'" "only_adds s s'" "holds s' pc"
    "\<And>a. a \<in> set (owned pc) \<Longrightarrow> a \<in> set (owned (pcs i)) \<or> brk s \<le> a"
    "\<And>a. a \<in> unowned s \<Longrightarrow> a \<notin> set (owned (pcs i)) \<Longrightarrow> a \<in> unowned s' \<and> msgs s' a = msgs s a"
    by (auto simp: step_gives_def)
  have below: "a < brk s" if "a \<in> set (owned (pcs j))" for a j
    using s that heap_okD [OF queues_okD(1), of s a] by (auto simp: holds_def complete_at_def server_ok_def)
  have "holds s' (pcs j)" if "j \<noteq> i" for j
    using s(2) [of j] g(2,5) apart [OF that] by (fastforce simp: holds_def complete_at_def only_adds_def)
  moreover have "set (owned pc) \<inter> set (owned (pcs j)) = {}" if "j \<noteq> i" for j
    using g(4) below [of _ j] apart [OF that] by (fastforce simp: not_less [symmetric])
  ultimately show ?thesis
    using g(1,3) apart by (auto simp: inter_ok_def)
qed

lemma inter_same:
  assumes ok: "inter_ok ba (pcs, s)" and "server_ok ba s'" "queues s' = queues s" "msgs s' = msgs s"
    "exchange_heap s' = exchange_heap s"
  shows "inter_ok ba (pcs, s')"
  using assms by (simp add: inter_ok_def holds_def complete_at_def unowned_def all_held_def)

lemma inter_step_ok:
  assumes "inter_ok ba st" and "inter_step ba st st'"
  shows "inter_ok ba st'"
  using assms(2,1)
proof cases
  case (handle i s pcs pc s')
  with inter_handle assms(1) show ?thesis by blast
next
  case (accepting fd s r s' pcs)
  then have ok: "server_ok ba s" using assms(1) by (simp add: inter_ok_def)
  then obtain b where "broker_at ba s b" by (auto simp: server_ok_def)
  from settlesD(1) [OF accept_settles [OF ok accepting(3) this] accepting(4)] accepting(1,2) assms(1) show ?thesis
    by (auto intro: inter_same simp: only_adds_def)
next
  case (timing_out t s r s' pcs)
  then have "server_ok ba s" using assms(1) by (simp add: inter_ok_def)
  from event_loop_idle [OF this, of t] timing_out assms(1) show ?thesis by auto
next
  case (ticking pcs s t)
  then have "server_ok ba s" using assms(1) by (simp add: inter_ok_def)
  from server_step_ok [OF this server_step.tick [of ba s t]] ticking assms(1) show ?thesis
    by (auto intro: inter_same)
qed

interpretation interleaved: invariant_system "inter_start ba" "inter_step ba" "inter_ok ba" for ba
proof
  show "inter_ok ba st" if "inter_start ba st" for st
    using that server_up_ok by (cases st) (auto simp: inter_start_def inter_ok_def holds_def)
qed (rule inter_step_ok)

end
