(* ===== verification/Server_Properties.thy ===== *)
theory Server_Properties
  imports Broker_Properties Broker_Races Broker_Interleaved
begin

text \<open>
  The properties of the server around the broker: the handler thread of a client, the
  forwarding to consumers, the client slots of the network thread, the tables of names, and
  the start and the shutdown of \<open>src/broker/main.c\<close>. The instances use the small broker of
  the previous theory, with bytes waiting on the producer's descriptor 4.
\<close>

lemma demo_serving:
  assumes "wire_ok m"
  shows "serving 0 40 (demo_bmem q (full_net (\<lambda>_. wire_image m))) producer m"
proof -
  have "parse_message (wire_image m @ []) = Some (m, [])" by (rule message_codec.parse_image [OF assms])
  then show ?thesis by (simp add: serving_def producer_def)
qed

lemma demo_exchange:
  assumes "q_name q = Some nm"
  shows "broker_get_exchange (Some 40) (Some ''amq.direct'') (demo_bmem q n) = Inr (Some 20)"
  using get_exchange_eq [OF demo_broker_at [OF assms]] by (simp add: first_named_def demo_broker_def numeral_2_eq_2)

subsection \<open>Handlers\<close>

text \<open>
  C11. What a handler does with a message for an existing exchange. If some queue has room
  for it, the message is delivered as the specification of routing says and the handler goes
  on, but the message that was received is never freed: afterwards it is allocated and owned
  by no queue, together with the clone when exactly one queue took the message. If no queue
  takes it, the server's process hits a double free: one unroutable message is enough.
\<close>

theorem client_handler_publishes:
  assumes "serving i ba s conn m" and "\<not> is_consumer conn" and "\<not> registration m"
    and "sys_fine s" and "queues_ok s" and "consumers_ok s" and "broker_at ba s b"
    and "broker_get_exchange (Some ba) (exchange m) s = Inr (Some ea)"
    and "spec_route (room_of s) m (targets s b ea (the (routing_key m))) (contents s) = (r, C)"
  shows "if r = 0 then client_handler_thread i s = Inl (DoubleFree (Suc (brk s)))
    else \<exists>s'. client_handler_thread i s = Inr (True, s') \<and> queues_ok s' \<and> contents s' = C \<and>
      brk s \<notin> unowned s \<and> unowned s' = (if r = 1 then {brk s, Suc (brk s)} else {brk s}) \<union> unowned s"
  using handler_publishes [OF assms(1,4-7,2,3,8,9)] brk_not_unowned [OF assms(5)] by (cases "r = 0") auto

theorem client_handler_publishes_witness:
  "(\<exists>s'. client_handler_thread 0 (demo_bmem demo_queue (full_net (\<lambda>_. wire_image demo_message))) = Inr (True, s') \<and>
      {50, 51} \<subseteq> unowned s') \<and>
   client_handler_thread 0 (demo_bmem full_queue (full_net (\<lambda>_. wire_image demo_message))) = Inl (DoubleFree 51)"
proof
  let ?n = "full_net (\<lambda>_. wire_image demo_message)"
  have prod: "\<not> is_consumer producer" "\<not> registration demo_message"
    by (simp_all add: producer_def registration_def demo_message_def)
  let ?s = "demo_bmem demo_queue ?n"
  have "spec_route (room_of ?s) demo_message (targets ?s demo_broker 20 (the (routing_key demo_message))) (contents ?s) =
      (1, (contents ?s)(10 := contents ?s 10 @ [demo_message]))"
    by (simp add: demo_targets spec_route_def spec_deliver_def demo_contents)
  from client_handler_publishes [OF demo_serving [OF demo_wire] prod _ demo_queues_ok [OF demo_at(1)]
      demo_consumers_ok demo_broker_at _ this]
  show "\<exists>s'. client_handler_thread 0 ?s = Inr (True, s') \<and> {50, 51} \<subseteq> unowned s'"
    by (auto simp: demo_exchange)
  let ?t = "demo_bmem full_queue ?n"
  have "spec_route (room_of ?t) demo_message (targets ?t demo_broker 20 (the (routing_key demo_message))) (contents ?t) =
      (0, contents ?t)"
    by (simp add: demo_targets spec_route_def spec_deliver_def demo_contents)
  from client_handler_publishes [OF demo_serving [OF demo_wire] prod _ demo_queues_ok [OF demo_at(2)]
      demo_consumers_ok demo_broker_at _ this]
  show "client_handler_thread 0 ?t = Inl (DoubleFree 51)"
    by (auto simp: demo_exchange)
qed

text \<open>
  C40. A registration message makes the client a consumer: while the table of consumers has
  room, the handler adds an entry with the client's slot and the queue's name cut to 63
  characters, marks the slot, frees the message it received and leaves every queue as it
  was.
\<close>

theorem client_handler_registers:
  assumes "serving i ba s conn m" and "registration m"
    and "sys_fine s" and "queues_ok s" and "consumers_ok s" and "consumer_count s < MAX_CONNECTIONS"
    and "nm = take 63 (cstr (take 63 (the (body m))))"
  shows "\<exists>s'. client_handler_thread i s = Inr (True, s') \<and> queues_ok s' \<and> consumers_ok s' \<and>
    contents s' = contents s \<and> unowned s' = unowned s \<and> consumer_count s' = Suc (consumer_count s) \<and>
    consumers s' = (consumers s)[consumer_count s := \<lparr>client_index = i, ci_queue_name = nm\<rparr>] \<and>
    client_connections s' = (client_connections s)[i := conn\<lparr>is_consumer := True, cc_queue_name := nm\<rparr>]"
  using handler_registers [OF assms(1,3-5,2,6)] assms(7) by (simp add: strncpy_z_def)

definition register_message :: Message where
  "register_message = demo_message\<lparr>exchange := Some ''consumer'', routing_key := Some ''register'',
     body := Some ''copy'', body_size := 4\<rparr>"

lemma register_wire: "wire_ok register_message"
  by (simp add: register_message_def wire_ok_def demo_message_def msg_complete_def msg_ok_def no_nul_def NUL_def)

theorem client_handler_registers_witness:
  "\<exists>s'. client_handler_thread 0 (demo_bmem demo_queue (full_net (\<lambda>_. wire_image register_message))) = Inr (True, s') \<and>
     consumer_count s' = 2 \<and> ci_queue_name (consumers s' ! 1) = ''copy''"
proof -
  let ?s = "demo_bmem demo_queue (full_net (\<lambda>_. wire_image register_message))"
  have reg: "registration register_message" by (simp add: registration_def register_message_def)
  have nm: "''copy'' = take 63 (cstr (take 63 (the (body register_message))))"
    by (simp add: register_message_def cstr_def NUL_def)
  have len: "length (consumers ?s) = 100" using demo_consumers_ok [of demo_queue] by (simp add: consumers_ok_def MAX_CONNECTIONS_def)
  from client_handler_registers [OF demo_serving [OF register_wire] reg _ demo_queues_ok [OF demo_at(1)]
      demo_consumers_ok _ nm] len
  show ?thesis by (auto simp: MAX_CONNECTIONS_def numeral_2_eq_2)
qed

text \<open>
  Forwarding reaches exactly the live consumers of the queue: when the kernel accepts
  what is sent, every descriptor gets the wire image of the message once for each live
  registration for the queue's name that names it, appended to what it got before, and every
  other descriptor nothing; nothing but the sockets changes.
\<close>

theorem forward_reaches_consumers:
  assumes "consumers_ok s" and "msgs s a = Some m" and "wire_ok m" and "full_sends (net s)"
    and "\<forall>fd\<in>set (consumer_fds s nm). 0 \<le> fd"
  shows "\<exists>n. forward_message_to_consumers (Some nm) (Some a) s = Inr (s\<lparr>net := n\<rparr>) \<and> inp n = inp (net s) \<and>
    (\<forall>fd. out n fd = out (net s) fd @ concat (replicate (count_list (consumer_fds s nm) fd) (wire_image m)))"
  using forward_full [OF assms] by (auto simp: broadcast_at)

theorem forward_reaches_consumers_witness:
  "\<exists>n. forward_message_to_consumers (Some ''test'') (Some 5) (demo_bmem demo_queue (full_net (\<lambda>_. []))) =
       Inr ((demo_bmem demo_queue (full_net (\<lambda>_. [])))\<lparr>net := n\<rparr>) \<and> out n 5 = wire_image demo_message \<and> out n 4 = []"
proof -
  let ?s = "demo_bmem demo_queue (full_net (\<lambda>_. []))"
  have "consumers ?s = \<lparr>client_index = 1, ci_queue_name = ''test''\<rparr> # replicate 99 zero_consumer"
    by (simp add: demo_bmem_def)
  then have "consumer_fds ?s ''test'' = [5]" by (simp add: consumer_fds_def live_consumer_def consumer_def)
  with forward_reaches_consumers [OF demo_consumers_ok, of demo_queue "full_net (\<lambda>_. [])" 5 demo_message "''test''"]
  show ?thesis by auto
qed

text \<open>
  C20. Two handlers register consumers at the same time. One after the other they are two calls of
  \<open>register_consumer\<close>. Interleaved, both answer that they succeeded and the count grows by
  two, but both wrote the same entry: the first consumer is in the table nowhere, and the
  entry the count includes beyond it was written by neither. With one entry left, both pass
  the test of the bound and the second writes behind the end of the array.
\<close>

theorem registration_race:
  assumes "i < MAX_CONNECTIONS" and "j < MAX_CONNECTIONS" and "consumers_ok s"
  shows "for_loop (race_step (i, nm) (j, nm')) [False, False, False, False, True, True, True, True] ((Reg_Check, Reg_Check), s) =
      ebind (register_consumer (int i) (Some nm) s) (\<lambda>(ok, s).
      ebind (register_consumer (int j) (Some nm') s) (\<lambda>(ok', s). Inr ((Reg_Done ok, Reg_Done ok'), s))) \<and>
    (consumer_count s + 1 < MAX_CONNECTIONS \<longrightarrow>
      (\<exists>s'. for_loop (race_step (i, nm) (j, nm')) [False, True, False, True, False, True, False, True]
          ((Reg_Check, Reg_Check), s) = Inr ((Reg_Done True, Reg_Done True), s') \<and>
        consumer_count s' = consumer_count s + 2 \<and>
        consumers s' = (consumers s)[consumer_count s := \<lparr>client_index = j, ci_queue_name = strncpy_z 64 nm'\<rparr>])) \<and>
    (consumer_count s + 1 = MAX_CONNECTIONS \<longrightarrow>
      for_loop (race_step (i, nm) (j, nm')) [False, True, False, False, True] ((Reg_Check, Reg_Check), s) =
        Inl (OutOfBounds MAX_CONNECTIONS))"
  using race_free [OF assms(1,2)] race_lost [OF assms(3,1,2)] race_overflow [OF assms(3,1,2)] by simp

theorem registration_race_witness:
  "(\<exists>s'. for_loop (race_step (0, ''news'') (1, ''jobs'')) [False, True, False, True, False, True, False, True]
        ((Reg_Check, Reg_Check), demo_bmem demo_queue (full_net (\<lambda>_. []))) = Inr ((Reg_Done True, Reg_Done True), s') \<and>
      consumer_count s' = 3 \<and> ''news'' \<notin> ci_queue_name ` set (consumers s')) \<and>
   for_loop (race_step (0, ''news'') (1, ''jobs'')) [False, True, False, False, True]
     ((Reg_Check, Reg_Check), (demo_bmem demo_queue (full_net (\<lambda>_. [])))\<lparr>consumer_count := 99\<rparr>) = Inl (OutOfBounds 100)"
proof
  let ?s = "demo_bmem demo_queue (full_net (\<lambda>_. []))"
  have c: "consumers ?s = \<lparr>client_index = 1, ci_queue_name = ''test''\<rparr> # replicate 99 zero_consumer"
    by (simp add: demo_bmem_def)
  have "consumer_count ?s + 1 < MAX_CONNECTIONS" "(0::nat) < MAX_CONNECTIONS" "1 < MAX_CONNECTIONS"
    by (simp_all add: MAX_CONNECTIONS_def)
  with registration_race [of 0 1 ?s "''news''" "''jobs''", OF _ _ demo_consumers_ok]
  obtain s' where s': "for_loop (race_step (0, ''news'') (1, ''jobs'')) [False, True, False, True, False, True, False, True]
        ((Reg_Check, Reg_Check), ?s) = Inr ((Reg_Done True, Reg_Done True), s')" "consumer_count s' = 3"
    "consumers s' = (consumers ?s)[1 := \<lparr>client_index = 1, ci_queue_name = strncpy_z 64 ''jobs''\<rparr>]"
    by (auto simp del: for_loop.simps)
  have "set (consumers s') \<subseteq> {\<lparr>client_index = 1, ci_queue_name = strncpy_z 64 ''jobs''\<rparr>, \<lparr>client_index = 1, ci_queue_name = ''test''\<rparr>, zero_consumer}"
    unfolding s'(3) by (rule subset_trans [OF set_update_subset_insert]) (auto simp: c)
  moreover have "strncpy_z 64 ''jobs'' = ''jobs''" by (simp add: strncpy_z_def cstr_def NUL_def)
  ultimately have "''news'' \<notin> ci_queue_name ` set (consumers s')" by (auto simp: zero_consumer_def)
  with s'(1,2) show "\<exists>s'. for_loop (race_step (0, ''news'') (1, ''jobs'')) [False, True, False, True, False, True, False, True]
        ((Reg_Check, Reg_Check), ?s) = Inr ((Reg_Done True, Reg_Done True), s') \<and>
      consumer_count s' = 3 \<and> ''news'' \<notin> ci_queue_name ` set (consumers s')"
    by blast
  let ?t = "?s\<lparr>consumer_count := 99\<rparr>"
  have "consumers_ok ?t"
    by (auto simp: consumers_ok_def demo_bmem_def MAX_CONNECTIONS_def zero_consumer_def nth_Cons split: nat.split)
  from registration_race [of 0 1 ?t "''news''" "''jobs''", OF _ _ this]
  show "for_loop (race_step (0, ''news'') (1, ''jobs'')) [False, True, False, False, True] ((Reg_Check, Reg_Check), ?t) =
      Inl (OutOfBounds 100)"
    by (simp add: MAX_CONNECTIONS_def del: for_loop.simps)
qed

subsection \<open>Client slots\<close>

text \<open>
  C18. A server takes at most 100 connections in its life. A slot is never given back: once
  100 clients have been accepted, then after any steps of the handlers (which end when their
  clients go away), of the event loop, of the clock and of the accept loop, all slots are
  still taken, and the accept loop answers every further client by closing its descriptor.
\<close>

theorem server_slots_exhausted:
  assumes "server_start s0" and "(server_step ba)\<^sup>*\<^sup>* s0 s" and "client_count s = MAX_CONNECTIONS"
    and "(server_step ba)\<^sup>*\<^sup>* s t" and "brokers t ba = Some b" and "br_running b \<noteq> 0" and "0 \<le> fd"
  shows "client_count t = MAX_CONNECTIONS \<and> used_slots t = {..<MAX_CONNECTIONS} \<and>
    network_accept ba fd t = Inr (True, close_fd fd t)"
proof -
  have "slots_inv s" by (rule slots.steps_inv [OF assms(2) slots.inv_init [OF assms(1)]])
  from slots_full [OF this assms(3,4)] assms(5-7) show ?thesis by (simp add: network_accept_def)
qed

definition started_bmem :: bmem where
  "started_bmem = (demo_bmem demo_queue (full_net (\<lambda>_. [])))
     \<lparr>client_connections := replicate 100 free_connection, client_fds := replicate 100 (-1), client_count := 0,
      brokers := [40 \<mapsto> demo_broker]\<rparr>"

lemma started: "server_start started_bmem"
  unfolding server_start_def
  by (rule exI [of _ 3], rule exI [of _ "started_bmem\<lparr>client_connections := replicate 100 zero_connection\<rparr>"])
    (simp add: started_bmem_def network_start_def demo_bmem_def MAX_CONNECTIONS_def free_connection_def
      zero_connection_def Let_def)

lemma accept_many:
  assumes "k \<le> MAX_CONNECTIONS"
  shows "\<exists>s. (server_step 40)\<^sup>*\<^sup>* started_bmem s \<and> client_count s = k \<and> brokers s = [40 \<mapsto> demo_broker] \<and>
    sys_fine s \<and> slots_inv s"
  using assms
proof (induction k)
  case 0
  have "sys_fine started_bmem" by (simp add: started_bmem_def demo_bmem_def sys_fine_def)
  with slots.inv_init [OF started] show ?case
    by (intro exI [of _ started_bmem]) (simp add: started_bmem_def)
next
  case (Suc k)
  then have "k \<le> MAX_CONNECTIONS" by simp
  from Suc.IH [OF this] obtain s where
    s: "(server_step 40)\<^sup>*\<^sup>* started_bmem s" "client_count s = k" "brokers s = [40 \<mapsto> demo_broker]"
      "sys_fine s" "slots_inv s" by blast
  with Suc.prems accept_room [OF s(5), of 40 demo_broker 9] obtain s' where
    1: "network_accept 40 9 s = Inr (True, s')" "client_count s' = Suc k" "brokers s' = [40 \<mapsto> demo_broker]"
      "sys_fine s'" "slots_inv s'" by (auto simp: demo_broker_def)
  then have "server_step 40 s s'" by (intro server_step.accepted [of 9]) simp_all
  with s(1) 1(2-) show ?case by (meson rtranclp.rtrancl_into_rtrancl)
qed

theorem server_slots_exhausted_witness:
  "\<exists>s. (server_step 40)\<^sup>*\<^sup>* started_bmem s \<and> network_accept 40 9 s = Inr (True, close_fd 9 s)"
proof -
  from accept_many [OF order_refl] obtain s where s: "(server_step 40)\<^sup>*\<^sup>* started_bmem s"
    "client_count s = MAX_CONNECTIONS" "brokers s = [40 \<mapsto> demo_broker]" by blast
  with server_slots_exhausted [OF started s(1,2) rtranclp.rtrancl_refl, of demo_broker 9]
  show ?thesis by (auto simp: demo_broker_def)
qed

subsection \<open>Names\<close>

text \<open>
  C21. The broker's names are stable: what a successful \<open>broker_create_queue\<close> or
  \<open>broker_create_exchange\<close> returned is what the lookup of the name gives, creating the name
  again returns the same object and changes nothing, and so it stays after any sequence of
  further creations, each of which returns and leaves the broker well formed even when its
  table is full.
\<close>

theorem broker_names_stable:
  assumes "broker_ok ba s" and "sys_fine s" and "0 < cap" and "cap * sizeof_ptr < 2 ^ 63"
    and "broker_create_queue (Some ba) (Some nm) cap s = Inr (Some a, s1)"
    and "broker_create_exchange (Some ba) (Some enm) type s = Inr (Some e, t1)"
  shows "broker_get_queue (Some ba) (Some nm) s1 = Inr (Some a) \<and>
    broker_create_queue (Some ba) (Some nm) cap s1 = Inr (Some a, s1) \<and>
    (\<exists>ps s2. create_all (\<lambda>n. broker_create_queue (Some ba) (Some n) cap) nms s1 = Inr (ps, s2) \<and> broker_ok ba s2 \<and>
       broker_get_queue (Some ba) (Some nm) s2 = Inr (Some a)) \<and>
    broker_get_exchange (Some ba) (Some enm) t1 = Inr (Some e) \<and>
    broker_create_exchange (Some ba) (Some enm) type t1 = Inr (Some e, t1) \<and>
    (\<exists>ps t2. create_all (\<lambda>n. broker_create_exchange (Some ba) (Some n) type) nms t1 = Inr (ps, t2) \<and> broker_ok ba t2 \<and>
       broker_get_exchange (Some ba) (Some enm) t2 = Inr (Some e))"
proof -
  have q: "queue_table_ok ba cap s" and e: "exchange_table_ok ba s"
    using assms(1-4) by (simp_all add: queue_table_ok_def exchange_table_ok_def)
  have q1: "queue_table_ok ba cap s1" using queue_names.create_total [OF q, of nm] assms(5) by auto
  have e1: "exchange_table_ok ba t1" using exchange_names.create_total [OF e, of enm type] assms(6) by auto
  note g = queue_names.get_after_create [OF q assms(5)] exchange_names.get_after_create [OF e assms(6)]
  from queue_names.create_all_get [OF q1 g(1)] exchange_names.create_all_get [OF e1 g(2)]
  show ?thesis
    using g queue_names.create_idempotent [OF q assms(5)] exchange_names.create_idempotent [OF e assms(6)]
    by (simp add: queue_table_ok_def exchange_table_ok_def) metis
qed

lemma demo_broker_ok: "broker_ok 40 (demo_bmem demo_queue n)"
proof -
  have "addresses_ok (demo_bmem demo_queue n)" by (simp add: addresses_ok_def)
  then show ?thesis
    using demo_queues_ok [OF demo_at(1)] demo_consumers_ok demo_broker_at [OF demo_names(1)]
    unfolding broker_ok_def by blast
qed

theorem broker_names_stable_witness:
  "\<exists>s1 t1. broker_create_queue (Some 40) (Some ''new'') 5 (demo_bmem demo_queue (full_net (\<lambda>_. []))) = Inr (Some 50, s1) \<and>
     broker_get_queue (Some 40) (Some ''new'') s1 = Inr (Some 50) \<and>
     broker_create_exchange (Some 40) (Some ''x'') EXCHANGE_TYPE_TOPIC (demo_bmem demo_queue (full_net (\<lambda>_. []))) = Inr (Some 50, t1) \<and>
     broker_get_exchange (Some 40) (Some ''x'') t1 = Inr (Some 50)"
proof -
  let ?s = "demo_bmem demo_queue (full_net (\<lambda>_. []))"
  note b = demo_broker_at [OF demo_names(1), of "full_net (\<lambda>_. [])"]
  have c: "cstr ''new'' = ''new''" "cstr ''x'' = ''x''" by (simp_all add: cstr_def NUL_def)
  have room: "queue_count demo_broker < MAX_QUEUES" "exchange_count demo_broker < MAX_EXCHANGES"
    by (simp_all add: demo_broker_def MAX_QUEUES_def MAX_EXCHANGES_def)
  have "broker_get_queue (Some 40) (Some ''new'') ?s = Inr None" "broker_get_exchange (Some 40) (Some ''x'') ?s = Inr None"
    using get_queue_eq [OF b] get_exchange_eq [OF b] copy_ok(3)
    by (simp_all add: first_named_def demo_broker_def numeral_2_eq_2 c)
  with create_queue_new [OF demo_broker_ok _ _ _ b _ room(1), of 5 "''new''"]
    create_exchange_new [OF demo_broker_ok _ b _ room(2), of "''x''" EXCHANGE_TYPE_TOPIC]
  obtain s1 t1 where
    "broker_create_queue (Some 40) (Some ''new'') 5 ?s = Inr (Some 50, s1)"
    "broker_create_exchange (Some 40) (Some ''x'') EXCHANGE_TYPE_TOPIC ?s = Inr (Some 50, t1)"
    by (auto simp: sizeof_ptr_def)
  with broker_names_stable [OF demo_broker_ok _ _ _ this]
  show ?thesis by (simp add: sizeof_ptr_def)
qed

subsection \<open>The program\<close>

text \<open>
  C17. The broker that \<open>main\<close> starts. From the initial memory, with options that parse and no
  log file, and if no system call fails, the program reaches its loop with a well-formed
  running broker of three exchanges, an empty queue \<open>test\<close> of capacity 1000 bound to each of
  them, and the two threads. On that broker the topic exchange can only be used with the
  literal key \<open>test.#\<close>: publishing a message with any other key to it is a double free.
\<close>

theorem main_starts_default_broker:
  assumes "blank s0" and "sys_fine s0" and "parse_args args default_config = Inr cfg" and "cfg_log_file cfg = None"
  shows "\<exists>ba e1 e2 e3 qa b st' s. main_start args log_fp st s0 = Inr (cfg, Some ba, st', s) \<and>
    default_broker ba e1 e2 e3 qa b s \<and> br_running b = 1 \<and> threads s = [Network ba, Event_Loop ba] \<and>
    (\<forall>m k. msg_complete m \<and> routing_key m \<noteq> Some ''test.#'' \<longrightarrow>
       broker_publish (Some ba) (Some e3) (Some (brk s)) (with_message m k s) = Inl (DoubleFree (Suc (brk s))))"
proof -
  from main_started [OF assms(1,2)] obtain ba e1 e2 e3 qa b s where
    3: "default_broker ba e1 e2 e3 qa b s" "br_running b = 1" "sys_fine s" "threads s = [Network ba, Event_Loop ba]" and
    start: "main_start args log_fp st s0 =
      Inr (cfg, Some ba, log_set_level (if cfg_verbose cfg then 0 else 1) st, s)"
    using assms(3,4) by (auto simp: Let_def)
  have d: "queues_ok s" "consumers_ok s" "broker_at ba s b" using 3(1) by (simp_all add: default_broker_def broker_ok_def)
  have "broker_publish (Some ba) (Some e3) (Some (brk s)) (with_message m k s) = Inl (DoubleFree (Suc (brk s)))"
    if m: "msg_complete m" "routing_key m \<noteq> Some ''test.#''" for m k
  proof -
    have "msg_ok m" using m(1) by (simp add: msg_complete_def)
    note w = with_message_ok [OF d(1) this, of k]
    note f = with_message_frame [OF queues_okD(1) [OF d(1)], of m k]
    note fs = frame_simps [OF f]
    obtain key where key: "routing_key m = Some key" using m(1) by (auto simp: msg_complete_def)
    have ex: "exchange_heap s e3 = Some \<lparr>ex_name = Some ''amq.topic'', ex_type = EXCHANGE_TYPE_TOPIC\<rparr>"
      "e1 \<noteq> e3" "e2 \<noteq> e3"
      using 3(1) by (auto simp: default_broker_def)
    have "targets s b e3 key = []"
      using 3(1) ex m(2) key by (auto simp: targets_def default_broker_def selects_def topic_matches_def)
    moreover have "broker_at ba (with_message m k s) b" by (rule frame_broker_at [OF f d(3)])
    moreover have "exchange_heap (with_message m k s) = exchange_heap s" by (simp add: with_message_def)
    moreover have "targets (with_message m k s) b e3 key = targets s b e3 key" by (rule fs)
    ultimately show ?thesis
      using publish_cases [of "with_message m k s" "brk s" m ba b e3 0] 3(3) w(1) fs d(2) m(1) key ex
        spec_route_full [of "[]"]
      by (simp add: points_named_def)
  qed
  with 3 start show ?thesis by blast
qed

definition blank_bmem :: bmem where
  "blank_bmem = \<lparr>msgs = Map.empty, brk = 1, sys_ok = (\<lambda>_. True), sys_calls = 0, queues = Map.empty, clock = 100,
     exchange_heap = Map.empty, binding_heap = Map.empty, brokers = Map.empty,
     client_connections = replicate MAX_CONNECTIONS zero_connection,
     client_fds = replicate MAX_CONNECTIONS 0, client_count = 0,
     consumers = replicate MAX_CONNECTIONS zero_consumer, consumer_count = 0, broker_listen_fd = -1,
     net = full_net (\<lambda>_. []), closed_fds = [], threads = []\<rparr>"

lemma blank_demo: "blank blank_bmem" "sys_fine blank_bmem"
  by (simp_all add: blank_def blank_bmem_def sys_fine_def)

theorem main_starts_default_broker_witness:
  "\<exists>cfg ba e3 st' s. main_start [''-v'', ''-p'', ''5673''] None log_initial blank_bmem = Inr (cfg, Some ba, st', s) \<and>
     cfg_verbose cfg \<and> cfg_port cfg = 5673 \<and> threads s = [Network ba, Event_Loop ba] \<and>
     broker_publish (Some ba) (Some e3) (Some (brk s)) (with_message demo_message 9 s) = Inl (DoubleFree (Suc (brk s)))"
proof -
  let ?cfg = "default_config\<lparr>cfg_verbose := True, cfg_port := 5673\<rparr>"
  have "parse_args [''-v'', ''-p'', ''5673''] default_config = Inr ?cfg"
    by (simp add: atoi_def is_space_def decimal_def is_digit_def digit_val_def default_config_def)
  moreover have "cfg_log_file ?cfg = None" by (simp add: default_config_def)
  ultimately show ?thesis
    using main_starts_default_broker [OF blank_demo, of _ ?cfg None log_initial] demo_complete
    by (fastforce simp: default_config_def)
qed

text \<open>
  C32. Shutting the broker down frees everything once, and the network thread outlives it.
  On a well-formed running broker \<open>main_shutdown\<close> returns: the event loop has been joined,
  every queue, exchange and binding of the broker and the broker itself are freed, and so
  are exactly the messages the queues own. But the network thread has not been joined, and
  its next look at the broker's \<open>running\<close> flag, after whatever \<open>accept\<close> returns, is a use
  after free.
\<close>

theorem main_shutdown_dangling_network_thread:
  assumes "broker_ok ba s" and "broker_at ba s b" and "br_running b \<noteq> 0" and "event_loop_thread b"
    and "Network ba \<in> set (threads s)"
  shows "\<exists>s'. main_shutdown (Some ba) s = Inr s' \<and> queues_ok s' \<and> unowned s' = unowned s \<and>
    threads s' = remove1 (Event_Loop ba) (threads s) \<and> brokers s' ba = None \<and>
    queues s' = queues s |` (- {a. Some a \<in> set (take (queue_count b) (br_queues b))}) \<and>
    exchange_heap s' = exchange_heap s |` (- {a. Some a \<in> set (take (exchange_count b) (br_exchanges b))}) \<and>
    binding_heap s' = binding_heap s |` (- {a. Some a \<in> set (take (binding_count b) (br_bindings b))}) \<and>
    Network ba \<in> set (threads s') \<and> (\<forall>fd. network_accept ba fd s' = Inl (UseAfterFree ba))"
proof -
  from broker_stop_ok [OF assms(1-4)] obtain s1 where
    1: "broker_stop (Some ba) s = Inr (True, s1)" "broker_ok ba s1" "broker_at ba s1 (b\<lparr>br_running := 0\<rparr>)"
      "threads s1 = remove1 (Event_Loop ba) (threads s)" "queues s1 = queues s" "msgs s1 = msgs s"
      "exchange_heap s1 = exchange_heap s" "binding_heap s1 = binding_heap s" by blast
  have "queues_ok s1" using 1(2) by (simp add: broker_ok_def)
  from broker_free_ok [OF this 1(3)] 1(4-8) obtain s' where
    2: "broker_free (Some ba) s1 = Inr s'" "queues_ok s'" "unowned s' = unowned s1" "brokers s' ba = None"
      "threads s' = threads s1" and
    3: "queues s' = queues s |` (- {a. Some a \<in> set (take (queue_count b) (br_queues b))})"
      "exchange_heap s' = exchange_heap s |` (- {a. Some a \<in> set (take (exchange_count b) (br_exchanges b))})"
      "binding_heap s' = binding_heap s |` (- {a. Some a \<in> set (take (binding_count b) (br_bindings b))})"
    by auto
  have "unowned s1 = unowned s" using 1(5,6) by (simp add: unowned_def all_held_def)
  then have "main_shutdown (Some ba) s = Inr s' \<and> queues_ok s' \<and> unowned s' = unowned s \<and>
      threads s' = remove1 (Event_Loop ba) (threads s) \<and> brokers s' ba = None"
    using 1(1,4) 2 by (simp add: main_shutdown_def)
  moreover have "Network ba \<in> set (threads s')" using 1(4) 2(5) assms(5) by (simp add: in_set_remove1)
  moreover have "\<forall>fd. network_accept ba fd s' = Inl (UseAfterFree ba)" using 2(4) by (simp add: network_accept_def)
  ultimately show ?thesis using 3 by blast
qed

theorem main_shutdown_dangling_network_thread_witness:
  "\<exists>s'. main_shutdown (Some 40) (demo_bmem demo_queue (full_net (\<lambda>_. []))) = Inr s' \<and>
     network_accept 40 9 s' = Inl (UseAfterFree 40)"
  using main_shutdown_dangling_network_thread [OF demo_broker_ok demo_broker_at [OF demo_names(1)],
      of "full_net (\<lambda>_. [])"]
  by (auto simp: demo_broker_def)

subsection \<open>Every run\<close>

text \<open>A queue of one place that holds message 1 and has no pending deliveries.\<close>

definition spent_queue :: Queue where
  "spent_queue = copy_queue\<lparr>q_name := Some ''test'', messages := [Some 1], q_size := 1\<rparr>"

lemma spent_ok: "queue_at 10 (demo_state spent_queue) spent_queue" "q_name spent_queue = Some ''test''"
  "ring_list spent_queue = [1]" "capacity spent_queue = 1" "unacked_list spent_queue = []" "unacked_list copy_queue = []"
  by (simp_all add: queue_at_def queue_ok_def ring_ok_def ledger_ok_def held_def ring_list_def
      unacked_list_def spent_queue_def copy_queue_def small_queue_def sizeof_ptr_def sizeof_DeliveryInfo_def ring_index_def)

text \<open>
  The server from its start on, whatever its clients send and however their messages are cut
  or broken off, if no system call fails: after any passes of handlers, accept loop and event
  loop the queues, the broker and its tables, the consumers and the client slots are well
  formed; the accept loop and the event loop return; and a handler's pass either returns or
  ends the process in one of exactly two ways, the write behind a buffer of length 0 of
  \<open>receive_message_data\<close> and the double free of the clone of \<open>broker_publish\<close>.
\<close>

theorem server_runs_safe:
  assumes "server_up ba s0" and "(server_step ba)\<^sup>*\<^sup>* s0 s"
  shows "queues_ok s \<and> consumers_ok s \<and> slots_inv s \<and> (\<exists>b. broker_at ba s b) \<and>
    (\<forall>i<MAX_CONNECTIONS. case client_handler_thread i s of
       Inl e \<Rightarrow> e = OutOfBounds 0 \<or> e = DoubleFree (Suc (brk s)) | Inr x \<Rightarrow> True) \<and>
    (\<forall>fd. fd \<noteq> -1 \<longrightarrow> (\<exists>x. network_accept ba fd s = Inr x)) \<and>
    (\<forall>t. \<exists>r. broker_event_loop ba t s = Inr (r, s))"
proof -
  have ok: "server_ok ba s" by (rule server.steps_inv [OF assms(2) server.inv_init [OF assms(1)]])
  then obtain b where b: "broker_at ba s b" by (auto simp: server_ok_def)
  have "case client_handler_thread i s of Inl e \<Rightarrow> e = OutOfBounds 0 \<or> e = DoubleFree (Suc (brk s)) | Inr x \<Rightarrow> True"
    if "i < MAX_CONNECTIONS" for i
    using handler_settles [OF ok that] by (auto simp: settles_def server_fault_def split: sum.splits)
  moreover have "\<exists>x. network_accept ba fd s = Inr x" if "fd \<noteq> -1" for fd
    using accept_settles [OF ok that b] by (cases "network_accept ba fd s") simp_all
  moreover have "\<exists>r. broker_event_loop ba t s = Inr (r, s)" for t by (rule event_loop_idle [OF ok])
  ultimately show ?thesis using ok b by (auto simp: server_ok_def)
qed

lemma server_comes_up:
  "\<exists>ba s b. server_up ba s \<and> client_count s = 0 \<and> brokers s ba = Some b \<and> br_running b = 1 \<and> sys_fine s"
proof -
  from main_started [OF blank_demo] obtain ba e1 e2 e3 qa b s where
    d: "default_broker ba e1 e2 e3 qa b s" "br_running b = 1" "sys_fine s" and
    m: "\<And>args log_fp st. main_start args log_fp st blank_bmem =
       (case parse_args args default_config of
          Inl code \<Rightarrow> Inl (ProcessExit (nat code))
        | Inr cfg \<Rightarrow>
            let st = log_set_level (if cfg_verbose cfg then 0 else 1) st in
            if cfg_log_file cfg \<noteq> None \<and> log_fp = None then Inl (ProcessExit 1)
            else Inr (cfg, Some ba, (if cfg_log_file cfg \<noteq> None then log_set_output log_fp st else st), s))" by blast
  have "main_start [] None log_initial blank_bmem = Inr (default_config, Some ba, log_set_level 1 log_initial, s)"
    by (simp add: m default_config_def Let_def)
  moreover obtain t where t: "network_start 3 True True s = (True, t)" by (simp add: network_start_def Let_def)
  ultimately have "server_up ba t" unfolding server_up_def using blank_demo by blast
  moreover have "client_count t = 0" "brokers t = brokers s" "sys_ok t = sys_ok s"
    using t by (auto simp: network_start_def Let_def)
  moreover have "brokers s ba = Some b" using d(1) by (simp add: default_broker_def broker_at_def)
  ultimately show ?thesis using d(2,3) by (intro exI [of _ ba] exI [of _ t] exI [of _ b]) (simp add: sys_fine_def)
qed

lemma first_client:
  "\<exists>ba s0 s. server_up ba s0 \<and> network_accept ba 4 s0 = Inr (True, s) \<and> client_count s = 1"
proof -
  from server_comes_up obtain ba s b where u: "server_up ba s" "client_count s = 0" "brokers s ba = Some b"
    "br_running b = 1" "sys_fine s" by blast
  have "slots_inv s" using server_up_ok [OF u(1)] by (simp add: server_ok_def)
  from accept_room [OF this u(3) _ _ _ u(5), of 4] u show ?thesis by (auto simp: MAX_CONNECTIONS_def)
qed

theorem server_runs_safe_witness:
  "\<exists>ba s0 s. server_up ba s0 \<and> server_step ba s0 s \<and> client_count s = 1 \<and> queues_ok s \<and>
     (\<exists>x. network_accept ba 9 s = Inr x) \<and> (\<exists>r. broker_event_loop ba 0 s = Inr (r, s))"
proof -
  from first_client obtain ba s0 s where f: "server_up ba s0" "network_accept ba 4 s0 = Inr (True, s)"
    "client_count s = 1" by blast
  have step: "server_step ba s0 s" by (rule server_step.accepted [OF _ f(2)]) simp
  from server_runs_safe [OF f(1) r_into_rtranclp [of "server_step ba", OF step]] f step show ?thesis by fastforce
qed





text \<open>
  C19. The server's queues only fill. Nothing in \<open>broker.c\<close> takes a message out of a queue, so over
  any run each queue keeps what it has and gets at most its capacity of messages in its life;
  and once the queues that an exchange and a key select are full they are full in every later
  state, where a producer's message for them ends the process with a double free.
\<close>

theorem server_queues_only_fill:
  assumes "server_ok ba s" and "(server_step ba)\<^sup>*\<^sup>* s t" and "broker_at ba s b"
  shows "(\<forall>qa. \<exists>new. contents t qa = contents s qa @ new) \<and>
    (\<forall>qa. length (contents t qa) \<le> room_of t qa \<and> room_of t qa = room_of s qa) \<and>
    (\<forall>ea key i conn m. (\<forall>qa\<in>set (targets s b ea key). room_of s qa \<le> length (contents s qa)) \<and>
       serving i ba t conn m \<and> \<not> is_consumer conn \<and> \<not> registration m \<and> routing_key m = Some key \<and>
       broker_get_exchange (Some ba) (exchange m) t = Inr (Some ea) \<longrightarrow>
       client_handler_thread i t = Inl (DoubleFree (Suc (brk t))))"
proof -
  have ok: "server_ok ba t" by (rule server.steps_inv [OF assms(2,1)])
  have adds: "only_adds s t" by (rule server_only_adds [OF assms(2,1)])
  have "queues_ok t" using ok by (simp add: server_ok_def)
  obtain c where "broker_at ba t c" using ok by (auto simp: server_ok_def)
  then have b: "broker_at ba t b" using adds assms(3) by (simp add: only_adds_def broker_at_def)
  have "client_handler_thread i t = Inl (DoubleFree (Suc (brk t)))"
    if "\<forall>qa\<in>set (targets s b ea key). room_of s qa \<le> length (contents s qa)" "serving i ba t conn m"
      "\<not> is_consumer conn" "\<not> registration m" "routing_key m = Some key"
      "broker_get_exchange (Some ba) (exchange m) t = Inr (Some ea)" for ea key i conn m
    using full_stays_full [OF adds that(1)] that(5) by (intro full_crashes [OF ok b _ that(2-4,6)]) simp
  then show ?thesis
    using adds contents_bound [OF \<open>queues_ok t\<close>] only_adds_same(2) [OF adds] by (auto simp: only_adds_def)
qed

lemma demo_server_ok: "server_ok 40 (demo_bmem spent_queue n)"
proof -
  have "slots_inv (demo_bmem q n)" for q
  proof -
    have "i \<in> used_slots (demo_bmem q n) \<longleftrightarrow> i \<in> {0, 1}" for i
    proof (cases "i \<le> 1")
      case True
      then consider "i = 0" | "i = 1" by linarith
      then show ?thesis by cases (simp_all add: used_slots_def producer_def consumer_def)
    next
      case False
      then obtain j where "i = Suc (Suc j)" by (metis One_nat_def less_imp_Suc_add not_le add_Suc_right plus_1_eq_Suc)
      then show ?thesis by (simp add: used_slots_def free_connection_def)
    qed
    then have "used_slots (demo_bmem q n) = {0, 1}" by blast
    then show ?thesis by (simp add: slots_inv_def) (simp add: demo_bmem_def MAX_CONNECTIONS_def)
  qed
  moreover have "\<exists>b. broker_at 40 (demo_bmem spent_queue n) b" using demo_broker_at [OF spent_ok(2)] by blast
  ultimately show ?thesis
    using demo_queues_ok [OF spent_ok(1)] demo_consumers_ok spent_ok(5,6)
    by (auto simp: server_ok_def producer_def consumer_def free_connection_def zero_connection_def split: if_splits)
qed

theorem server_queues_only_fill_witness:
  "\<exists>t. server_step 40 (demo_bmem spent_queue (full_net (\<lambda>_. wire_image demo_message))) t \<and>
     contents t 10 = [demo_message] \<and> client_handler_thread 0 t = Inl (DoubleFree 51)"
proof -
  let ?s = "demo_bmem spent_queue (full_net (\<lambda>_. wire_image demo_message))"
  let ?t = "?s\<lparr>clock := 105\<rparr>"
  have step: "server_step 40 ?s ?t" by (rule server_step.tick)
  have c: "contents ?s 10 = [demo_message]" "room_of ?s 10 = 1"
    by (simp_all add: contents_def room_of_def spent_ok)
  have sv: "serving 0 40 ?t producer demo_message" using demo_serving [OF demo_wire, of spent_queue] by (simp add: serving_def)
  have get: "broker_get_exchange (Some 40) (Some ''amq.direct'') ?t = Inr (Some 20)"
    using demo_exchange [OF spent_ok(2)] by (simp add: broker_get_exchange_def exchange_name_at_def [abs_def])
  note fills = server_queues_only_fill [OF demo_server_ok r_into_rtranclp [of "server_step 40", OF step]
      demo_broker_at [OF spent_ok(2)], THEN conjunct2, THEN conjunct2, rule_format, of 20 "''test''" 0 producer demo_message]
  have "client_handler_thread 0 ?t = Inl (DoubleFree (Suc (brk ?t)))"
    by (rule fills) (use c sv get in \<open>simp add: demo_targets producer_def registration_def\<close>)
  moreover have "contents ?t 10 = contents ?s 10" by (simp add: contents_def)
  ultimately show ?thesis using step c(1) by (intro exI [of _ ?t]) simp
qed

end
