(* ===== verification/System_Properties.thy ===== *)
theory System_Properties
  imports Client_Properties Server_Properties
begin

text \<open>
  The property that spans the system: a message goes from a publishing client
  (\<open>src/wrapper/client.cpp\<close>, \<open>src/core/connection.c\<close>) through a handler of the broker
  (\<open>src/core/broker.c\<close>, \<open>src/core/queue.c\<close>) to the code of a consumer in a third process.
\<close>

text \<open>
  What the broker has for it: a handler of a producer in slot \<open>i\<close>, the exchange, one queue that
  the binding selects and that has room, and one live consumer of that queue on \<open>fd\<close>.
\<close>

definition broker_ready ::
    "nat \<Rightarrow> addr \<Rightarrow> ClientConnection \<Rightarrow> Broker \<Rightarrow> addr \<Rightarrow> addr \<Rightarrow> int \<Rightarrow> string \<Rightarrow> string \<Rightarrow> bmem \<Rightarrow> bool" where
  "broker_ready i ba conn b ea qa fd ex key s \<longleftrightarrow>
     sys_fine s \<and> queues_ok s \<and> consumers_ok s \<and> broker_at ba s b \<and>
     i < length (client_connections s) \<and> client_connections s ! i = conn \<and> cc_running conn \<and> \<not> is_consumer conn \<and>
     cc_broker conn = Some ba \<and> 0 \<le> cc_fd conn \<and> full_recvs (net s) \<and> full_sends (net s) \<and>
     broker_get_exchange (Some ba) (Some ex) s = Inr (Some ea) \<and> targets s b ea key = [qa] \<and>
     length (contents s qa) < room_of s qa \<and> fds_of s qa = [fd] \<and> (\<forall>qa. \<forall>fd\<in>set (fds_of s qa). 0 \<le> fd)"

text \<open>A client whose receiver runs and whose context has the consumer \<open>k\<close>.\<close>

definition consumer_ready :: "addr \<Rightarrow> Connection \<Rightarrow> addr \<Rightarrow> ClientContext \<Rightarrow> addr \<Rightarrow> 'z clmem_scheme \<Rightarrow> bool" where
  "consumer_ready a con ca ctx k s \<longleftrightarrow>
     sys_fine s \<and> full_recvs (socks s) \<and> connections s a = Some con \<and> conn_running con \<noteq> 0 \<and> 0 \<le> socket_fd con \<and>
     on_message con = Some onMessageCallback_fn \<and> callback_context con = Some ca \<and> contexts s ca = Some ctx \<and>
     messagePromise ctx = None \<and> ctx_consumer ctx = Some k"

lemma consumer_gets:
  fixes t :: "'z clmem_scheme"
  assumes c: "consumer_ready a con ca ctx k t" and p: "parse_message (inp (socks t) (socket_fd con)) = Some (m, rest)"
  shows "\<exists>t1. msgs t1 = (msgs t)(brk t \<mapsto> m) \<and> inp (socks t1) (socket_fd con) = rest \<and>
    client_receive code err a t =
      ebind (code k (wrapper_of (brk t) (lastDeliveryTag ctx)) t1) (\<lambda>(r, left, u).
      ebind (message_destroy left u) (\<lambda>u.
      ebind (case r of Value _ \<Rightarrow> Inr u | Throw e \<Rightarrow> message_free (Some (brk t)) u) (\<lambda>u. Inr (True, u))))"
proof -
  have c': "connections t a = Some con" "conn_running con \<noteq> 0" "0 \<le> socket_fd con" "on_message con = Some onMessageCallback_fn"
    "full_recvs (socks t)" "sys_fine t" "callback_context con = Some ca" "contexts t ca = Some ctx"
    "messagePromise ctx = None" "ctx_consumer ctx = Some k"
    using c by (simp_all add: consumer_ready_def)
  from receive_runs [OF c'(1-6) p, of code err] obtain j n e where
    r: "client_receive code err a t = ebind (onMessageCallback code (Some ca) (Some (brk t))
      (t\<lparr>sys_calls := j, msgs := (msgs t)(brk t \<mapsto> m), brk := Suc (brk t), socks := consumed (socket_fd con) rest n (socks t),
         errno := e, callbacks := callbacks t @ [Message_Callback onMessageCallback_fn (Some ca) (brk t)]\<rparr>))
      (\<lambda>s. Inr (True, s))" by (auto simp: c'(7))
  define t1 where "t1 = t\<lparr>sys_calls := j, msgs := (msgs t)(brk t \<mapsto> m), brk := Suc (brk t),
      socks := consumed (socket_fd con) rest n (socks t), errno := e,
      callbacks := callbacks t @ [Message_Callback onMessageCallback_fn (Some ca) (brk t)]\<rparr>"
  have "contexts t1 ca = Some ctx" "msgs t1 = (msgs t)(brk t \<mapsto> m)" "inp (socks t1) (socket_fd con) = rest"
    using c'(8) by (simp_all add: t1_def)
  moreover note callback_consumer [OF this(1) c'(9,10), of code "brk t"]
  ultimately show ?thesis
    using r [folded t1_def] by (intro exI [of _ t1]) (simp add: ebind_assoc split_def)
qed


definition consumer_demo :: "byte list \<Rightarrow> exmem" where
  "consumer_demo bs = client_process (new_context\<lparr>ctx_consumer := Some 9\<rparr>) (full_net (\<lambda>_. bs))"

lemma consumer_demo_ready: "consumer_ready 50 wired_connection 51 (new_context\<lparr>ctx_consumer := Some 9\<rparr>) 9 (consumer_demo bs)"
  by (simp add: consumer_ready_def consumer_demo_def wired_connection_def new_context_def)

lemma broker_demo_ready:
  "broker_ready 0 40 producer demo_broker 20 10 5 ''amq.direct'' ''test'' (demo_bmem demo_queue (full_net (\<lambda>_. bs)))"
proof -
  let ?s = "demo_bmem demo_queue (full_net (\<lambda>_. bs))"
  have "fds_of ?s qa = (if qa = 10 then [5] else [])" for qa by (simp add: demo_consumer_fds)
  moreover have "contents ?s 10 = [demo_message, demo_message]" "room_of ?s 10 = 3" by (simp_all add: demo_contents)
  ultimately show ?thesis
    using demo_queues_ok [OF demo_at(1)] demo_consumers_ok demo_broker_at [OF demo_names(1)] demo_exchange [OF demo_names(1)]
    by (simp add: broker_ready_def demo_targets producer_def)
qed


end
