(* ===== verification/Spec2Isabelle.thy ===== *)
theory Spec2Isabelle
  imports Log System_Properties
begin

text \<open>
  A verification library for the RabbitMQ client and broker of this repository.

  \<^bold>\<open>The program.\<close> \<open>src/core/message.c\<close> has messages on the heap, \<open>src/core/queue.c\<close>
  bounded queues with an array of unacknowledged deliveries, shared by threads.
  \<open>src/core/broker.c\<close> keeps queues, exchanges and bindings, routes a published message to
  the queues its bindings select, serves TCP clients with one handler thread each, forwards
  what it enqueues to registered consumers, and requeues deliveries that time out.
  \<open>src/core/connection.c\<close> has the client side of a connection with its receiver thread, and
  the wire format both sides use; \<open>src/wrapper/client.cpp\<close> wraps it and the messages in C++
  classes. \<open>src/core/log.c\<close> filters log lines by level, \<open>src/broker/main.c\<close> is the broker's
  program, \<open>examples/producer/main.cpp\<close> and \<open>examples/consumer/ack_consumer.cpp\<close> are programs
  on the wrapper.

  \<^bold>\<open>Modelling.\<close> A C function is a HOL function into \<open>fault + 'a\<close>: \<open>Inr\<close> is a run that
  returns, \<open>Inl\<close> one that hits undefined behaviour (NULL dereference, use after free, double
  free, access out of bounds, read of uninitialised memory, division by zero) or ends the
  process. Memory is a record of partial maps from addresses to objects; freeing removes the
  object, and \<open>brk\<close> is the next fresh address. Every call that can fail (allocation,
  initialisation of a mutex, creation of a thread) asks \<open>sys_ok\<close>, an arbitrary function of
  the number of the call. \<open>size_t\<close> is a natural number with arithmetic modulo \<open>2 ^ 64\<close>, the
  fixed-width integers are words. What is done under a mutex is one state transformer.
  A C++ exception is a value \<open>Throw\<close> beside \<open>Value\<close>, and the
  destructors that unwinding runs are written out. Loops are \<open>for_loop\<close> and \<open>for_find\<close> over the index range, or functions with a measure; no
  fuel is used anywhere.

  \<^bold>\<open>Theories.\<close>
  \<^item> \<open>Prelude\<close>: C types, results, loops, heaps, arrays, strings, reachability; the locale
    \<open>invariant_system\<close>, interpreted by every state machine of the library.
  \<^item> \<open>Log\<close>: \<open>src/core/log.c\<close>, and why the other components leave log calls out.
  \<^item> \<open>Message\<close>: \<open>src/core/message.c\<close>, the heap of messages and its invariant \<open>heap_ok\<close>.
  \<^item> \<open>Queue\<close>: \<open>src/core/queue.c\<close>, every function. \<open>Queue_Ring\<close> and \<open>Queue_Unacked\<close>: the ring
    buffer and the array of deliveries against lists. \<open>Queue_Safety\<close>: the invariant
    \<open>queue_at\<close>, the abstract queue of ready messages and pending deliveries, and the
    refinement of every operation. \<open>Queue_Threads\<close>: interleaved callers, with waiting and
    waking. \<open>Queue_Properties\<close>: the properties.
  \<^item> \<open>Wire\<close>: \<open>send_message_data\<close> and \<open>receive_message_data\<close>. \<open>Wire_Roundtrip\<close>: the locale
    \<open>codec\<close>, interpreted for the fields and for the whole message, and what the functions do
    on sockets that handle every request in full. \<open>Wire_Properties\<close>: the properties.
    \<open>Frames\<close>: what each function leaves alone.
  \<^item> \<open>Broker\<close>: \<open>src/core/broker.c\<close>, every function and the passes of its threads.
    \<open>Broker_Routing\<close>: well-formed brokers and the specification of routing (\<open>targets\<close>,
    \<open>spec_route\<close>). \<open>Broker_Publish\<close>: one call of \<open>broker_publish\<close>. \<open>Broker_Names\<close>: queues and
    exchanges as tables of names (locale \<open>name_table\<close>), creation and binding.
    \<open>Broker_Handler\<close>: a handler's pass, registration, forwarding. \<open>Broker_Delivery\<close>: the bytes
    that consumers get while a message is routed. \<open>Broker_Slots\<close>: the server
    as a state machine and its client slots. \<open>Broker_Server\<close>: its invariant from \<open>main\<close> on, for
    arbitrary clients, and the faults that remain. \<open>Broker_Interleaved\<close>: the handlers of
    several clients interleaved, a pass cut at the broker's mutex. \<open>Broker_Races\<close>: two registrations of
    consumers, interleaved. \<open>Broker_Free\<close>: start, stop and destruction.
    \<open>Broker_Main\<close>: \<open>src/broker/main.c\<close>. \<open>Broker_Properties\<close>, \<open>Server_Properties\<close>: the properties.
  \<^item> \<open>Connection\<close>: the interface of \<open>src/core/connection.c\<close> and the receiver thread.
    \<open>Connection_Safety\<close>: its state machine. \<open>Connection_Threads\<close>: a disconnecting thread and
    the receiver, interleaved. \<open>Connection_Properties\<close>: the properties.
  \<^item> \<open>Client\<close>: \<open>src/wrapper/client.cpp\<close>, every member function. \<open>Programs\<close>: the example
    programs. \<open>Client_Races\<close>: \<open>get\<close> beside the receiver's callback. \<open>Client_Safety\<close>:
    message wrappers and a client as state machines. \<open>Client_Runs\<close>, \<open>Consumer_Runs\<close>: runs in which no system call fails. \<open>Client_Properties\<close>: the properties.
  \<^item> \<open>System_Properties\<close>: from a publishing client through the broker to a consumer.

  \<^bold>\<open>What is shown.\<close> Queue operations refine a bounded queue with pending deliveries and stay
  safe under any interleaving; publishing refines the specification of routing; what is
  sent is what is received, on sockets that handle each request in full; the tables of
  names are stable; the state machines of connections, of client slots, of message wrappers
  and of clients have their invariants; the server, from its start and with any clients, stays
  well formed and can only end in two ways; a published message reaches the consumer of its
  queue. The places where the code breaks are theorems too: each states the exact condition
  and the fault, leak or wait that follows.

  \<^bold>\<open>Not modelled.\<close> The Makefile; time stamps and thread ids in log lines; usage texts; signals
  (in particular SIGPIPE from \<open>send\<close>); \<open>fcntl\<close>; failing allocations inside the C++ library
  (strings, shared state of promises). Blocking is modelled for the condition variables of
  queues and, in \<open>Connection_Threads\<close>, for \<open>recv\<close> and \<open>pthread_join\<close>; elsewhere \<open>recv\<close>,
  \<open>accept\<close> and \<open>pthread_join\<close> are steps that happen when they can. The handlers are interleaved between
  their sections under the broker's mutex (\<open>Broker_Interleaved\<close>) and \<open>register_consumer\<close>, which
  takes no mutex, statement by statement (\<open>Broker_Races\<close>); in the client a pass of the receiver is one
  step, cut further only where it meets \<open>get\<close> (\<open>Client_Races\<close>) and \<open>connection_disconnect\<close>
  (\<open>Connection_Threads\<close>).
\<close>

end
